(* ===== verification/PcrPrelude.thy ===== *)
theory PcrPrelude
  imports Main "HOL-Library.Word" "HOL-Library.List_Lexorder" "HOL-Library.Multiset"
    "HOL-Library.Sublist"
begin

text \<open>
  Shared vocabulary of the development.  Byte strings (Rust \<open>Vec<u8>\<close> and \<open>&[u8]\<close>) are lists of
  8-bit words; the order on them is the lexicographic one of \<open>List_Lexorder\<close>, which is the order
  of Rust slices and of RocksDB keys.  Fixed-width integers stay words.  A Rust
  \<open>Result<T, E>\<close> is the sum \<open>'e + 'a\<close> (\<open>Inl\<close> the error), and \<open>rbind\<close> is the \<open>?\<close> operator.
\<close>

named_theorems codec_simps \<open>round trips and lengths of the encoders\<close>
named_theorems wf_intros \<open>preservation of the well-formedness invariants\<close>

unbundle bit_operations_syntax

type_synonym byte = "8 word"
type_synonym bytes = "8 word list"
type_synonym u64 = "64 word"
type_synonym i64 = "64 word"

section \<open>Results\<close>

fun rbind :: "'e + 'a \<Rightarrow> ('a \<Rightarrow> 'e + 'b) \<Rightarrow> 'e + 'b" where
  "rbind (Inl e) f = Inl e"
| "rbind (Inr a) f = f a"

fun rmap :: "('a \<Rightarrow> 'b) \<Rightarrow> 'e + 'a \<Rightarrow> 'e + 'b" where
  "rmap f (Inl e) = Inl e"
| "rmap f (Inr a) = Inr (f a)"

fun map_err :: "('e \<Rightarrow> 'f) \<Rightarrow> 'e + 'a \<Rightarrow> 'f + 'a" where
  "map_err f (Inl e) = Inl (f e)"
| "map_err f (Inr a) = Inr a"

fun is_ok :: "'e + 'a \<Rightarrow> bool" where
  "is_ok (Inl e) = False"
| "is_ok (Inr a) = True"

fun ok :: "'e + 'a \<Rightarrow> 'a option" where
  "ok (Inl e) = None"
| "ok (Inr a) = Some a"

lemma rbind_cong [fundef_cong]:
  "m = n \<Longrightarrow> (\<And>a. n = Inr a \<Longrightarrow> f a = g a) \<Longrightarrow> rbind m f = rbind n g"
  by (cases n) auto

lemma rbind_Inr_iff: "rbind m f = Inr b \<longleftrightarrow> (\<exists>a. m = Inr a \<and> f a = Inr b)"
  by (cases m) auto

lemma rbind_Inl_iff: "rbind m f = Inl e \<longleftrightarrow> m = Inl e \<or> (\<exists>a. m = Inr a \<and> f a = Inl e)"
  by (cases m) auto

lemma rmap_Inr_iff: "rmap f m = Inr b \<longleftrightarrow> (\<exists>a. m = Inr a \<and> b = f a)"
  by (cases m) auto

lemma rmap_rbind: "rmap g (rbind m f) = rbind m (\<lambda>a. rmap g (f a))"
  by (cases m) auto

section \<open>Slices\<close>

definition subslice :: "nat \<Rightarrow> nat \<Rightarrow> 'a list \<Rightarrow> 'a list" where
  "subslice i j xs = take (j - i) (drop i xs)"

lemma length_subslice [simp]: "j \<le> length xs \<Longrightarrow> length (subslice i j xs) = j - i"
  by (auto simp: subslice_def)

section \<open>Lexicographic order of byte strings\<close>

text \<open>Two strings of which neither is a prefix of the other are ordered by what they share.\<close>

lemma lex_append_same [simp]: "(zs @ xs < zs @ ys) = (xs < (ys :: 'a :: linorder list))"
  by (induction zs) auto

lemma lex_less_append_right: "xs \<le> (xs @ ys :: 'a :: linorder list)"
  by (induction xs) auto

lemma lex_append_cong:
  fixes xs ys :: "'a :: linorder list"
  assumes "\<not> prefix xs ys" and "\<not> prefix ys xs"
  shows "xs @ us < ys @ vs \<longleftrightarrow> xs < ys"
  using assms
proof (induction xs arbitrary: ys)
  case (Cons x xs)
  then show ?case by (cases ys) auto
qed auto

lemma lex_same_length:
  fixes xs ys :: "'a :: linorder list"
  assumes "length xs = length ys"
  shows "xs @ us < ys @ vs \<longleftrightarrow> xs < ys \<or> xs = ys \<and> us < vs"
  using assms by (induction xs ys rule: list_induct2) auto

lemma lex_map_antimono:
  fixes f :: "'a :: linorder \<Rightarrow> 'b :: linorder"
  assumes "\<And>x y. f x < f y \<longleftrightarrow> y < x" and "length xs = length ys"
  shows "map f xs < map f ys \<longleftrightarrow> ys < xs"
proof -
  have "f x = f y \<longleftrightarrow> x = y" for x y
    using assms(1) by (metis less_irrefl linorder_neqE)
  with assms(2) assms(1) show ?thesis
    by (induction xs ys rule: list_induct2) auto
qed

section \<open>Big-endian fixed-width numbers\<close>

text \<open>\<open>be_bytes k n\<close> is what a big-endian writer emits for the low \<open>k\<close> bytes of \<open>n\<close>;
  \<open>be_value\<close> reads it back.\<close>

fun be_bytes :: "nat \<Rightarrow> nat \<Rightarrow> bytes" where
  "be_bytes 0 n = []"
| "be_bytes (Suc k) n = be_bytes k (n div 256) @ [of_nat (n mod 256)]"

definition be_value :: "bytes \<Rightarrow> nat" where
  "be_value bs = foldl (\<lambda>a b. a * 256 + unat b) 0 bs"

lemma be_value_Nil [simp]: "be_value [] = 0"
  by (simp add: be_value_def)

lemma be_value_snoc [simp]: "be_value (bs @ [b]) = be_value bs * 256 + unat b"
  by (simp add: be_value_def)

lemma length_be_bytes [simp]: "length (be_bytes k n) = k"
  by (induction k arbitrary: n) auto

lemma unat_byte_less [simp]: "unat (b :: byte) < 256"
  using unsigned_less [of b] by simp

lemma unat_byte_of_nat [simp]: "n < 256 \<Longrightarrow> unat (of_nat n :: byte) = n"
  by (simp add: unat_of_nat)

lemma be_value_be_bytes [codec_simps]: "be_value (be_bytes k n) = n mod 256 ^ k"
proof (induction k arbitrary: n)
  case (Suc k)
  have "n mod 256 ^ Suc k = 256 * (n div 256 mod 256 ^ k) + n mod 256"
    using mod_mult2_eq [of n 256 "256 ^ k"] by simp
  with Suc show ?case by simp
qed auto

lemma be_bytes_be_value: "be_bytes (length bs) (be_value bs) = bs"
proof (induction bs rule: rev_induct)
  case (snoc b bs)
  have "(be_value bs * 256 + unat b) div 256 = be_value bs"
    by (simp add: div_mult_self1)
  moreover have "(be_value bs * 256 + unat b) mod 256 = unat b" by simp
  ultimately show ?case using snoc by simp
qed simp

lemma be_value_less: "be_value bs < 256 ^ length bs"
proof (induction bs rule: rev_induct)
  case (snoc b bs)
  have "be_value bs * 256 + unat b < (be_value bs + 1) * 256"
    using unat_byte_less [of b] by simp
  also have "\<dots> \<le> 256 ^ length bs * 256"
    using snoc by (intro mult_right_mono) auto
  finally show ?case by (simp add: mult.commute)
qed simp

lemma be_value_append: "be_value (xs @ ys) = be_value xs * 256 ^ length ys + be_value ys"
  by (induction ys rule: rev_induct) (auto simp flip: append_assoc simp: algebra_simps)

lemma be_value_Cons: "be_value (x # xs) = unat x * 256 ^ length xs + be_value xs"
  using be_value_append [of "[x]" xs] be_value_snoc [of "[]" x] by simp

lemma be_value_order:
  assumes "length xs = length ys"
  shows "be_value xs < be_value ys \<longleftrightarrow> xs < ys"
  using assms
proof (induction xs ys rule: list_induct2)
  case (Cons x xs y ys)
  have hd_less: "be_value (a # as) < be_value (b # bs)"
    if "a < b" "length as = length bs" for a b :: byte and as bs
  proof -
    have "be_value (a # as) < (unat a + 1) * 256 ^ length as"
      using be_value_less [of as] by (simp add: be_value_Cons)
    also have "\<dots> \<le> unat b * 256 ^ length as"
      using that by (intro mult_right_mono) (auto simp: word_less_nat_alt)
    also have "\<dots> \<le> be_value (b # bs)" using that by (simp add: be_value_Cons)
    finally show ?thesis .
  qed
  show ?case
  proof (cases x y rule: linorder_cases)
    case equal
    then show ?thesis using Cons by (simp add: be_value_Cons)
  next
    case less
    then show ?thesis using hd_less [of x y xs ys] Cons by auto
  next
    case greater
    then show ?thesis using hd_less [of y x ys xs] Cons by auto
  qed
qed simp

end
