(* ===== verification/NumberCodec.thy ===== *)
theory NumberCodec
  imports PcrPrelude
begin

text \<open>
  The number codec of \<open>components/tikv_util/src/codec/number.rs\<close> and the shared parts of
  \<open>codec/mod.rs\<close>.  Encoders return the bytes they append; decoders take the slice the Rust code
  advances and return the value with the rest of the slice.  The interface \<open>prefix_codec\<close> states
  what every encoder/decoder pair promises, \<open>order_codec\<close> adds that the encoding is
  memcomparable; both are interpreted on the definitions below.
\<close>

section \<open>Errors and slices\<close>

datatype codec_error =
    UnexpectedEof
  | InvalidData string
  | KeyLength
  | KeyPadding
  | KeyNotFound
  | ValueLength
  | ValueMeta
  | OutOfBounds \<comment> \<open>an unchecked access outside the slice: undefined behaviour in Rust\<close>

type_synonym 'a decoder = "bytes \<Rightarrow> codec_error + 'a \<times> bytes"

definition read_slice :: "nat \<Rightarrow> bytes decoder" where
  "read_slice n data =
    (if n \<le> length data then Inr (take n data, drop n data) else Inl UnexpectedEof)"

fun next_prefix_rev :: "bytes \<Rightarrow> bytes" where
  "next_prefix_rev [] = []"
| "next_prefix_rev (b # rest) = (if b = 255 then next_prefix_rev rest else (b + 1) # rest)"

definition next_prefix_of :: "bytes \<Rightarrow> bytes" where
  "next_prefix_of key = rev (next_prefix_rev (rev key))"

section \<open>Fixed-width numbers\<close>

definition SIGN_MARK :: u64 where
  "SIGN_MARK = 0x8000000000000000"

definition MAX_VAR_U64_LEN :: nat where
  "MAX_VAR_U64_LEN = 10"

definition order_encode_i64 :: "i64 \<Rightarrow> u64" where
  "order_encode_i64 v = v XOR SIGN_MARK"

definition order_decode_i64 :: "u64 \<Rightarrow> i64" where
  "order_decode_i64 u = u XOR SIGN_MARK"

definition encode_u64 :: "u64 \<Rightarrow> bytes" where
  "encode_u64 v = be_bytes 8 (unat v)"

definition encode_u64_desc :: "u64 \<Rightarrow> bytes" where
  "encode_u64_desc v = be_bytes 8 (unat (NOT v))"

definition encode_i64 :: "i64 \<Rightarrow> bytes" where
  "encode_i64 v = encode_u64 (order_encode_i64 v)"

definition encode_i64_desc :: "i64 \<Rightarrow> bytes" where
  "encode_i64_desc v = encode_u64_desc (order_encode_i64 v)"

definition encode_u32 :: "32 word \<Rightarrow> bytes" where
  "encode_u32 v = be_bytes 4 (unat v)"

definition encode_u16 :: "16 word \<Rightarrow> bytes" where
  "encode_u16 v = be_bytes 2 (unat v)"

definition encode_u64_le :: "u64 \<Rightarrow> bytes" where
  "encode_u64_le v = rev (be_bytes 8 (unat v))"

definition read_num_bytes :: "nat \<Rightarrow> (bytes \<Rightarrow> 'a) \<Rightarrow> 'a decoder" where
  "read_num_bytes n f data =
    (if length data \<ge> n then Inr (f (take n data), drop n data) else Inl UnexpectedEof)"

definition decode_u64 :: "u64 decoder" where
  "decode_u64 = read_num_bytes 8 (\<lambda>bs. of_nat (be_value bs))"

definition decode_u32 :: "32 word decoder" where
  "decode_u32 = read_num_bytes 4 (\<lambda>bs. of_nat (be_value bs))"

definition decode_u16 :: "16 word decoder" where
  "decode_u16 = read_num_bytes 2 (\<lambda>bs. of_nat (be_value bs))"

definition decode_u64_le :: "u64 decoder" where
  "decode_u64_le = read_num_bytes 8 (\<lambda>bs. of_nat (be_value (rev bs)))"

definition decode_u64_desc :: "u64 decoder" where
  "decode_u64_desc data = rmap (\<lambda>(v, rest). (NOT v, rest)) (decode_u64 data)"

definition decode_i64 :: "i64 decoder" where
  "decode_i64 data = rmap (\<lambda>(v, rest). (order_decode_i64 v, rest)) (decode_u64 data)"

definition decode_i64_desc :: "i64 decoder" where
  "decode_i64_desc data = rmap (\<lambda>(v, rest). (order_decode_i64 v, rest)) (decode_u64_desc data)"

fun read_u8 :: "byte decoder" where
  "read_u8 [] = Inl UnexpectedEof"
| "read_u8 (b # rest) = Inr (b, rest)"

section \<open>Variable-length numbers\<close>

function encode_var_u64 :: "u64 \<Rightarrow> bytes" where
  "encode_var_u64 v =
    (if v \<ge> 0x80 then (ucast v OR 0x80) # encode_var_u64 (drop_bit 7 v) else [ucast v])"
  by auto

termination encode_var_u64
proof (relation "measure unat")
  fix v :: u64
  assume "v \<ge> 0x80"
  then have "unat (drop_bit 7 v) < unat v"
    by (simp only: unat_drop_bit_eq) (simp add: drop_bit_eq_div word_le_nat_alt)
  then show "(drop_bit 7 v, v) \<in> measure unat" by simp
qed simp

definition encode_var_i64 :: "i64 \<Rightarrow> bytes" where
  "encode_var_i64 v =
    (let vx = push_bit 1 v;
         vx = (if sint v < 0 then NOT vx else vx)
     in encode_var_u64 vx)"

definition get_unchecked :: "bytes \<Rightarrow> nat \<Rightarrow> codec_error + byte" where
  "get_unchecked data i = (if i < length data then Inr (data ! i) else Inl OutOfBounds)"

text \<open>The unrolled loop over at most nine bytes and the tenth byte after it.\<close>

function var_u64_fast :: "bytes \<Rightarrow> nat \<Rightarrow> u64 \<Rightarrow> codec_error + u64 \<times> bytes" where
  "var_u64_fast data i res =
    (if i < 9 then
       rbind (get_unchecked data i) (\<lambda>b.
         let res = res OR push_bit (i * 7) (ucast b AND 0x7f)
         in if b < 0x80 then Inr (res, drop (i + 1) data) else var_u64_fast data (i + 1) res)
     else
       rbind (get_unchecked data 9) (\<lambda>b.
         if b \<le> 1 then Inr (res OR push_bit (9 * 7) (ucast b AND 0x7f), drop 10 data)
         else Inl (InvalidData ''overflow'')))"
  by auto

termination var_u64_fast
  by (relation "measure (\<lambda>(data, i, res). 9 - i)") auto

text \<open>The checked loop over all of the slice.\<close>

function var_u64_slow :: "bytes \<Rightarrow> nat \<Rightarrow> u64 \<Rightarrow> codec_error + u64 \<times> bytes" where
  "var_u64_slow data i res =
    (if i < length data then
       let b = data ! i; res = res OR push_bit (i * 7) (ucast b AND 0x7f)
       in if b < 0x80 then Inr (res, drop (i + 1) data) else var_u64_slow data (i + 1) res
     else Inl UnexpectedEof)"
  by auto

termination var_u64_slow
  by (relation "measure (\<lambda>(data, i, res). length data - i)") auto

definition decode_var_u64 :: "u64 decoder" where
  "decode_var_u64 data =
    (if data \<noteq> [] \<and> data ! 0 < 0x80 then Inr (ucast (data ! 0) AND 0x7f, drop 1 data)
     else if data \<noteq> [] \<and> (length data \<ge> 10 \<or> last data < 0x80) then var_u64_fast data 0 0
     else var_u64_slow data 0 0)"

definition decode_var_i64 :: "i64 decoder" where
  "decode_var_i64 data =
    rmap (\<lambda>(v, rest). (let vx = drop_bit 1 v in if v AND 1 = 0 then vx else NOT vx, rest))
      (decode_var_u64 data)"

text \<open>The decoder of the \<open>codec\<close> crate (\<open>components/codec/src/number.rs\<close>), which the parser of write
  records uses.  It ignores all but the lowest bit of a tenth byte.\<close>

function codec_var_fast :: "bytes \<Rightarrow> nat \<Rightarrow> u64 \<Rightarrow> u64 \<times> nat" where
  "codec_var_fast buf i val =
    (if i < 9 then
       let b = buf ! i; val = val OR push_bit (7 * i) (ucast b AND 0x7f)
       in if b < 0x80 then (val, i + 1) else codec_var_fast buf (i + 1) val
     else (val OR push_bit (7 * 9) (ucast (buf ! 9) AND 0x01), 10))"
  by auto

termination codec_var_fast
  by (relation "measure (\<lambda>(buf, i, val). 9 - i)") auto

function codec_var_slow :: "bytes \<Rightarrow> nat \<Rightarrow> u64 \<Rightarrow> codec_error + u64 \<times> nat" where
  "codec_var_slow buf i val =
    (if i < length buf \<and> buf ! i \<ge> 0x80
     then codec_var_slow buf (i + 1) (val OR push_bit (7 * i) (ucast (buf ! i AND 0x7f)))
     else if i \<ge> length buf then Inl UnexpectedEof
     else Inr (val OR push_bit (7 * i) (ucast (buf ! i)), i + 1))"
  by auto

termination codec_var_slow
  by (relation "measure (\<lambda>(buf, i, val). length buf - i)") auto

definition try_decode_var_u64 :: "bytes \<Rightarrow> codec_error + u64 \<times> nat" where
  "try_decode_var_u64 buf =
    (if length buf \<ge> 10 then Inr (codec_var_fast buf 0 0) else codec_var_slow buf 0 0)"

definition read_var_u64 :: "u64 decoder" where
  "read_var_u64 data = rmap (\<lambda>(v, n). (v, drop n data)) (try_decode_var_u64 data)"

declare encode_var_u64.simps [simp del]
  codec_var_fast.simps [simp del] codec_var_slow.simps [simp del]
  var_u64_fast.simps [simp del] var_u64_slow.simps [simp del]

section \<open>The codec interfaces\<close>

text \<open>A pair of an encoder and a decoder: decoding what was encoded gives the value back and leaves
  what follows it untouched.\<close>

locale prefix_codec =
  fixes enc :: "'a \<Rightarrow> bytes"
    and dec :: "bytes \<Rightarrow> codec_error + 'a \<times> bytes"
    and valid :: "'a \<Rightarrow> bool"
  assumes dec_enc: "valid a \<Longrightarrow> dec (enc a @ rest) = Inr (a, rest)"
begin

lemma dec_enc_all: "valid a \<Longrightarrow> dec (enc a) = Inr (a, [])"
  using dec_enc [of a "[]"] by simp

lemma enc_cancel:
  assumes "valid a" "valid b" "enc a @ r = enc b @ s"
  shows "a = b \<and> r = s"
proof -
  have "(Inr (a, r) :: codec_error + 'a \<times> bytes) = dec (enc a @ r)"
    by (rule dec_enc [symmetric]) (rule assms)
  also have "\<dots> = dec (enc b @ s)" by (simp only: assms(3))
  also have "\<dots> = Inr (b, s)" by (rule dec_enc) (rule assms)
  finally show ?thesis by simp
qed

lemma enc_inj: "inj_on enc (Collect valid)"
  using enc_cancel [of _ _ "[]" "[]"] by (auto intro!: inj_onI)

lemma enc_prefix_free:
  assumes "valid a" "valid b" "prefix (enc a) (enc b)"
  shows "a = b"
proof -
  obtain r where "enc b = enc a @ r" using assms(3) by (auto elim: prefixE)
  then show ?thesis using enc_cancel [of b a "[]" r] assms(1,2) by simp
qed

lemma dec_two:
  assumes "valid a" "valid b"
  shows "rbind (dec (enc a @ enc b @ rest)) (\<lambda>(x, r). rmap (\<lambda>(y, r'). ((x, y), r')) (dec r))
    = Inr ((a, b), rest)"
  using assms by (simp add: dec_enc)

end

text \<open>A memcomparable codec: the byte order of the encodings is the order \<open>lt\<close> of the values, also
  when the encodings are followed by other data.\<close>

locale order_codec = prefix_codec +
  fixes lt :: "'a \<Rightarrow> 'a \<Rightarrow> bool"
  assumes enc_order: "valid a \<Longrightarrow> valid b \<Longrightarrow> enc a < enc b \<longleftrightarrow> lt a b"
begin

lemma enc_append_order:
  assumes "valid a" "valid b"
  shows "enc a @ r < enc b @ s \<longleftrightarrow> lt a b \<or> a = b \<and> r < s"
proof (cases "a = b")
  case True
  with assms enc_order [of a a] show ?thesis by simp
next
  case False
  with assms have "\<not> prefix (enc a) (enc b)" "\<not> prefix (enc b) (enc a)"
    using enc_prefix_free by blast+
  then show ?thesis using lex_append_cong enc_order assms False by blast
qed

end

section \<open>Fixed-width numbers: round trips and order\<close>

lemma unat_u64_mod [simp]: "unat (v :: u64) mod 18446744073709551616 = unat v"
  using unsigned_less [of v, where ?'a = nat] by simp

lemma length_encode_u64 [simp]: "length (encode_u64 v) = 8"
  by (simp add: encode_u64_def)

lemma length_encode_u64_desc [simp]: "length (encode_u64_desc v) = 8"
  by (simp add: encode_u64_desc_def)

lemma decode_u64_encode [codec_simps, simp]: "decode_u64 (encode_u64 v @ rest) = Inr (v, rest)"
  by (simp add: decode_u64_def read_num_bytes_def encode_u64_def be_value_be_bytes)

lemma encode_u64_desc_not: "encode_u64_desc v = encode_u64 (NOT v)"
  by (simp add: encode_u64_desc_def encode_u64_def)

lemma decode_u64_desc_encode [codec_simps, simp]:
  "decode_u64_desc (encode_u64_desc v @ rest) = Inr (v, rest)"
  by (simp add: decode_u64_desc_def encode_u64_desc_not)

lemma encode_u64_less: "encode_u64 a < encode_u64 b \<longleftrightarrow> a < b"
  by (simp add: encode_u64_def word_less_nat_alt be_value_be_bytes flip: be_value_order)

lemma not_word_less: "NOT a < NOT b \<longleftrightarrow> b < (a :: 'a :: len word)"
  by (simp add: word_less_def unsigned_not_eq take_bit_not_eq_mask_diff bintr_uint)

lemma encode_u64_desc_less: "encode_u64_desc a < encode_u64_desc b \<longleftrightarrow> b < a"
  by (simp add: encode_u64_desc_not encode_u64_less not_word_less)

lemma order_i64_inverse [simp]: "order_decode_i64 (order_encode_i64 v) = v"
  by (simp add: order_decode_i64_def order_encode_i64_def xor.assoc)

lemma bit_SIGN_MARK: "bit SIGN_MARK n \<longleftrightarrow> n = 63"
proof -
  have e: "SIGN_MARK = 2 ^ 63" by (simp add: SIGN_MARK_def)
  show ?thesis unfolding e bit_exp_iff by auto
qed

lemma xor_SIGN_MARK: "v XOR SIGN_MARK = v + SIGN_MARK"
proof (cases "bit v 63")
  case True
  have "v + SIGN_MARK = v - SIGN_MARK" by (simp add: SIGN_MARK_def)
  also have "\<dots> = v AND NOT SIGN_MARK"
    by (rule disjunctive_diff) (use True in \<open>auto simp: bit_SIGN_MARK\<close>)
  also have "\<dots> = v XOR SIGN_MARK"
    by (rule bit_word_eqI) (use True in \<open>auto simp: bit_simps bit_SIGN_MARK\<close>)
  finally show ?thesis by simp
next
  case False
  have "v + SIGN_MARK = v OR SIGN_MARK"
    by (rule disjunctive_add) (use False in \<open>auto simp: bit_SIGN_MARK\<close>)
  also have "\<dots> = v XOR SIGN_MARK"
    by (rule bit_word_eqI) (use False in \<open>auto simp: bit_simps bit_SIGN_MARK\<close>)
  finally show ?thesis by simp
qed

lemma uint_add_SIGN_MARK: "uint (v + SIGN_MARK) = sint v + 2 ^ 63"
  by (simp add: SIGN_MARK_def uint_word_ariths sint_uint signed_take_bit_eq_take_bit_shift
      take_bit_eq_mod)

lemma order_encode_i64_less: "order_encode_i64 a < order_encode_i64 b \<longleftrightarrow> sint a < sint b"
  by (simp add: order_encode_i64_def xor_SIGN_MARK word_less_def uint_add_SIGN_MARK)

interpretation u64: order_codec encode_u64 decode_u64 "\<lambda>_. True" "(<)"
  by unfold_locales (simp_all add: encode_u64_less)

interpretation u64_desc: order_codec encode_u64_desc decode_u64_desc "\<lambda>_. True" "(>)"
  by unfold_locales (simp_all add: encode_u64_desc_less)

interpretation i64: order_codec encode_i64 decode_i64 "\<lambda>_. True" "\<lambda>a b. sint a < sint b"
  by unfold_locales
    (simp_all add: encode_i64_def decode_i64_def encode_u64_less order_encode_i64_less)

interpretation i64_desc: order_codec encode_i64_desc decode_i64_desc "\<lambda>_. True"
  "\<lambda>a b. sint b < sint a"
  by unfold_locales
    (simp_all add: encode_i64_desc_def decode_i64_desc_def encode_u64_desc_less
      order_encode_i64_less)

section \<open>Variable-length numbers: the fast paths and the round trip\<close>

text \<open>The reference decoder reads one byte after the other; a tenth byte may only carry one bit.\<close>

fun var_u64_ref :: "nat \<Rightarrow> u64 \<Rightarrow> bytes \<Rightarrow> codec_error + u64 \<times> bytes" where
  "var_u64_ref i res [] = Inl UnexpectedEof"
| "var_u64_ref i res (b # rest) =
    (if i < 9 then
       let res = res OR push_bit (i * 7) (ucast b AND 0x7f)
       in if b < 0x80 then Inr (res, rest) else var_u64_ref (i + 1) res rest
     else if b \<le> 1 then Inr (res OR push_bit (9 * 7) (ucast b AND 0x7f), rest)
     else Inl (InvalidData ''overflow''))"

lemma var_u64_fast_ref:
  assumes "i \<le> 9" and "10 \<le> length data \<or> i < length data \<and> last data < 0x80"
  shows "var_u64_fast data i res = var_u64_ref i res (drop i data)"
  using assms
proof (induction data i res rule: var_u64_fast.induct)
  case (1 data i res)
  have i: "i < length data" using "1.prems" by auto
  then have d: "drop i data = data ! i # drop (Suc i) data" by (rule Cons_nth_drop_Suc [symmetric])
  have "10 \<le> length data \<or> Suc i < length data" if "\<not> data ! i < 0x80"
  proof (rule ccontr)
    assume n: "\<not> (10 \<le> length data \<or> Suc i < length data)"
    with i have "length data = Suc i" by simp
    then have "data ! i = last data" by (cases data rule: rev_cases) auto
    with that n "1.prems" show False by simp
  qed
  then show ?case
    using "1.prems" i d "1.IH" [of "data ! i"]
    by (subst var_u64_fast.simps) (auto simp: get_unchecked_def Let_def)
qed

lemma var_u64_slow_ref:
  assumes "length data < 10"
  shows "var_u64_slow data i res = var_u64_ref i res (drop i data)"
  using assms
proof (induction data i res rule: var_u64_slow.induct)
  case (1 data i res)
  show ?case
  proof (cases "i < length data")
    case True
    then have d: "drop i data = data ! i # drop (Suc i) data"
      by (rule Cons_nth_drop_Suc [symmetric])
    show ?thesis using "1.prems" True d "1.IH" [OF True refl]
      by (subst var_u64_slow.simps) (auto simp: Let_def)
  next
    case False
    then show ?thesis by (subst var_u64_slow.simps) simp
  qed
qed

lemma decode_var_u64_ref: "decode_var_u64 data = var_u64_ref 0 0 data"
proof (cases data)
  case Nil
  then show ?thesis using var_u64_slow_ref [of data 0 0] by (simp add: decode_var_u64_def)
next
  case (Cons b rest)
  show ?thesis
  proof (cases "10 \<le> length data \<or> last data < 0x80")
    case True
    with Cons var_u64_fast_ref [of 0 data 0] show ?thesis
      by (auto simp: decode_var_u64_def Let_def)
  next
    case False
    with Cons var_u64_slow_ref [of data 0 0] show ?thesis
      by (auto simp: decode_var_u64_def Let_def)
  qed
qed

lemma bit_0x80: "bit (0x80 :: 'a :: len word) n \<longleftrightarrow> n = 7 \<and> n < LENGTH('a)"
proof -
  have e: "(0x80 :: 'a word) = 2 ^ 7" by simp
  show ?thesis unfolding e bit_exp_iff by auto
qed

lemma and_0x7f: "v AND 0x7f = take_bit 7 (v :: u64)"
  by (simp add: take_bit_eq_mask mask_eq_exp_minus_1)

lemma seven_bits_or_rest:
  "push_bit k (ucast (ucast v OR 0x80 :: byte) AND 0x7f) OR push_bit (7 + k) (drop_bit 7 v)
    = push_bit k (v :: u64)"
  unfolding and_0x7f
proof (rule bit_word_eqI)
  fix n
  assume "n < LENGTH(64)"
  moreover have "7 + (n - (7 + k)) = n - k" if "\<not> n - k < 7" using that by simp
  ultimately show "bit (push_bit k (take_bit 7 (ucast (ucast v OR 0x80 :: byte)))
      OR push_bit (7 + k) (drop_bit 7 v)) n = bit (push_bit k v) n"
    by (cases "n - k < 7") (auto simp: bit_simps bit_0x80 simp del: bit_numeral_word_iff)
qed

lemma byte_or_0x80: "\<not> (b OR 0x80 :: byte) < 0x80"
proof
  assume "b OR 0x80 < 0x80"
  then have "unat (b OR 0x80) < 2 ^ 7" by (simp add: word_less_nat_alt)
  then have "take_bit 7 (unat (b OR 0x80)) = unat (b OR 0x80)" by (simp add: take_bit_nat_eq_self)
  then have "\<not> bit (unat (b OR 0x80)) 7" by (metis bit_take_bit_iff less_irrefl)
  then show False by (simp add: bit_unsigned_iff bit_or_iff bit_0x80)
qed

lemma unat_ucast_byte: "unat v < 256 \<Longrightarrow> unat (ucast (v :: u64) :: byte) = unat v"
  by (simp add: unsigned_ucast_eq take_bit_nat_eq_self)

lemma ucast_small_and:
  assumes "v < 0x80"
  shows "ucast (ucast (v :: u64) :: byte) AND 0x7f = v"
proof -
  have "unat v < 128" using assms by (simp add: word_less_nat_alt)
  then have "unat (ucast (ucast v :: byte) AND 0x7f :: u64) = unat v" unfolding and_0x7f
    by (simp add: unsigned_take_bit_eq unsigned_ucast_eq take_bit_nat_eq_self)
  then show ?thesis by (rule unsigned_word_eqI)
qed

lemma var_u64_ref_encode:
  assumes "i \<le> 9" and "unat v < 2 ^ (64 - 7 * i)"
  shows "var_u64_ref i res (encode_var_u64 v @ rest) = Inr (res OR push_bit (7 * i) v, rest)"
  using assms
proof (induction v arbitrary: i res rule: encode_var_u64.induct)
  case (1 v)
  show ?case
  proof (cases "0x80 \<le> v")
    case True
    have "i < 9"
    proof (rule ccontr)
      assume "\<not> i < 9"
      with 1 have "i = 9" by simp
      with True 1 show False by (simp add: word_le_nat_alt)
    qed
    have "64 - 7 * i = (64 - 7 * (i + 1)) + 7" using \<open>i < 9\<close> by simp
    then have "unat v < 2 ^ (64 - 7 * (i + 1)) * 128"
      using "1.prems"(2) by (simp only: power_add) simp
    then have "unat (drop_bit 7 v) < 2 ^ (64 - 7 * (i + 1))"
      by (simp only: unat_drop_bit_eq) (simp add: drop_bit_eq_div less_mult_imp_div_less)
    with 1 True \<open>i < 9\<close> show ?thesis
      using seven_bits_or_rest [of "7 * i" v]
      by (subst encode_var_u64.simps) (simp add: Let_def byte_or_0x80 mult.commute or.assoc)
  next
    case False
    then have v: "v < 0x80" by simp
    then have "ucast v < (0x80 :: byte)"
      by (simp add: word_less_nat_alt unat_ucast_byte)
    moreover have "ucast v \<le> (1 :: byte)" if "i = 9"
      using "1.prems"(2) that by (simp add: word_le_nat_alt unat_ucast_byte)
    ultimately show ?thesis using v "1.prems"(1)
      by (subst encode_var_u64.simps) (auto simp: Let_def ucast_small_and mult.commute)
  qed
qed

lemma decode_var_u64_encode [codec_simps, simp]:
  "decode_var_u64 (encode_var_u64 v @ rest) = Inr (v, rest)"
  using var_u64_ref_encode [of 0 v 0 rest] unsigned_less [of v, where ?'a = nat]
  by (simp add: decode_var_u64_ref)

lemma length_encode_var_u64:
  assumes "unat v < 2 ^ (7 * k)" and "k \<ge> 1"
  shows "length (encode_var_u64 v) \<le> k"
  using assms
proof (induction v arbitrary: k rule: encode_var_u64.induct)
  case (1 v)
  show ?case
  proof (cases "0x80 \<le> v")
    case True
    then have "k \<noteq> 1" using 1 by (auto simp: word_le_nat_alt)
    then obtain j where k: "k = Suc j" "j \<ge> 1" using 1 by (cases k) auto
    have "unat v < 2 ^ (7 * j) * 128" using 1 k by (simp add: power_add)
    then have "unat (drop_bit 7 v) < 2 ^ (7 * j)"
      by (simp only: unat_drop_bit_eq) (simp add: drop_bit_eq_div less_mult_imp_div_less)
    with 1 True k show ?thesis by (subst encode_var_u64.simps) simp
  next
    case False
    with 1 show ?thesis by (subst encode_var_u64.simps) simp
  qed
qed

lemma encode_var_u64_nonempty [simp]: "encode_var_u64 v \<noteq> []"
  by (subst encode_var_u64.simps) simp

lemma encode_var_u64_max_len: "length (encode_var_u64 v) \<le> MAX_VAR_U64_LEN"
  using length_encode_var_u64 [of v 10] unsigned_less [of v, where ?'a = nat]
  by (simp add: MAX_VAR_U64_LEN_def)

lemma sint_neg_bit: "sint (v :: i64) < 0 \<longleftrightarrow> bit v 63"
  by (simp add: sint_uint signed_take_bit_negative_iff bit_unsigned_iff)

lemma decode_var_i64_encode [codec_simps, simp]:
  "decode_var_i64 (encode_var_i64 v @ rest) = Inr (v, rest)"
proof (cases "bit v 63")
  case True
  have "NOT (push_bit 1 v) AND 1 \<noteq> 0"
    by (simp add: and_one_eq flip: odd_iff_mod_2_eq_one)
  moreover have "NOT (drop_bit 1 (NOT (push_bit 1 v))) = v"
    by (rule bit_word_eqI, rename_tac n, case_tac "n = 63")
      (use True in \<open>auto simp: bit_simps simp del: push_bit_Suc One_nat_def\<close>)
  ultimately show ?thesis using True
    by (simp add: decode_var_i64_def encode_var_i64_def sint_neg_bit)
next
  case False
  have "push_bit 1 v AND 1 = 0"
    by (simp add: and_one_eq flip: even_iff_mod_2_eq_zero)
  moreover have "drop_bit 1 (push_bit 1 v) = v"
    by (rule bit_word_eqI, rename_tac n, case_tac "n = 63")
      (use False in \<open>auto simp: bit_simps simp del: push_bit_Suc One_nat_def\<close>)
  ultimately show ?thesis using False
    by (simp add: decode_var_i64_def encode_var_i64_def sint_neg_bit)
qed

interpretation var_u64: prefix_codec encode_var_u64 decode_var_u64 "\<lambda>_. True"
  by unfold_locales simp

interpretation var_i64: prefix_codec encode_var_i64 decode_var_i64 "\<lambda>_. True"
  by unfold_locales simp

interpretation u32: order_codec encode_u32 decode_u32 "\<lambda>_. True" "(<)"
proof unfold_locales
  have m: "unat (v :: 32 word) mod 4294967296 = unat v" for v
    using unsigned_less [of v, where ?'a = nat] by simp
  show "decode_u32 (encode_u32 a @ rest) = Inr (a, rest)" for a rest
    by (simp add: decode_u32_def encode_u32_def read_num_bytes_def be_value_be_bytes m)
  show "encode_u32 a < encode_u32 b \<longleftrightarrow> a < b" for a b
    by (simp add: encode_u32_def word_less_nat_alt be_value_be_bytes m flip: be_value_order)
qed

interpretation u16: order_codec encode_u16 decode_u16 "\<lambda>_. True" "(<)"
proof unfold_locales
  have m: "unat (v :: 16 word) mod 65536 = unat v" for v
    using unsigned_less [of v, where ?'a = nat] by simp
  show "decode_u16 (encode_u16 a @ rest) = Inr (a, rest)" for a rest
    by (simp add: decode_u16_def encode_u16_def read_num_bytes_def be_value_be_bytes m)
  show "encode_u16 a < encode_u16 b \<longleftrightarrow> a < b" for a b
    by (simp add: encode_u16_def word_less_nat_alt be_value_be_bytes m flip: be_value_order)
qed

interpretation u64_le: prefix_codec encode_u64_le decode_u64_le "\<lambda>_. True"
  by unfold_locales
    (simp add: decode_u64_le_def encode_u64_le_def read_num_bytes_def be_value_be_bytes)

section \<open>Prefix ranges\<close>

lemma next_prefix_rev_snoc:
  "next_prefix_rev (xs @ [b]) =
    (if next_prefix_rev xs = [] then next_prefix_rev [b] else next_prefix_rev xs @ [b])"
  by (induction xs) auto

lemma next_prefix_of_Nil [simp]: "next_prefix_of [] = []"
  by (simp add: next_prefix_of_def)

lemma next_prefix_of_Cons [simp]:
  "next_prefix_of (b # ks) =
    (if next_prefix_of ks = [] then (if b = 255 then [] else [b + 1]) else b # next_prefix_of ks)"
  by (simp add: next_prefix_of_def next_prefix_rev_snoc)

lemma byte_max: "(255 :: byte) = - 1"
  by simp

lemma byte_le_255 [simp]: "(c :: byte) \<le> 255" "\<not> 255 < (c :: byte)"
  unfolding byte_max by (simp_all add: not_less)

lemma byte_less_succ: "b \<noteq> 255 \<Longrightarrow> (c :: byte) < b + 1 \<longleftrightarrow> c \<le> b"
  unfolding byte_max by (metis inc_less_eq_iff linorder_not_le)

lemma next_prefix_range:
  "prefix key k \<longleftrightarrow> key \<le> k \<and> (next_prefix_of key = [] \<or> k < next_prefix_of key)"
proof (induction key arbitrary: k)
  case (Cons b ks)
  show ?case
  proof (cases k)
    case (Cons c cs)
    with Cons.IH [of cs] show ?thesis
      by (auto simp: byte_less_succ)
  qed simp
qed simp

lemma var_u64_ref_in_bounds: "var_u64_ref i res data \<noteq> Inl OutOfBounds"
  by (induction i res data rule: var_u64_ref.induct) (auto simp: Let_def)

lemma byte_le_1: "b \<le> 1 \<Longrightarrow> b = 0 \<or> b = (1 :: byte)"
  by (auto simp: le_less word_less_1)

lemma codec_var_fast_ref:
  assumes "i \<le> 9" "10 \<le> length data" "var_u64_ref i res (drop i data) = Inr (v, rest)"
  shows "\<exists>n. codec_var_fast data i res = (v, n) \<and> drop n data = rest"
  using assms
proof (induction data i res rule: codec_var_fast.induct)
  case (1 data i res)
  then have d: "drop i data = data ! i # drop (Suc i) data" by (simp add: Cons_nth_drop_Suc)
  show ?case
  proof (cases "i < 9")
    case True
    with 1 d show ?thesis
      by (subst codec_var_fast.simps) (auto simp: Let_def mult.commute split: if_splits)
  next
    case False
    then have "i = 9" using 1 by simp
    with 1 d show ?thesis
      by (subst codec_var_fast.simps) (auto split: if_splits dest: byte_le_1)
  qed
qed

lemma ucast_and_0x7f: "ucast (b AND 0x7f :: byte) = (ucast b AND 0x7f :: u64)"
  by (rule bit_word_eqI) (auto simp: bit_simps dest: bit_imp_le_length)

lemma ucast_byte_small:
  assumes "b < (0x80 :: byte)"
  shows "(ucast b AND 0x7f :: u64) = ucast b"
proof -
  have "unat b < 128" using assms by (simp add: word_less_nat_alt)
  then have "unat (take_bit 7 (ucast b :: u64)) = unat (ucast b :: u64)"
    by (simp add: unsigned_take_bit_eq unsigned_ucast_eq take_bit_nat_eq_self)
  then show ?thesis unfolding and_0x7f by (rule unsigned_word_eqI)
qed

lemma codec_var_slow_ref:
  assumes "length data < 10" "var_u64_ref i res (drop i data) = Inr (v, rest)"
  shows "\<exists>n. codec_var_slow data i res = Inr (v, n) \<and> drop n data = rest"
  using assms
proof (induction data i res rule: codec_var_slow.induct)
  case (1 data i res)
  show ?case
  proof (cases "i < length data")
    case True
    then have d: "drop i data = data ! i # drop (Suc i) data" by (simp add: Cons_nth_drop_Suc)
    show ?thesis
    proof (cases "data ! i < 0x80")
      case small: True
      with True 1 d show ?thesis
        by (subst codec_var_slow.simps) (auto simp: Let_def mult.commute ucast_byte_small)
    next
      case False
      with True 1 d show ?thesis
        by (subst codec_var_slow.simps) (auto simp: Let_def mult.commute ucast_and_0x7f)
    qed
  next
    case False
    with 1 show ?thesis by simp
  qed
qed

lemma read_var_u64_agrees:
  assumes "decode_var_u64 data = Inr r"
  shows "read_var_u64 data = Inr r"
proof (cases "10 \<le> length data")
  case True
  with codec_var_fast_ref [of 0 data 0 "fst r" "snd r"] assms show ?thesis
    by (auto simp: decode_var_u64_ref read_var_u64_def try_decode_var_u64_def)
next
  case False
  with codec_var_slow_ref [of data 0 0 "fst r" "snd r"] assms show ?thesis
    by (auto simp: decode_var_u64_ref read_var_u64_def try_decode_var_u64_def)
qed

interpretation codec_var: prefix_codec encode_var_u64 read_var_u64 "\<lambda>_. True"
  by unfold_locales (simp add: read_var_u64_agrees)

text \<open>Decoders consume: the rest is never longer than the slice.\<close>

lemma decode_u64_length: "decode_u64 b = Inr (v, r) \<Longrightarrow> length b = length r + 8"
  by (auto simp: decode_u64_def read_num_bytes_def split: if_splits)

lemma var_u64_ref_length: "var_u64_ref i res b = Inr (v, r) \<Longrightarrow> length r < length b"
  by (induction i res b rule: var_u64_ref.induct) (auto simp: Let_def less_Suc_eq split: if_splits)

lemma decode_var_u64_length: "decode_var_u64 b = Inr (v, r) \<Longrightarrow> length r < length b"
  by (simp add: decode_var_u64_ref var_u64_ref_length)

section \<open>Properties\<close>

text \<open>variable-length integers.  \<open>decode_var_u64\<close> with its two unrolled fast paths computes
  exactly what the byte-at-a-time reference decoder computes on every slice, so none of its
  unchecked accesses is out of bounds; it inverts \<open>encode_var_u64\<close> whatever follows the number,
  and an encoding never takes more than \<open>MAX_VAR_U64_LEN\<close> bytes.\<close>

theorem var_u64_codec_correct:
  "decode_var_u64 data = var_u64_ref 0 0 data
    \<and> decode_var_u64 data \<noteq> Inl OutOfBounds
    \<and> decode_var_u64 (encode_var_u64 v @ rest) = Inr (v, rest)
    \<and> length (encode_var_u64 v) \<le> MAX_VAR_U64_LEN"
  by (simp add: decode_var_u64_ref [of data] var_u64_ref_in_bounds encode_var_u64_max_len)

text \<open>The value \<open>next_prefix_of key\<close> is the exclusive upper bound of the keys that start with \<open>key\<close>,
  where the empty result stands for no bound.\<close>

lemma next_prefix_of_bounds:
  "prefix key k \<longleftrightarrow> key \<le> k \<and> (next_prefix_of key = [] \<or> k < next_prefix_of key)"
  by (rule next_prefix_range)

end
