(* ===== verification/BytesCodec.thy ===== *)
theory BytesCodec
  imports NumberCodec
begin

text \<open>
  The byte-string codec of \<open>components/tikv_util/src/codec/bytes.rs\<close>: the memcomparable encoding in
  groups of eight bytes with a marker, its decoders (allocating and in place), the checks on
  encoded data, and the compact (length-prefixed) encoding.  \<open>mem_enc\<close> and \<open>mem_dec\<close> are the
  group-wise reference encoder and decoder the index-based loops are proved to compute.
\<close>

definition ENC_GROUP_SIZE :: nat where
  "ENC_GROUP_SIZE = 8"

definition ENC_MARKER :: byte where
  "ENC_MARKER = 0xff"

definition ENC_ASC_PADDING :: bytes where
  "ENC_ASC_PADDING = replicate ENC_GROUP_SIZE 0"

definition ENC_DESC_PADDING :: bytes where
  "ENC_DESC_PADDING = replicate ENC_GROUP_SIZE (NOT 0)"

definition max_encoded_bytes_size :: "nat \<Rightarrow> nat" where
  "max_encoded_bytes_size n = (n div ENC_GROUP_SIZE + 1) * (ENC_GROUP_SIZE + 1)"

definition adjust_bytes_order :: "bytes \<Rightarrow> bool \<Rightarrow> bytes" where
  "adjust_bytes_order bs desc = (if desc then map NOT bs else bs)"

function encode_bytes_loop :: "bytes \<Rightarrow> bool \<Rightarrow> nat \<Rightarrow> bytes" where
  "encode_bytes_loop key desc index =
    (if index \<le> length key then
       let remain = length key - index;
           pad = (if remain > ENC_GROUP_SIZE then 0 else ENC_GROUP_SIZE - remain);
           group =
             (if remain > ENC_GROUP_SIZE
              then adjust_bytes_order (subslice index (index + ENC_GROUP_SIZE) key) desc
              else adjust_bytes_order (drop index key) desc @
                take pad (if desc then ENC_DESC_PADDING else ENC_ASC_PADDING))
       in group @ adjust_bytes_order [ENC_MARKER - of_nat pad] desc @
          encode_bytes_loop key desc (index + ENC_GROUP_SIZE)
     else [])"
  by auto

termination encode_bytes_loop
  by (relation "measure (\<lambda>(key, desc, index). length key + 1 - index)")
    (auto simp: ENC_GROUP_SIZE_def)

definition encode_order_bytes :: "bytes \<Rightarrow> bool \<Rightarrow> bytes" where
  "encode_order_bytes bs desc = encode_bytes_loop bs desc 0"

definition encode_bytes :: "bytes \<Rightarrow> bytes" where
  "encode_bytes bs = encode_order_bytes bs False"

definition encode_bytes_desc :: "bytes \<Rightarrow> bytes" where
  "encode_bytes_desc bs = encode_order_bytes bs True"

definition encode_compact_bytes :: "bytes \<Rightarrow> bytes" where
  "encode_compact_bytes data = encode_var_i64 (of_nat (length data)) @ data"

definition encoded_compact_len :: "bytes \<Rightarrow> nat" where
  "encoded_compact_len encoded =
    (case decode_var_i64 encoded of
       Inr (vn, rest) \<Rightarrow> unat vn + (length encoded - length rest)
     | Inl e \<Rightarrow> length encoded)"

function encoded_bytes_len_loop :: "bytes \<Rightarrow> bool \<Rightarrow> nat \<Rightarrow> nat" where
  "encoded_bytes_len_loop encoded desc idx =
    (if length encoded < idx + 1 then length encoded
     else let marker = encoded ! idx in
       if desc \<and> marker \<noteq> 0 \<or> \<not> desc \<and> marker \<noteq> ENC_MARKER then idx + 1
       else encoded_bytes_len_loop encoded desc (idx + (ENC_GROUP_SIZE + 1)))"
  by auto

termination encoded_bytes_len_loop
  by (relation "measure (\<lambda>(encoded, desc, idx). length encoded - idx)")
    (auto simp: ENC_GROUP_SIZE_def)

definition encoded_bytes_len :: "bytes \<Rightarrow> bool \<Rightarrow> nat" where
  "encoded_bytes_len encoded desc = encoded_bytes_len_loop encoded desc ENC_GROUP_SIZE"

definition decode_compact_bytes :: "bytes decoder" where
  "decode_compact_bytes data =
    rbind (decode_var_i64 data) (\<lambda>(vn, data).
      if length data \<ge> unat vn then Inr (take (unat vn) data, drop (unat vn) data)
      else Inl UnexpectedEof)"

definition pad_size_of :: "bool \<Rightarrow> byte \<Rightarrow> nat" where
  "pad_size_of desc marker = (if desc then unat marker else unat (ENC_MARKER - marker))"

function decode_bytes_loop :: "bytes \<Rightarrow> bool \<Rightarrow> nat \<Rightarrow> bytes \<Rightarrow> codec_error + bytes \<times> bytes" where
  "decode_bytes_loop data desc offset key =
    (let next_offset = offset + (ENC_GROUP_SIZE + 1) in
     if next_offset \<le> length data then
       let chunk = subslice offset next_offset data;
           marker = last chunk;
           bytes = butlast chunk;
           pad_size = pad_size_of desc marker
       in if pad_size = 0 then decode_bytes_loop data desc next_offset (key @ bytes)
          else if pad_size > ENC_GROUP_SIZE then Inl KeyPadding
          else
            let padding = drop (ENC_GROUP_SIZE - pad_size) bytes;
                key = key @ take (ENC_GROUP_SIZE - pad_size) bytes;
                pad_byte = (if desc then NOT 0 else 0)
            in if list_ex (\<lambda>x. x \<noteq> pad_byte) padding then Inl KeyPadding
               else Inr (if desc then map NOT key else key, drop next_offset data)
     else Inl UnexpectedEof)"
  by auto

termination decode_bytes_loop
  by (relation "measure (\<lambda>(data, desc, offset, key). length data - offset)")
    (auto simp: ENC_GROUP_SIZE_def)

definition decode_bytes :: "bytes \<Rightarrow> bool \<Rightarrow> codec_error + bytes \<times> bytes" where
  "decode_bytes data desc = decode_bytes_loop data desc 0 []"

text \<open>\<open>ptr::copy\<close> inside one buffer: \<open>n\<close> bytes from offset \<open>src\<close> to offset \<open>dst\<close>.\<close>

definition copy_within :: "bytes \<Rightarrow> nat \<Rightarrow> nat \<Rightarrow> nat \<Rightarrow> bytes" where
  "copy_within data src dst n =
    map (\<lambda>i. if dst \<le> i \<and> i < dst + n then data ! (src + (i - dst)) else data ! i)
      [0..<length data]"

lemma length_copy_within [simp]: "length (copy_within data src dst n) = length data"
  by (simp add: copy_within_def)

function decode_bytes_in_place_loop :: "bytes \<Rightarrow> bool \<Rightarrow> nat \<Rightarrow> nat \<Rightarrow> codec_error + bytes" where
  "decode_bytes_in_place_loop data desc write_offset read_offset =
    (let marker_offset = read_offset + ENC_GROUP_SIZE in
     if marker_offset \<ge> length data then Inl UnexpectedEof
     else
       let data = copy_within data read_offset write_offset ENC_GROUP_SIZE;
           write_offset = write_offset + ENC_GROUP_SIZE;
           read_offset = read_offset + (ENC_GROUP_SIZE + 1);
           marker = data ! marker_offset;
           pad_size = pad_size_of desc marker
       in if pad_size > 0 then
            if pad_size > ENC_GROUP_SIZE then Inl KeyPadding
            else if subslice (write_offset - pad_size) write_offset data
                \<noteq> take pad_size (if desc then ENC_DESC_PADDING else ENC_ASC_PADDING)
              then Inl KeyPadding
            else
              let data = take (write_offset - pad_size) data
              in Inr (if desc then map NOT data else data)
          else decode_bytes_in_place_loop data desc write_offset read_offset)"
  by auto

termination decode_bytes_in_place_loop
  by (relation "measure (\<lambda>(data, desc, w, r). length data - r)")
    (auto simp: ENC_GROUP_SIZE_def)

definition decode_bytes_in_place :: "bytes \<Rightarrow> bool \<Rightarrow> codec_error + bytes" where
  "decode_bytes_in_place data desc = decode_bytes_in_place_loop data desc 0 0"

text \<open>Rust's \<open>chunks_exact\<close>, its remainder, and the comparison of an encoded string with a raw one,
  chunk by chunk from the end.\<close>

function chunks_exact :: "nat \<Rightarrow> 'a list \<Rightarrow> 'a list list" where
  "chunks_exact n xs =
    (if n = 0 \<or> length xs < n then [] else take n xs # chunks_exact n (drop n xs))"
  by auto

termination chunks_exact
  by (relation "measure (\<lambda>(n, xs). length xs)") auto

definition chunks_remainder :: "nat \<Rightarrow> 'a list \<Rightarrow> 'a list" where
  "chunks_remainder n xs = drop (length xs div n * n) xs"

definition check_single_chunk :: "bool \<Rightarrow> bytes \<Rightarrow> bytes \<Rightarrow> bool" where
  "check_single_chunk desc encoded raw =
    (let len = length raw; pad = of_nat (ENC_GROUP_SIZE - len) in
     if desc then
       encoded ! ENC_GROUP_SIZE = NOT (ENC_MARKER - pad)
       \<and> list_all (\<lambda>(enc, raw). enc = NOT raw) (zip (take len encoded) raw)
       \<and> list_all (\<lambda>v. v = ENC_MARKER) (subslice len (length encoded - 1) encoded)
     else
       encoded ! ENC_GROUP_SIZE = ENC_MARKER - pad
       \<and> take len encoded = raw
       \<and> list_all (\<lambda>v. v = NOT ENC_MARKER) (subslice len (length encoded - 1) encoded))"

definition is_encoded_from :: "bytes \<Rightarrow> bytes \<Rightarrow> bool \<Rightarrow> bool" where
  "is_encoded_from encoded raw desc =
    (if length encoded mod (ENC_GROUP_SIZE + 1) \<noteq> 0 then False
     else
       let raw_chunks = chunks_exact ENC_GROUP_SIZE raw in
       case rev (chunks_exact (ENC_GROUP_SIZE + 1) encoded) of
         [] \<Rightarrow> False
       | encoded_chunk # rev_encoded_chunks \<Rightarrow>
           if \<not> check_single_chunk desc encoded_chunk (chunks_remainder ENC_GROUP_SIZE raw)
           then False
           else if length rev_encoded_chunks \<noteq> length raw_chunks then False
           else list_all (\<lambda>(e, r). check_single_chunk desc e r)
             (zip rev_encoded_chunks (rev raw_chunks)))"

declare encode_bytes_loop.simps [simp del] encoded_bytes_len_loop.simps [simp del]
  decode_bytes_loop.simps [simp del] decode_bytes_in_place_loop.simps [simp del]
  chunks_exact.simps [simp del]

section \<open>The group-wise reference codec\<close>

definition flip_byte :: "bool \<Rightarrow> byte \<Rightarrow> byte" where
  "flip_byte desc b = (if desc then NOT b else b)"

definition enc_group :: "bytes \<Rightarrow> bytes" where
  "enc_group r = r @ replicate (8 - length r) 0 @ [0xff - of_nat (8 - length r)]"

function mem_enc :: "bytes \<Rightarrow> bytes" where
  "mem_enc key =
    (if length key < 8 then enc_group key else enc_group (take 8 key) @ mem_enc (drop 8 key))"
  by auto

termination mem_enc
  by (relation "measure length") auto

function mem_dec :: "bytes decoder" where
  "mem_dec data =
    (if length data < 9 then Inl UnexpectedEof
     else
       let pad = unat (0xff - data ! 8); grp = take 8 data in
       if pad = 0 then rmap (\<lambda>(k, r). (grp @ k, r)) (mem_dec (drop 9 data))
       else if pad > 8 then Inl KeyPadding
       else if drop (8 - pad) grp \<noteq> replicate pad 0 then Inl KeyPadding
       else Inr (take (8 - pad) grp, drop 9 data))"
  by auto

termination mem_dec
  by (relation "measure length") auto

declare mem_enc.simps [simp del] mem_dec.simps [simp del]

lemmas group_consts = ENC_GROUP_SIZE_def ENC_MARKER_def ENC_ASC_PADDING_def ENC_DESC_PADDING_def

lemma flip_flip [simp]: "flip_byte desc (flip_byte desc b) = b"
  by (simp add: flip_byte_def)

lemma map_flip_flip [simp]: "map (flip_byte desc) (map (flip_byte desc) bs) = bs"
  by (induction bs) auto

lemma flip_comp [simp]: "flip_byte desc \<circ> flip_byte desc = id"
  by (simp add: fun_eq_iff)

lemma flip_byte_simps [simp]: "flip_byte False = (\<lambda>b. b)" "flip_byte True = NOT"
  by (simp_all add: flip_byte_def fun_eq_iff)

lemma adjust_flip: "adjust_bytes_order bs desc = map (flip_byte desc) bs"
  by (simp add: adjust_bytes_order_def)

lemma if_not_flip: "(if desc then map NOT bs else bs) = map (flip_byte desc) bs"
  by simp

lemma padding_flip:
  "n \<le> 8 \<Longrightarrow> take n (if desc then ENC_DESC_PADDING else ENC_ASC_PADDING)
    = map (flip_byte desc) (replicate n 0)"
  by (simp add: group_consts flip_byte_def)

lemma length_enc_group [simp]: "length r \<le> 8 \<Longrightarrow> length (enc_group r) = 9"
  by (simp add: enc_group_def)

lemma encode_bytes_loop_ref:
  "encode_bytes_loop key desc index =
    (if index \<le> length key then map (flip_byte desc) (mem_enc (drop index key)) else [])"
proof (induction key desc index rule: encode_bytes_loop.induct)
  case (1 key desc index)
  show ?case
  proof (cases "index \<le> length key")
    case True
    let ?rem = "length key - index"
    consider "?rem < 8" | "?rem = 8" | "?rem > 8" by linarith
    then show ?thesis
    proof cases
      case 1
      then show ?thesis using True
        by (subst encode_bytes_loop.simps, subst mem_enc.simps)
          (auto simp: Let_def adjust_flip padding_flip enc_group_def encode_bytes_loop.simps [of _ _ "index + 8"]
            group_consts flip_byte_def)
    next
      case 2
      then show ?thesis using True "1.IH"
        by (subst encode_bytes_loop.simps, subst mem_enc.simps)
          (auto simp: Let_def adjust_flip enc_group_def group_consts)
    next
      case 3
      then show ?thesis using True "1.IH"
        by (subst encode_bytes_loop.simps, subst mem_enc.simps)
          (auto simp: Let_def adjust_flip enc_group_def group_consts subslice_def add.commute)
    qed
  next
    case False
    then show ?thesis by (simp add: encode_bytes_loop.simps)
  qed
qed

lemma encode_order_bytes_ref: "encode_order_bytes bs desc = map (flip_byte desc) (mem_enc bs)"
  by (simp add: encode_order_bytes_def encode_bytes_loop_ref)


lemma butlast_slice9: "r + 9 \<le> length data \<Longrightarrow> butlast (subslice r (r + 9) data) = subslice r (r + 8) data"
  by (simp add: subslice_def butlast_take)

lemma last_slice9: "r + 9 \<le> length data \<Longrightarrow> last (subslice r (r + 9) data) = data ! (r + 8)"
  by (simp add: subslice_def last_conv_nth)

lemma pad_size_flip: "pad_size_of desc m = unat (0xff - flip_byte desc m)"
proof -
  have "0xff - NOT m = m" for m :: byte
    by (simp add: not_eq_complement)
  then show ?thesis by (simp add: pad_size_of_def ENC_MARKER_def)
qed

lemma list_ex_replicate: "list_ex (\<lambda>x. x \<noteq> c) xs \<longleftrightarrow> xs \<noteq> replicate (length xs) c"
  by (induction xs) auto

lemma list_all_replicate: "list_all (\<lambda>x. x = c) xs \<longleftrightarrow> xs = replicate (length xs) c"
  by (induction xs) auto

lemma map_flip_eq: "map (flip_byte desc) xs = ys \<longleftrightarrow> xs = map (flip_byte desc) ys"
  by (metis map_flip_flip)

lemma padding_check:
  "length p = n \<Longrightarrow>
    list_ex (\<lambda>x. x \<noteq> (if desc then NOT 0 else 0)) p \<longleftrightarrow> map (flip_byte desc) p \<noteq> replicate n 0"
  by (auto simp: list_ex_replicate map_flip_eq)

lemma decode_bytes_loop_ref:
  "decode_bytes_loop data desc offset key =
    rmap (\<lambda>(k, r). (map (flip_byte desc) key @ k, map (flip_byte desc) r))
      (mem_dec (map (flip_byte desc) (drop offset data)))"
proof (induction data desc offset key rule: decode_bytes_loop.induct)
  case (1 data desc offset key)
  let ?d = "map (flip_byte desc) (drop offset data)"
  show ?case
  proof (cases "offset + 9 \<le> length data")
    case True
    then have len: "\<not> length data - offset < 9" by simp
    have nth: "?d ! 8 = flip_byte desc (data ! (offset + 8))" using True by simp
    have tk: "take n ?d = map (flip_byte desc) (subslice offset (offset + n) data)" for n
      by (simp add: subslice_def take_map)
    have padding: "list_ex (\<lambda>x. x \<noteq> (if desc then NOT 0 else 0))
        (drop (8 - n) (subslice offset (offset + 8) data)) \<longleftrightarrow>
      drop (8 - n) (take 8 ?d) \<noteq> replicate n 0" if "n \<le> 8" for n
      using True that by (subst padding_check [of _ n]) (auto simp: tk drop_map)
    show ?thesis
    proof (cases "pad_size_of desc (data ! (offset + 8)) = 0")
      case pad0: True
      have "decode_bytes_loop data desc offset key =
        decode_bytes_loop data desc (offset + 9) (key @ subslice offset (offset + 8) data)"
        using pad0 True
        by (subst decode_bytes_loop.simps) (simp add: group_consts butlast_slice9 last_slice9)
      moreover have "decode_bytes_loop data desc (offset + 9) (key @ subslice offset (offset + 8) data) =
        rmap (\<lambda>(k, r). (map (flip_byte desc) (key @ subslice offset (offset + 8) data) @ k,
          map (flip_byte desc) r)) (mem_dec (map (flip_byte desc) (drop (offset + 9) data)))"
        using "1.IH" [OF refl _ refl refl refl refl] pad0 True
        by (simp add: group_consts butlast_slice9 last_slice9)
      moreover have "mem_dec ?d = rmap (\<lambda>(k, r). (take 8 ?d @ k, r)) (mem_dec (drop 9 ?d))"
        using pad0 len nth by (subst mem_dec.simps) (simp add: pad_size_flip Let_def)
      ultimately show ?thesis
        by (cases "mem_dec (drop 9 ?d)") (auto simp: tk drop_map add.commute)
    next
      case False
      then show ?thesis using True nth len
        by (subst decode_bytes_loop.simps, subst mem_dec.simps,
            simp add: group_consts butlast_slice9 last_slice9 Let_def padding flip: pad_size_flip)
          (simp add: subslice_def take_map drop_map o_def add.commute)
    qed
  next
    case False
    then have "length data - offset < 9" by simp
    with False show ?thesis
      by (subst decode_bytes_loop.simps, subst mem_dec.simps) (simp add: group_consts)
  qed
qed

lemma decode_bytes_ref:
  "decode_bytes data desc =
    rmap (\<lambda>(k, r). (k, map (flip_byte desc) r)) (mem_dec (map (flip_byte desc) data))"
  by (simp add: decode_bytes_def decode_bytes_loop_ref)


section \<open>Decoding inverts encoding, and only encodings decode\<close>

lemma mem_dec_enc [simp]: "mem_dec (mem_enc key @ rest) = Inr (key, rest)"
proof (induction key rule: mem_enc.induct)
  case (1 key)
  show ?case
  proof (cases "length key < 8")
    case True
    let ?n = "8 - length key"
    have "unat (0xff - (0xff - of_nat ?n :: byte)) = ?n"
      using True by (simp del: of_nat_diff)
    then show ?thesis using True
      by (subst mem_enc.simps, subst mem_dec.simps) (simp add: enc_group_def Let_def nth_append)
  next
    case False
    then obtain t d where key: "key = t @ d" "length t = 8"
      using that [of "take 8 key" "drop 8 key"] by simp
    with 1 have "mem_dec (mem_enc d @ rest) = Inr (d, rest)" by simp
    with key show ?thesis
      by (subst mem_enc.simps, subst mem_dec.simps) (simp add: enc_group_def Let_def nth_append)
  qed
qed

lemma mem_dec_enc_all [simp]: "mem_dec (mem_enc key) = Inr (key, [])"
  using mem_dec_enc [of key "[]"] by simp

lemma byte_255_minus: "unat (0xff - m :: byte) = n \<Longrightarrow> m = 0xff - of_nat n"
  by auto

lemma mem_dec_canonical: "mem_dec data = Inr (k, r) \<Longrightarrow> data = mem_enc k @ r"
proof (induction data arbitrary: k rule: mem_dec.induct)
  case (1 data)
  then have len: "9 \<le> length data" by (subst (asm) (2) mem_dec.simps) (auto split: if_splits)
  let ?pad = "unat (0xff - data ! 8)"
  have split: "data = take 8 data @ data ! 8 # drop 9 data"
    using len by (metis add_One_commute append_take_drop_id Cons_nth_drop_Suc Suc_le_eq
        eval_nat_numeral(3) numeral_eq_Suc pred_numeral_simps(3) Suc_eq_plus1)
  have m: "data ! 8 = 0xff - of_nat ?pad" by simp
  show ?case
  proof (cases "?pad = 0")
    case True
    then obtain k' where k': "mem_dec (drop 9 data) = Inr (k', r)" "k = take 8 data @ k'"
      using 1(2) len by (subst (asm) mem_dec.simps) (auto simp: Let_def rmap_Inr_iff)
    then have "drop 9 data = mem_enc k' @ r" using 1(1) [OF _ refl refl True] len by simp
    moreover have "mem_enc k = enc_group (take 8 data) @ mem_enc k'"
      using k' len by (subst mem_enc.simps) simp
    ultimately show ?thesis using split m True len
      by (simp add: enc_group_def)
  next
    case False
    then have k: "?pad \<le> 8" "drop (8 - ?pad) (take 8 data) = replicate ?pad 0"
        "k = take (8 - ?pad) (take 8 data)" "r = drop 9 data"
      using 1(2) len by (subst (asm) mem_dec.simps, simp add: Let_def split: if_splits)+
    have "take 8 data = k @ replicate ?pad 0"
      using k by (metis append_take_drop_id)
    moreover have "length k = 8 - ?pad" using k len by simp
    ultimately show ?thesis using k(1,4) False split m
      by (subst mem_enc.simps) (simp add: enc_group_def)
  qed
qed


lemma decode_bytes_encode [codec_simps, simp]:
  "decode_bytes (encode_order_bytes k desc @ rest) desc = Inr (k, rest)"
  by (simp add: decode_bytes_ref encode_order_bytes_ref)

lemma decode_bytes_canonical:
  assumes "decode_bytes data desc = Inr (k, r)"
  shows "data = encode_order_bytes k desc @ r"
proof -
  obtain r' where "mem_dec (map (flip_byte desc) data) = Inr (k, r')" "r = map (flip_byte desc) r'"
    using assms by (auto simp: decode_bytes_ref rmap_Inr_iff)
  then have "map (flip_byte desc) data = mem_enc k @ map (flip_byte desc) r"
    by (auto dest: mem_dec_canonical)
  then show ?thesis by (simp add: map_flip_eq encode_order_bytes_ref)
qed

section \<open>The encoding is memcomparable\<close>

lemma replicate_zero_le: "n \<le> length xs \<Longrightarrow> replicate n (0 :: byte) \<le> xs"
proof (induction xs arbitrary: n)
  case (Cons x xs)
  then show ?case by (cases n) (auto simp: word_neq_0_conv)
qed simp

lemma pad_le:
  assumes "length a + n = length t" and "n > 0"
  shows "a < t @ d \<longleftrightarrow> a @ replicate n (0 :: byte) \<le> t"
  using assms
proof (induction a arbitrary: t)
  case Nil
  then show ?case using replicate_zero_le [of n t] by (cases t) auto
next
  case (Cons x a)
  then show ?case by (cases t) auto
qed

lemma pad_both:
  assumes "length a + n = length b + m"
  shows "a < b \<longleftrightarrow> a @ replicate n (0 :: byte) < b @ replicate m 0
    \<or> a @ replicate n 0 = b @ replicate m 0 \<and> length a < length b"
  using assms
proof (induction a arbitrary: b)
  case Nil
  then show ?case using replicate_zero_le [of n "b @ replicate m 0"]
    by (cases b) (auto simp: less_le)
next
  case (Cons x a)
  show ?case
  proof (cases b)
    case Nil
    then show ?thesis using replicate_zero_le [of m "(x # a) @ replicate n 0"] Cons.prems
      by (auto simp: not_less [symmetric])
  next
    case (Cons y b')
    with Cons.prems Cons.IH [of b'] show ?thesis by auto
  qed
qed

definition group_body :: "bytes \<Rightarrow> bytes" where
  "group_body r = r @ replicate (8 - length r) 0"

definition group_mark :: "bytes \<Rightarrow> byte" where
  "group_mark r = 0xff - of_nat (8 - length r)"

lemma enc_group_split: "enc_group r = group_body r @ [group_mark r]"
  by (simp add: enc_group_def group_body_def group_mark_def)

lemma length_group_body [simp]: "length r \<le> 8 \<Longrightarrow> length (group_body r) = 8"
  by (simp add: group_body_def)

lemma group_full: "length r = 8 \<Longrightarrow> group_body r = r \<and> group_mark r = 0xff"
  by (simp add: group_body_def group_mark_def)

lemma group_mark_less:
  assumes "length a \<le> 8" "length b \<le> 8"
  shows "group_mark a < group_mark b \<longleftrightarrow> length a < length b"
proof -
  have "unat (group_mark r) = 247 + length r" if "length r \<le> 8" for r
    using that by (simp add: group_mark_def unat_sub_if' unat_of_nat del: of_nat_diff)
  with assms show ?thesis by (simp add: word_less_nat_alt)
qed

lemma mem_enc_short: "length a < 8 \<Longrightarrow> mem_enc a = group_body a @ [group_mark a]"
  by (subst mem_enc.simps) (simp add: enc_group_split)

lemma mem_enc_long: "length t = 8 \<Longrightarrow> mem_enc (t @ d) = t @ 0xff # mem_enc d"
  by (subst mem_enc.simps) (simp add: enc_group_split group_full)

lemma split8E:
  assumes "\<not> length a < 8"
  obtains t d where "a = t @ d" "length t = 8" "drop 8 a = d"
  using assms that [of "take 8 a" "drop 8 a"] by simp

lemma mem_enc_cancel:
  assumes "mem_enc a @ r = mem_enc b @ s"
  shows "a = b \<and> r = s"
  using arg_cong [OF assms, of mem_dec] by simp

lemma mem_enc_less: "mem_enc a < mem_enc b \<longleftrightarrow> a < b"
proof (induction a arbitrary: b rule: mem_enc.induct)
  case (1 a)
  have mark: "group_mark c < 0xff" if "length c < 8" for c
    using that group_mark_less [of c "replicate 8 0"] by (simp add: group_full)
  have short_long: "mem_enc c < mem_enc (t @ d) \<longleftrightarrow> c < t @ d"
    if "length c < 8" "length t = 8" for c t d
    using that mark [of c] pad_le [of c "8 - length c" t d]
    by (simp add: mem_enc_short mem_enc_long lex_same_length flip: group_body_def) (auto simp: le_less)
  show ?case
  proof (cases "length a < 8"; cases "length b < 8")
    assume ab: "length a < 8" "length b < 8"
    then show ?thesis using pad_both [of a "8 - length a" b "8 - length b"]
      by (simp add: mem_enc_short lex_same_length group_mark_less) (simp add: group_body_def)
  next
    assume ab: "length a < 8" "\<not> length b < 8"
    from ab(2) obtain t d where "b = t @ d" "length t = 8" by (rule split8E)
    with ab short_long show ?thesis by simp
  next
    assume ab: "\<not> length a < 8" "length b < 8"
    from ab(1) obtain t d where a: "a = t @ d" "length t = 8" by (rule split8E)
    have "a \<noteq> b" using ab by auto
    moreover from this have "mem_enc a \<noteq> mem_enc b" using mem_enc_cancel [of a "[]" b "[]"] by auto
    ultimately have "mem_enc a < mem_enc b \<longleftrightarrow> \<not> mem_enc b < mem_enc a" "a < b \<longleftrightarrow> \<not> b < a"
      by (auto simp only: not_less_iff_gr_or_eq)
    then show ?thesis using short_long [of b t d] ab a by simp
  next
    assume ab: "\<not> length a < 8" "\<not> length b < 8"
    from ab(1) obtain t d where a: "a = t @ d" "length t = 8" "drop 8 a = d" by (rule split8E)
    from ab(2) obtain t' d' where b: "b = t' @ d'" "length t' = 8" by (rule split8E)
    have "mem_enc d < mem_enc d' \<longleftrightarrow> d < d'" using 1 ab(1) a by simp
    with a b show ?thesis by (simp add: mem_enc_long lex_same_length)
  qed
qed

lemma mem_enc_not_prefix: "a \<noteq> b \<Longrightarrow> \<not> prefix (mem_enc a) (mem_enc b)"
  by (metis append_Nil2 mem_enc_cancel prefixE)

lemma lex_not_antimono:
  fixes xs ys :: bytes
  assumes "\<not> prefix xs ys" "\<not> prefix ys xs"
  shows "map NOT xs < map NOT ys \<longleftrightarrow> ys < xs"
  using assms
proof (induction xs arbitrary: ys)
  case (Cons x xs)
  then show ?case by (cases ys) (auto simp: not_word_less)
qed simp

lemma encode_bytes_less: "encode_bytes a < encode_bytes b \<longleftrightarrow> a < b"
  by (simp add: encode_bytes_def encode_order_bytes_ref mem_enc_less)

lemma encode_bytes_desc_less: "encode_bytes_desc a < encode_bytes_desc b \<longleftrightarrow> b < a"
proof (cases "a = b")
  case False
  then show ?thesis
    by (simp add: encode_bytes_desc_def encode_order_bytes_ref lex_not_antimono mem_enc_not_prefix
        mem_enc_less)
qed simp

interpretation bytes_asc: order_codec encode_bytes "\<lambda>d. decode_bytes d False" "\<lambda>_. True" "(<)"
  by unfold_locales (simp_all add: encode_bytes_less, simp add: encode_bytes_def)

interpretation bytes_desc: order_codec encode_bytes_desc "\<lambda>d. decode_bytes d True" "\<lambda>_. True" "(>)"
  by unfold_locales (simp_all add: encode_bytes_desc_less, simp add: encode_bytes_desc_def)


section \<open>In-place decoding, lengths and the comparison without decoding\<close>

lemma nth_copy_within:
  "i < length data \<Longrightarrow> copy_within data src dst n ! i =
    (if dst \<le> i \<and> i < dst + n then data ! (src + (i - dst)) else data ! i)"
  by (simp add: copy_within_def)

lemma take_copy_within:
  assumes "r + 8 < length data" "w \<le> r"
  shows "take (w + 8) (copy_within data r w 8) = take w data @ subslice r (r + 8) data"
  using assms by (intro nth_equalityI) (auto simp: nth_copy_within nth_append subslice_def)

lemma drop_copy_within:
  assumes "r + 8 < length data" "w \<le> r"
  shows "drop (r + 8) (copy_within data r w 8) = drop (r + 8) data"
  using assms by (intro nth_equalityI) (auto simp: nth_copy_within)

lemma decode_bytes_in_place_loop_ref:
  assumes "w \<le> r"
  shows "decode_bytes_in_place_loop data desc w r =
    rmap (\<lambda>(k, _). map (flip_byte desc) (take w data) @ k)
      (mem_dec (map (flip_byte desc) (drop r data)))"
  using assms
proof (induction data desc w r rule: decode_bytes_in_place_loop.induct)
  case (1 data desc w r)
  let ?d = "map (flip_byte desc) (drop r data)"
  show ?case
  proof (cases "r + 8 < length data")
    case True
    define buf where "buf = copy_within data r w 8"
    have tk: "take (w + 8) buf = take w data @ subslice r (r + 8) data"
      and dr: "drop (r + 8) buf = drop (r + 8) data"
      using True "1.prems" by (simp_all add: buf_def take_copy_within drop_copy_within)
    have len: "\<not> length data - r < 9" "length buf = length data" using True by (auto simp: buf_def)
    have m: "buf ! (r + 8) = data ! (r + 8)"
      using dr True len(2) by (metis hd_drop_conv_nth)
    have nth: "?d ! 8 = flip_byte desc (data ! (r + 8))" using True by simp
    have sub: "subslice (w + 8 - n) (w + 8) buf = drop (8 - n) (subslice r (r + 8) data)"
      if "n \<le> 8" for n
    proof -
      have "subslice (w + 8 - n) (w + 8) buf = drop (w + (8 - n)) (take (w + 8) buf)"
        using that by (simp add: subslice_def drop_take)
      also have "\<dots> = drop (8 - n) (subslice r (r + 8) data)"
        using True "1.prems" by (simp add: tk)
      finally show ?thesis .
    qed
    have tkn: "take (w + 8 - n) buf = take w data @ take (8 - n) (subslice r (r + 8) data)"
      if "n \<le> 8" for n
    proof -
      have "take (w + 8 - n) buf = take (w + (8 - n)) (take (w + 8) buf)"
        using that by simp
      then show ?thesis using True "1.prems" by (simp add: tk)
    qed
    let ?pad = "pad_size_of desc (data ! (r + 8))"
    show ?thesis
    proof (cases "?pad = 0")
      case pad0: True
      have "decode_bytes_in_place_loop data desc w r =
          decode_bytes_in_place_loop buf desc (w + 8) (r + 9)"
        using pad0 True m
        by (subst decode_bytes_in_place_loop.simps) (simp add: group_consts buf_def Let_def)
      also have "\<dots> = rmap (\<lambda>(k, _). map (flip_byte desc) (take (w + 8) buf) @ k)
          (mem_dec (map (flip_byte desc) (drop (r + 9) buf)))"
        using "1.IH" [OF refl _ refl refl refl refl refl] pad0 True m "1.prems"
        by (simp add: group_consts buf_def)
      also have "drop (r + 9) buf = drop (r + 9) data"
        using arg_cong [OF dr, of "drop 1"] by (simp add: add.commute)
      finally have "decode_bytes_in_place_loop data desc w r =
        rmap (\<lambda>(k, _). map (flip_byte desc) (take w data @ subslice r (r + 8) data) @ k)
          (mem_dec (drop 9 ?d))" by (simp add: tk drop_map add.commute)
      moreover have "mem_dec ?d = rmap (\<lambda>(k, r). (take 8 ?d @ k, r)) (mem_dec (drop 9 ?d))"
        using pad0 len(1) nth by (subst mem_dec.simps) (simp add: pad_size_flip Let_def)
      ultimately show ?thesis
        by (cases "mem_dec (drop 9 ?d)") (auto simp: subslice_def take_map)
    next
      case False
      have grp: "take 8 ?d = map (flip_byte desc) (subslice r (r + 8) data)"
        by (simp add: subslice_def take_map)
      have L: "decode_bytes_in_place_loop data desc w r =
        (if ?pad > 8 then Inl KeyPadding
         else if subslice (w + 8 - ?pad) (w + 8) buf
             \<noteq> take ?pad (if desc then ENC_DESC_PADDING else ENC_ASC_PADDING) then Inl KeyPadding
         else Inr (map (flip_byte desc) (take (w + 8 - ?pad) buf)))"
        using False True m
        by (subst decode_bytes_in_place_loop.simps) (simp add: ENC_GROUP_SIZE_def Let_def flip: buf_def)
      have R: "mem_dec ?d =
        (if ?pad > 8 then Inl KeyPadding
         else if drop (8 - ?pad) (take 8 ?d) \<noteq> replicate ?pad 0 then Inl KeyPadding
         else Inr (take (8 - ?pad) (take 8 ?d), drop 9 ?d))"
        using False len nth by (subst mem_dec.simps) (simp add: pad_size_flip Let_def)
      show ?thesis
      proof (cases "?pad > 8")
        case pad: False
        then have "?pad \<le> 8" by simp
        with pad show ?thesis
          by (simp only: L R sub tkn grp padding_flip drop_map take_map map_flip_eq)
            (simp add: subslice_def)
      qed (simp add: L R)
    qed
  next
    case False
    then have "length data - r < 9" by simp
    with False show ?thesis
      by (subst decode_bytes_in_place_loop.simps, subst mem_dec.simps) (simp add: group_consts)
  qed
qed

lemma decode_bytes_in_place_eq: "decode_bytes_in_place data desc = rmap fst (decode_bytes data desc)"
  by (cases "mem_dec (map (flip_byte desc) data)")
    (auto simp: decode_bytes_in_place_def decode_bytes_in_place_loop_ref decode_bytes_ref)


lemma not_eq_0: "NOT m = 0 \<longleftrightarrow> m = (0xff :: byte)"
proof -
  have "NOT m = 0 \<longleftrightarrow> m = NOT 0" by (metis bit.double_compl)
  then show ?thesis by (simp only: byte_max) simp
qed

lemma not_255 [simp]: "- 256 = (0 :: byte)"
  using not_eq_0 [of "0xff"] by simp

lemma encoded_bytes_len_loop_ref:
  "length pre = p \<Longrightarrow>
    encoded_bytes_len_loop (pre @ map (flip_byte desc) (mem_enc k) @ rest) desc (p + 8)
      = p + length (mem_enc k)"
proof (induction k arbitrary: pre p rule: mem_enc.induct)
  case (1 k)
  have marker: "(desc \<and> flip_byte desc m \<noteq> 0 \<or> \<not> desc \<and> flip_byte desc m \<noteq> 0xff) \<longleftrightarrow> m \<noteq> 0xff"
    for m :: byte
    by (cases desc) (auto simp: not_eq_0)
  show ?case
  proof (cases "length k < 8")
    case True
    have "group_mark k \<noteq> 0xff"
      using True group_mark_less [of k "replicate 8 0"] by (auto simp: group_full)
    then show ?thesis using True 1(2) marker [of "group_mark k"]
      by (subst encoded_bytes_len_loop.simps)
        (simp add: mem_enc_short nth_append group_consts Let_def)
  next
    case False
    from False obtain t d where k: "k = t @ d" "length t = 8" "drop 8 k = d" by (rule split8E)
    let ?pre = "pre @ map (flip_byte desc) (t @ [0xff])"
    have "encoded_bytes_len_loop (pre @ map (flip_byte desc) (mem_enc k) @ rest) desc (p + 8)
      = encoded_bytes_len_loop (?pre @ map (flip_byte desc) (mem_enc d) @ rest) desc (p + 9 + 8)"
      using k 1(2) marker [of "0xff"]
      by (subst encoded_bytes_len_loop.simps)
        (cases desc, simp_all add: mem_enc_long nth_append group_consts Let_def)
    also have "\<dots> = p + 9 + length (mem_enc d)"
      using 1(1) [OF False, of ?pre "p + 9"] k 1(2) by simp
    finally show ?thesis using k by (simp add: mem_enc_long)
  qed
qed

lemma encoded_bytes_len_encode:
  "encoded_bytes_len (encode_order_bytes k desc @ rest) desc = length (encode_order_bytes k desc)"
  using encoded_bytes_len_loop_ref [of "[]" 0 desc k rest]
  by (simp add: encoded_bytes_len_def encode_order_bytes_ref ENC_GROUP_SIZE_def)

lemma length_mem_enc: "length (mem_enc k) = (length k div 8 + 1) * 9"
proof (induction k rule: mem_enc.induct)
  case (1 k)
  show ?case
  proof (cases "length k < 8")
    case False
    from False obtain t d where k: "k = t @ d" "length t = 8" "drop 8 k = d" by (rule split8E)
    have "length k div 8 = Suc (length d div 8)" using k div_add_self1 [of 8 "length d"] by simp
    with 1 False k show ?thesis by (simp add: mem_enc_long)
  qed (simp add: mem_enc_short)
qed

lemma length_encode_order_bytes:
  "length (encode_order_bytes k desc) = max_encoded_bytes_size (length k)"
  by (simp add: encode_order_bytes_ref length_mem_enc max_encoded_bytes_size_def ENC_GROUP_SIZE_def)

text \<open>The chunk view of the encoding.\<close>

lemma chunks_exact_append:
  "n \<noteq> 0 \<Longrightarrow> length t = n \<Longrightarrow> chunks_exact n (t @ d) = t # chunks_exact n d"
  by (subst chunks_exact.simps) simp

lemma chunks_exact_short: "length d < n \<Longrightarrow> chunks_exact n d = []"
  by (subst chunks_exact.simps) simp

lemma chunks_remainder_append: "n \<noteq> 0 \<Longrightarrow> length t = n \<Longrightarrow> chunks_remainder n (t @ d) = chunks_remainder n d"
proof -
  assume n: "n \<noteq> 0" "length t = n"
  then have "length (t @ d) div n * n = n + length d div n * n"
    using div_add_self1 [of n "length d"] by simp
  then show ?thesis unfolding chunks_remainder_def using n(2) by (simp only: drop_append) simp
qed

lemma chunks_remainder_short: "length d < n \<Longrightarrow> chunks_remainder n d = d"
  by (simp add: chunks_remainder_def)

lemma length_chunks_remainder: "n \<noteq> 0 \<Longrightarrow> length (chunks_remainder n xs) < n"
  by (simp add: chunks_remainder_def minus_div_mult_eq_mod)

lemma mem_enc_chunks:
  "mem_enc k = concat (map enc_group (chunks_exact 8 k)) @ enc_group (chunks_remainder 8 k)"
proof (induction k rule: mem_enc.induct)
  case (1 k)
  show ?case
  proof (cases "length k < 8")
    case False
    from False obtain t d where k: "k = t @ d" "length t = 8" "drop 8 k = d" by (rule split8E)
    with 1 False show ?thesis
      by (simp add: mem_enc_long chunks_exact_append chunks_remainder_append enc_group_split group_full)
  qed (simp add: mem_enc_short chunks_exact_short chunks_remainder_short enc_group_split)
qed

lemma concat_chunks_exact: "n \<noteq> 0 \<Longrightarrow> length xs mod n = 0 \<Longrightarrow> concat (chunks_exact n xs) = xs"
proof (induction n xs rule: chunks_exact.induct)
  case (1 n xs)
  show ?case
  proof (cases "length xs < n")
    case True
    with 1 show ?thesis by (simp add: chunks_exact_short)
  next
    case False
    then have "(length xs - n) mod n = 0" using 1 le_mod_geq [of n "length xs"] by simp
    with 1 False show ?thesis by (subst chunks_exact.simps) simp
  qed
qed

lemma chunks_exact_length: "x \<in> set (chunks_exact n xs) \<Longrightarrow> length x = n"
proof (induction n xs rule: chunks_exact.induct)
  case (1 n xs)
  from 1(2) have "n \<noteq> 0 \<and> n \<le> length xs \<and> (x = take n xs \<or> x \<in> set (chunks_exact n (drop n xs)))"
    by (subst (asm) chunks_exact.simps) (auto split: if_splits)
  with 1(1) show ?case by auto
qed

lemma check_single_chunk_iff:
  assumes "length e = 9" "length r \<le> 8"
  shows "check_single_chunk desc e r \<longleftrightarrow> e = map (flip_byte desc) (enc_group r)"
proof -
  let ?n = "length r"
  have split: "e = take ?n e @ subslice ?n 8 e @ [e ! 8]"
  proof -
    have "e = take 8 e @ [e ! 8]"
      using assms(1) take_Suc_conv_app_nth [of 8 e] by simp
    moreover have "take 8 e = take ?n e @ subslice ?n 8 e"
      using assms by (simp add: subslice_def flip: take_add)
    ultimately show ?thesis by simp
  qed
  have "e = map (flip_byte desc) (enc_group r) \<longleftrightarrow>
      take ?n e = map (flip_byte desc) r
      \<and> subslice ?n 8 e = map (flip_byte desc) (replicate (8 - ?n) 0)
      \<and> e ! 8 = flip_byte desc (0xff - of_nat (8 - ?n))"
    using assms by (subst split) (simp add: enc_group_def append_eq_append_conv)
  moreover have "list_all (\<lambda>v. v = c) (subslice ?n 8 e) \<longleftrightarrow> subslice ?n 8 e = replicate (8 - ?n) c" for c
    using assms by (simp add: list_all_replicate)
  moreover have "list_all (\<lambda>(x, y). x = NOT y) (zip (take ?n e) r) \<longleftrightarrow> take ?n e = map NOT r"
    using assms by (auto simp: list_all_length list_eq_iff_nth_eq)
  ultimately show ?thesis using assms
    by (cases desc) (simp_all add: check_single_chunk_def group_consts Let_def conj_ac flip: byte_max)
qed


lemma list_all_zip_rev:
  "length xs = length ys \<Longrightarrow>
    list_all (\<lambda>(x, y). P x y) (zip (rev xs) (rev ys)) \<longleftrightarrow> list_all2 P xs ys"
  by (simp add: zip_rev list_all2_iff list_all_iff)

lemma list_all2_eq_map: "list_all2 (\<lambda>x y. x = f y) xs ys \<longleftrightarrow> xs = map f ys"
  by (auto simp: list_all2_conv_all_nth list_eq_iff_nth_eq)

lemma is_encoded_from_iff: "is_encoded_from encoded raw desc \<longleftrightarrow> encoded = encode_order_bytes raw desc"
proof -
  let ?g = "\<lambda>r. map (flip_byte desc) (enc_group r)"
  let ?rs = "chunks_exact 8 raw @ [chunks_remainder 8 raw]"
  have enc: "encode_order_bytes raw desc = concat (map ?g ?rs)"
    by (simp add: encode_order_bytes_ref mem_enc_chunks map_concat o_def)
  have rs: "length r \<le> 8" if "r \<in> set ?rs" for r
    using that chunks_exact_length [of r 8 raw] length_chunks_remainder [of 8 raw] by auto
  have chunks: "chunks_exact 9 (concat (map ?g qs)) = map ?g qs" if "\<forall>r \<in> set qs. length r \<le> 8" for qs
    using that by (induction qs) (simp_all add: chunks_exact_append chunks_exact_short)
  have main: "is_encoded_from encoded raw desc \<longleftrightarrow> chunks_exact 9 encoded = map ?g ?rs"
    if "length encoded mod 9 = 0"
  proof (cases "chunks_exact 9 encoded" rule: rev_cases)
    case Nil
    then show ?thesis by (simp add: is_encoded_from_def group_consts)
  next
    case (snoc es e)
    have es: "length x = 9" if "x \<in> set (es @ [e])" for x
      using that chunks_exact_length [of x 9 encoded] snoc by simp
    have "list_all2 (check_single_chunk desc) es (chunks_exact 8 raw) \<longleftrightarrow>
        list_all2 (\<lambda>x y. x = ?g y) es (chunks_exact 8 raw)"
      by (intro list.rel_cong refl) (auto simp: check_single_chunk_iff es rs)
    with snoc that es rs show ?thesis
      by (auto simp: is_encoded_from_def ENC_GROUP_SIZE_def check_single_chunk_iff list_all_zip_rev
          list_all2_eq_map dest: list_all2_lengthD)
  qed
  show ?thesis
  proof
    assume h: "is_encoded_from encoded raw desc"
    then have "length encoded mod 9 = 0"
      by (simp add: is_encoded_from_def ENC_GROUP_SIZE_def split: if_splits)
    then show "encoded = encode_order_bytes raw desc"
      using main h concat_chunks_exact [of 9 encoded] enc by simp
  next
    assume h: "encoded = encode_order_bytes raw desc"
    then have "length encoded mod 9 = 0"
      by (simp add: encode_order_bytes_ref length_mem_enc)
    with h main enc chunks [of ?rs] rs show "is_encoded_from encoded raw desc" by simp
  qed
qed

section \<open>Compact bytes\<close>

lemma decode_compact_bytes_encode [codec_simps]:
  "length data < 2 ^ 63 \<Longrightarrow> decode_compact_bytes (encode_compact_bytes data @ rest) = Inr (data, rest)"
  by (simp add: decode_compact_bytes_def encode_compact_bytes_def unat_of_nat)

interpretation compact: prefix_codec encode_compact_bytes decode_compact_bytes
  "\<lambda>d. length d < 2 ^ 63"
  by unfold_locales (rule decode_compact_bytes_encode)

lemma encoded_compact_len_encode:
  "length data < 2 ^ 63 \<Longrightarrow>
    encoded_compact_len (encode_compact_bytes data @ rest) = length (encode_compact_bytes data)"
  by (simp add: encoded_compact_len_def encode_compact_bytes_def unat_of_nat)

section \<open>Properties\<close>

text \<open>C20: memcomparable byte strings.  A slice decodes (in either direction) exactly when it starts
  with the encoding of the result, and the rest of the slice is what follows that encoding; in
  particular every corrupted padding or marker is rejected.\<close>

theorem decode_bytes_iff:
  "decode_bytes data desc = Inr (k, rest) \<longleftrightarrow> data = encode_order_bytes k desc @ rest"
  by (auto dest: decode_bytes_canonical)

text \<open>C21: the ascending encoding keeps the order of the keys and the descending one reverses it, also
  when more data (a timestamp) follows the encoded keys.\<close>

theorem encode_bytes_memcomparable:
  "(encode_bytes a @ r < encode_bytes b @ s \<longleftrightarrow> a < b \<or> a = b \<and> r < s)
    \<and> (encode_bytes_desc a @ r < encode_bytes_desc b @ s \<longleftrightarrow> b < a \<or> a = b \<and> r < s)"
  by (simp add: bytes_asc.enc_append_order bytes_desc.enc_append_order)

text \<open>C22: \<open>decode_bytes_in_place\<close>, which moves the groups inside one buffer with overlapping unchecked
  copies, returns what \<open>decode_bytes\<close> returns, errors included, without the rest of the slice.\<close>

theorem decode_bytes_in_place_correct:
  "decode_bytes_in_place data desc = rmap fst (decode_bytes data desc)"
  by (rule decode_bytes_in_place_eq)

text \<open>The comparison without decoding answers exactly whether the bytes are the encoding of the raw
  string, and the length functions measure exactly the encoding at the start of a slice.\<close>

lemma encoded_form_checks:
  "(is_encoded_from encoded raw desc \<longleftrightarrow> encoded = encode_order_bytes raw desc)
    \<and> encoded_bytes_len (encode_order_bytes raw desc @ rest) desc = length (encode_order_bytes raw desc)
    \<and> length (encode_order_bytes raw desc) = max_encoded_bytes_size (length raw)"
  by (simp add: is_encoded_from_iff encoded_bytes_len_encode length_encode_order_bytes)

end
