(* ===== verification/TxnTypes.thy ===== *)
theory TxnTypes
  imports BytesCodec
begin

text \<open>
  Timestamps, keys and the small types of \<open>components/txn_types/src/timestamp.rs\<close> and
  \<open>types.rs\<close>.  A \<open>TimeStamp\<close> is its \<open>u64\<close>, a \<open>Key\<close> its encoded bytes.  A panic (a failed assertion)
  is an error value of its own.
\<close>

section \<open>Timestamps\<close>

type_synonym timestamp = u64

definition TSO_PHYSICAL_SHIFT_BITS :: nat where
  "TSO_PHYSICAL_SHIFT_BITS = 18"

definition compose :: "u64 \<Rightarrow> u64 \<Rightarrow> timestamp" where
  "compose phys log = push_bit TSO_PHYSICAL_SHIFT_BITS phys + log"

definition physical :: "timestamp \<Rightarrow> u64" where
  "physical ts = drop_bit TSO_PHYSICAL_SHIFT_BITS ts"

definition logical :: "timestamp \<Rightarrow> u64" where
  "logical ts = ts AND (push_bit TSO_PHYSICAL_SHIFT_BITS 1 - 1)"

definition ts_next :: "timestamp \<Rightarrow> timestamp option" where
  "ts_next ts = (if ts < - 1 then Some (ts + 1) else None)"

definition ts_prev :: "timestamp \<Rightarrow> timestamp option" where
  "ts_prev ts = (if ts > 0 then Some (ts - 1) else None)"

definition is_zero :: "timestamp \<Rightarrow> bool" where
  "is_zero ts = (ts = 0)"

definition is_max :: "timestamp \<Rightarrow> bool" where
  "is_max ts = (ts = - 1)"

datatype ts_set = TsEmpty | TsVec "timestamp list" | TsHashSet "timestamp set"

definition TS_SET_USE_VEC_LIMIT :: nat where
  "TS_SET_USE_VEC_LIMIT = 8"

definition ts_set_new :: "timestamp list \<Rightarrow> ts_set" where
  "ts_set_new ts =
    (if ts = [] then TsEmpty
     else if length ts \<le> TS_SET_USE_VEC_LIMIT then TsVec ts
     else TsHashSet (set ts))"

definition ts_set_vec :: "timestamp list \<Rightarrow> ts_set" where
  "ts_set_vec ts = (if ts = [] then TsEmpty else TsVec ts)"

fun ts_set_contains :: "ts_set \<Rightarrow> timestamp \<Rightarrow> bool" where
  "ts_set_contains TsEmpty ts = False"
| "ts_set_contains (TsVec v) ts = (ts \<in> set v)"
| "ts_set_contains (TsHashSet s) ts = (ts \<in> s)"

section \<open>Keys\<close>

type_synonym key = bytes

definition U64_SIZE :: nat where
  "U64_SIZE = 8"

definition from_raw :: "bytes \<Rightarrow> key" where
  "from_raw k = encode_order_bytes k False"

definition from_raw_maybe_unbounded :: "bytes \<Rightarrow> key option" where
  "from_raw_maybe_unbounded k = (if k = [] then None else Some (from_raw k))"

definition into_raw :: "key \<Rightarrow> codec_error + bytes" where
  "into_raw k = decode_bytes_in_place k False"

definition to_raw :: "key \<Rightarrow> codec_error + bytes" where
  "to_raw k = rmap fst (decode_bytes k False)"

definition append_ts :: "key \<Rightarrow> timestamp \<Rightarrow> key" where
  "append_ts k ts = k @ encode_u64_desc ts"

definition decode_ts_from :: "key \<Rightarrow> codec_error + timestamp" where
  "decode_ts_from k =
    (if length k < U64_SIZE then Inl KeyLength
     else rmap fst (decode_u64_desc (drop (length k - U64_SIZE) k)))"

definition truncate_ts :: "key \<Rightarrow> codec_error + key" where
  "truncate_ts k =
    (if length k < U64_SIZE then Inl KeyLength else Inr (take (length k - U64_SIZE) k))"

definition split_on_ts_for :: "key \<Rightarrow> codec_error + key \<times> timestamp" where
  "split_on_ts_for k =
    (if length k < U64_SIZE then Inl KeyLength
     else
       let pos = length k - U64_SIZE
       in rbind (decode_u64_desc (drop pos k)) (\<lambda>(ts, _). Inr (take pos k, ts)))"

definition truncate_ts_for :: "key \<Rightarrow> codec_error + key" where
  "truncate_ts_for k =
    (if length k < U64_SIZE then Inl KeyLength else Inr (take (length k - U64_SIZE) k))"

definition decode_ts_bytes_from :: "key \<Rightarrow> codec_error + bytes" where
  "decode_ts_bytes_from k =
    (if length k < U64_SIZE then Inl KeyLength else Inr (drop (length k - U64_SIZE) k))"

definition is_user_key_eq :: "key \<Rightarrow> key \<Rightarrow> bool" where
  "is_user_key_eq ts_encoded_key user_key =
    (let n = length user_key in
     if length ts_encoded_key \<noteq> n + U64_SIZE then False
     else if n \<ge> U64_SIZE then
       let left = be_value (rev (take 8 (drop (n - 8) ts_encoded_key)));
           right = be_value (rev (take 8 (drop (n - 8) user_key)))
       in if left \<noteq> right then False
          else take (n - 8) ts_encoded_key = take (n - 8) user_key
     else take n ts_encoded_key = user_key)"

definition key_is_encoded_from :: "key \<Rightarrow> bytes \<Rightarrow> bool" where
  "key_is_encoded_from k raw_key = is_encoded_from k raw_key False"

section \<open>Values, mutations and old values\<close>

definition SHORT_VALUE_MAX_LEN :: nat where
  "SHORT_VALUE_MAX_LEN = 255"

definition SHORT_VALUE_PREFIX :: byte where
  "SHORT_VALUE_PREFIX = 0x76"

definition is_short_value :: "bytes \<Rightarrow> bool" where
  "is_short_value v = (length v \<le> SHORT_VALUE_MAX_LEN)"

datatype assertion = AssertNone | AssertExist | AssertNotExist

datatype mutation =
    MPut key bytes assertion
  | MDelete key assertion
  | MLock key assertion
  | MInsert key bytes assertion
  | MCheckNotExists key assertion

datatype mutation_type = MtPut | MtDelete | MtLock | MtInsert | MtOther

fun mutation_key :: "mutation \<Rightarrow> key" where
  "mutation_key (MPut k v a) = k"
| "mutation_key (MDelete k a) = k"
| "mutation_key (MLock k a) = k"
| "mutation_key (MInsert k v a) = k"
| "mutation_key (MCheckNotExists k a) = k"

fun mutation_type_of :: "mutation \<Rightarrow> mutation_type" where
  "mutation_type_of (MPut k v a) = MtPut"
| "mutation_type_of (MDelete k a) = MtDelete"
| "mutation_type_of (MLock k a) = MtLock"
| "mutation_type_of (MInsert k v a) = MtInsert"
| "mutation_type_of (MCheckNotExists k a) = MtOther"

fun into_key_value :: "mutation \<Rightarrow> key \<times> bytes option" where
  "into_key_value (MPut k v a) = (k, Some v)"
| "into_key_value (MDelete k a) = (k, None)"
| "into_key_value (MLock k a) = (k, None)"
| "into_key_value (MInsert k v a) = (k, Some v)"
| "into_key_value (MCheckNotExists k a) = (k, None)"

fun should_not_exists :: "mutation \<Rightarrow> bool" where
  "should_not_exists (MInsert k v a) = True"
| "should_not_exists (MCheckNotExists k a) = True"
| "should_not_exists _ = False"

fun should_not_write :: "mutation \<Rightarrow> bool" where
  "should_not_write (MCheckNotExists k a) = True"
| "should_not_write _ = False"

fun get_assertion :: "mutation \<Rightarrow> assertion" where
  "get_assertion (MPut k v a) = a"
| "get_assertion (MDelete k a) = a"
| "get_assertion (MLock k a) = a"
| "get_assertion (MInsert k v a) = a"
| "get_assertion (MCheckNotExists k a) = a"

fun set_assertion :: "assertion \<Rightarrow> mutation \<Rightarrow> mutation" where
  "set_assertion a' (MPut k v a) = MPut k v a'"
| "set_assertion a' (MDelete k a) = MDelete k a'"
| "set_assertion a' (MLock k a) = MLock k a'"
| "set_assertion a' (MInsert k v a) = MInsert k v a'"
| "set_assertion a' (MCheckNotExists k a) = MCheckNotExists k a'"

datatype old_value =
    OvValue bytes
  | OvValueTimeStamp timestamp
  | OvNone
  | OvUnspecified
  | OvSeekWrite key

definition seek_write :: "bytes \<Rightarrow> u64 \<Rightarrow> old_value" where
  "seek_write raw_user_key ts = OvSeekWrite (append_ts (from_raw raw_user_key) ts)"

fun resolved :: "old_value \<Rightarrow> bool" where
  "resolved (OvValue v) = True"
| "resolved (OvValueTimeStamp ts) = True"
| "resolved OvNone = True"
| "resolved OvUnspecified = False"
| "resolved (OvSeekWrite k) = False"

text \<open>\<open>None\<close> is the panic of a value that is not finalized.\<close>

fun finalized :: "old_value \<Rightarrow> bytes option option" where
  "finalized (OvValue v) = Some (Some v)"
| "finalized OvNone = Some None"
| "finalized OvUnspecified = Some None"
| "finalized (OvValueTimeStamp ts) = None"
| "finalized (OvSeekWrite k) = None"

fun value_size :: "old_value \<Rightarrow> nat" where
  "value_size (OvValue v) = length v"
| "value_size _ = 0"

type_synonym old_values = "key \<rightharpoonup> old_value \<times> mutation_type option"

definition insert_old_value_if_resolved ::
  "old_values \<Rightarrow> key \<Rightarrow> timestamp \<Rightarrow> old_value \<Rightarrow> mutation_type option \<Rightarrow> old_values" where
  "insert_old_value_if_resolved old_values k start_ts old_value mutation_type =
    (if resolved old_value
     then old_values(append_ts k start_ts \<mapsto> (old_value, mutation_type))
     else old_values)"

section \<open>The last change\<close>

datatype last_change = LcUnknown | LcExist timestamp u64 | LcNotExist

text \<open>\<open>None\<close> is a failed assertion.\<close>

definition make_exist :: "timestamp \<Rightarrow> u64 \<Rightarrow> last_change option" where
  "make_exist ts versions = (if ts \<noteq> 0 \<and> versions > 0 then Some (LcExist ts versions) else None)"

fun to_parts :: "last_change \<Rightarrow> timestamp \<times> u64" where
  "to_parts LcUnknown = (0, 0)"
| "to_parts (LcExist ts versions) = (ts, versions)"
| "to_parts LcNotExist = (0, 1)"

definition from_parts :: "timestamp \<Rightarrow> u64 \<Rightarrow> last_change option" where
  "from_parts ts versions =
    (if ts = 0 then if versions > 0 then Some LcNotExist else Some LcUnknown
     else make_exist ts versions)"

fun last_change_ok :: "last_change \<Rightarrow> bool" where
  "last_change_ok (LcExist ts versions) = (ts \<noteq> 0 \<and> versions > 0)"
| "last_change_ok _ = True"

fun last_change_stored :: "last_change \<Rightarrow> bool" where
  "last_change_stored LcUnknown = False"
| "last_change_stored _ = True"

section \<open>Lemmas\<close>

lemma from_parts_to_parts [simp]: "last_change_ok lc \<Longrightarrow> from_parts (fst (to_parts lc)) (snd (to_parts lc)) = Some lc"
  by (cases lc) (auto simp: from_parts_def make_exist_def)

lemma from_parts_ok: "from_parts ts n = Some lc \<Longrightarrow> last_change_ok lc"
  by (auto simp: from_parts_def make_exist_def split: if_splits)

lemma ts_set_new_contains [simp]: "ts_set_contains (ts_set_new ts) t \<longleftrightarrow> t \<in> set ts"
  by (auto simp: ts_set_new_def)

lemma ts_set_vec_contains [simp]: "ts_set_contains (ts_set_vec ts) t \<longleftrightarrow> t \<in> set ts"
  by (auto simp: ts_set_vec_def)

lemma decode_u64_desc_encode_all [simp]: "decode_u64_desc (encode_u64_desc v) = Inr (v, [])"
  using decode_u64_desc_encode [of v "[]"] by simp

lemma length_append_ts [simp]: "length (append_ts k ts) = length k + 8"
  by (simp add: append_ts_def)

lemma decode_ts_append [simp]: "decode_ts_from (append_ts k ts) = Inr ts"
  by (simp add: decode_ts_from_def append_ts_def U64_SIZE_def)

lemma truncate_ts_append [simp]: "truncate_ts (append_ts k ts) = Inr k"
  by (simp add: truncate_ts_def append_ts_def U64_SIZE_def)

lemma split_on_ts_append [simp]: "split_on_ts_for (append_ts k ts) = Inr (k, ts)"
  by (simp add: split_on_ts_for_def append_ts_def U64_SIZE_def Let_def)

lemma to_raw_from_raw [simp]: "to_raw (from_raw k) = Inr k"
  using decode_bytes_encode [of k False "[]"] by (simp add: to_raw_def from_raw_def)

lemma into_raw_eq_to_raw: "into_raw k = to_raw k"
  by (simp add: into_raw_def to_raw_def decode_bytes_in_place_eq)

lemma from_raw_inj [simp]: "from_raw a = from_raw b \<longleftrightarrow> a = b"
  by (metis to_raw_from_raw sum.inject(2))

lemma from_raw_less: "from_raw a < from_raw b \<longleftrightarrow> a < b"
  using encode_bytes_less [of a b] by (simp add: from_raw_def encode_bytes_def)

lemma mvcc_key_order:
  "append_ts (from_raw a) t < append_ts (from_raw b) u \<longleftrightarrow> a < b \<or> a = b \<and> u < t"
  by (simp add: append_ts_def from_raw_def bytes_asc.enc_append_order [unfolded encode_bytes_def]
      encode_u64_desc_less)

lemma rev_be_value_eq: "length xs = length ys \<Longrightarrow> be_value (rev xs) = be_value (rev ys) \<longleftrightarrow> xs = ys"
  by (metis be_bytes_be_value length_rev rev_rev_ident)

lemma is_user_key_eq_iff: "is_user_key_eq k user_key \<longleftrightarrow> truncate_ts_for k = Inr user_key"
proof (cases "length k = length user_key + 8")
  case True
  let ?n = "length user_key"
  show ?thesis
  proof (cases "8 \<le> ?n")
    case long: True
    have "take ?n k = take (?n - 8) k @ take 8 (drop (?n - 8) k)"
      using long take_add [of "?n - 8" 8 k] by simp
    moreover have "user_key = take (?n - 8) user_key @ take 8 (drop (?n - 8) user_key)"
      using long by simp
    ultimately have "take ?n k = user_key \<longleftrightarrow> take (?n - 8) k @ take 8 (drop (?n - 8) k)
        = take (?n - 8) user_key @ take 8 (drop (?n - 8) user_key)" by simp
    also have "\<dots> \<longleftrightarrow> take (?n - 8) k = take (?n - 8) user_key
        \<and> take 8 (drop (?n - 8) k) = take 8 (drop (?n - 8) user_key)"
      using True by (intro append_eq_append_conv) simp
    finally have "take ?n k = user_key \<longleftrightarrow> take (?n - 8) k = take (?n - 8) user_key
        \<and> take 8 (drop (?n - 8) k) = take 8 (drop (?n - 8) user_key)" .
    with True long show ?thesis
      by (auto simp: is_user_key_eq_def truncate_ts_for_def U64_SIZE_def Let_def rev_be_value_eq)
  next
    case False
    with True show ?thesis
      by (auto simp: is_user_key_eq_def truncate_ts_for_def U64_SIZE_def Let_def)
  qed
next
  case False
  then show ?thesis
    by (auto simp: is_user_key_eq_def truncate_ts_for_def U64_SIZE_def Let_def)
qed

lemma unat_compose:
  assumes "unat p < 2 ^ 46" "unat l < 2 ^ 18"
  shows "unat (compose p l) = unat p * 2 ^ 18 + unat l"
proof -
  have p: "unat (push_bit 18 p) = unat p * 2 ^ 18"
    unfolding unsigned_push_bit_eq using assms
    by (simp add: push_bit_eq_mult take_bit_nat_eq_self)
  have "unat p * 2 ^ 18 + unat l < 2 ^ 64" using assms by simp
  then show ?thesis
    by (simp add: compose_def TSO_PHYSICAL_SHIFT_BITS_def unat_word_ariths p)
qed

lemma physical_compose:
  assumes "unat p < 2 ^ 46" "unat l < 2 ^ 18"
  shows "physical (compose p l) = p" "logical (compose p l) = l"
proof -
  have "unat (physical (compose p l)) = unat p"
    unfolding physical_def TSO_PHYSICAL_SHIFT_BITS_def unat_drop_bit_eq
    using assms by (simp add: unat_compose drop_bit_eq_div)
  then show "physical (compose p l) = p" by (rule unsigned_word_eqI)
  have "logical (compose p l) = take_bit 18 (compose p l)"
    by (simp add: logical_def TSO_PHYSICAL_SHIFT_BITS_def take_bit_eq_mask mask_eq_exp_minus_1)
  then have "unat (logical (compose p l)) = unat l"
    unfolding unsigned_take_bit_eq using assms
    by (simp add: unat_compose take_bit_eq_mod unat_mod)
  then show "logical (compose p l) = l" by (rule unsigned_word_eqI)
qed

section \<open>Properties\<close>

text \<open>C23: versions of a key.  Encoded MVCC keys sort by user key first and, within a key, from the
  newest version to the oldest; the timestamp and the user key are read back from the key; the
  comparison that looks at the last eight bytes first decides exactly whether the user-key part is
  the given key.\<close>

theorem mvcc_key_versions:
  "(append_ts (from_raw a) t < append_ts (from_raw b) u \<longleftrightarrow> a < b \<or> a = b \<and> u < t)
    \<and> split_on_ts_for (append_ts (from_raw a) t) = Inr (from_raw a, t)
    \<and> to_raw (from_raw a) = Inr a
    \<and> (is_user_key_eq k user_key \<longleftrightarrow> truncate_ts_for k = Inr user_key)"
  by (simp add: mvcc_key_order is_user_key_eq_iff)

end
