(* ===== verification/WriteRecord.thy ===== *)
theory WriteRecord
  imports TxnTypes
begin

text \<open>
  The commit records of \<open>components/txn_types/src/write.rs\<close>: their byte format (\<open>to_bytes\<close>, \<open>parse\<close>),
  the GC fence check and the constructors.  The parser's loop reads one tagged field per round; an
  unknown tag ends it.
\<close>

datatype txn_error =
    TxnIo
  | TxnCodec codec_error
  | BadFormatLock
  | BadFormatWrite
  | TxnPanic

datatype write_type = WPut | WDelete | WLock | WRollback

definition FLAG_PUT :: byte where "FLAG_PUT = 0x50"
definition FLAG_DELETE :: byte where "FLAG_DELETE = 0x44"
definition FLAG_LOCK :: byte where "FLAG_LOCK = 0x4c"
definition FLAG_ROLLBACK :: byte where "FLAG_ROLLBACK = 0x52"
definition FLAG_OVERLAPPED_ROLLBACK :: byte where "FLAG_OVERLAPPED_ROLLBACK = 0x52"
definition GC_FENCE_PREFIX :: byte where "GC_FENCE_PREFIX = 0x46"
definition LAST_CHANGE_PREFIX :: byte where "LAST_CHANGE_PREFIX = 0x6c"
definition TXN_SOURCE_PREFIX :: byte where "TXN_SOURCE_PREFIX = 0x53"
definition PROTECTED_ROLLBACK_SHORT_VALUE :: bytes where "PROTECTED_ROLLBACK_SHORT_VALUE = [0x70]"

definition write_type_from_u8 :: "byte \<Rightarrow> write_type option" where
  "write_type_from_u8 b =
    (if b = FLAG_PUT then Some WPut
     else if b = FLAG_DELETE then Some WDelete
     else if b = FLAG_LOCK then Some WLock
     else if b = FLAG_ROLLBACK then Some WRollback
     else None)"

fun write_type_to_u8 :: "write_type \<Rightarrow> byte" where
  "write_type_to_u8 WPut = FLAG_PUT"
| "write_type_to_u8 WDelete = FLAG_DELETE"
| "write_type_to_u8 WLock = FLAG_LOCK"
| "write_type_to_u8 WRollback = FLAG_ROLLBACK"

record write_rec =
  w_type :: write_type
  w_start_ts :: timestamp
  w_short_value :: "bytes option"
  w_has_overlapped_rollback :: bool
  w_gc_fence :: "timestamp option"
  w_last_change :: last_change
  w_txn_source :: u64

definition write_new :: "write_type \<Rightarrow> timestamp \<Rightarrow> bytes option \<Rightarrow> write_rec" where
  "write_new tp start_ts short_value =
    \<lparr>w_type = tp, w_start_ts = start_ts, w_short_value = short_value,
     w_has_overlapped_rollback = False, w_gc_fence = None, w_last_change = LcUnknown,
     w_txn_source = 0\<rparr>"

definition new_rollback :: "timestamp \<Rightarrow> bool \<Rightarrow> write_rec" where
  "new_rollback start_ts protected =
    \<lparr>w_type = WRollback, w_start_ts = start_ts,
     w_short_value = (if protected then Some PROTECTED_ROLLBACK_SHORT_VALUE else None),
     w_has_overlapped_rollback = False, w_gc_fence = None, w_last_change = LcUnknown,
     w_txn_source = 0\<rparr>"

definition set_overlapped_rollback :: "bool \<Rightarrow> timestamp option \<Rightarrow> write_rec \<Rightarrow> write_rec" where
  "set_overlapped_rollback has fence w =
    w\<lparr>w_has_overlapped_rollback := has, w_gc_fence := fence\<rparr>"

definition write_set_last_change :: "last_change \<Rightarrow> write_rec \<Rightarrow> write_rec" where
  "write_set_last_change lc w = w\<lparr>w_last_change := lc\<rparr>"

definition write_set_txn_source :: "u64 \<Rightarrow> write_rec \<Rightarrow> write_rec" where
  "write_set_txn_source src w = w\<lparr>w_txn_source := src\<rparr>"

definition write_to_bytes :: "write_rec \<Rightarrow> bytes" where
  "write_to_bytes w =
    [write_type_to_u8 (w_type w)] @
    encode_var_u64 (w_start_ts w) @
    (case w_short_value w of
       None \<Rightarrow> [] | Some v \<Rightarrow> [SHORT_VALUE_PREFIX, of_nat (length v)] @ v) @
    (if w_has_overlapped_rollback w then [FLAG_OVERLAPPED_ROLLBACK] else []) @
    (case w_gc_fence w of None \<Rightarrow> [] | Some ts \<Rightarrow> [GC_FENCE_PREFIX] @ encode_u64 ts) @
    (if last_change_stored (w_last_change w) then
       let (last_change_ts, versions) = to_parts (w_last_change w)
       in [LAST_CHANGE_PREFIX] @ encode_u64 last_change_ts @ encode_var_u64 versions
     else []) @
    (if w_txn_source w \<noteq> 0 then [TXN_SOURCE_PREFIX] @ encode_var_u64 (w_txn_source w) else [])"

definition write_pre_allocate_size :: "write_rec \<Rightarrow> nat" where
  "write_pre_allocate_size w =
    1 + MAX_VAR_U64_LEN + (if w_has_overlapped_rollback w then 1 else 0) +
    (case w_short_value w of None \<Rightarrow> 0 | Some v \<Rightarrow> 2 + length v) +
    (if w_gc_fence w \<noteq> None then 1 + 8 else 0) +
    (if last_change_stored (w_last_change w) then 1 + 8 + MAX_VAR_U64_LEN else 0) +
    (if w_txn_source w \<noteq> 0 then 1 + MAX_VAR_U64_LEN else 0)"

text \<open>The local variables of the parser's loop.\<close>

record write_fields =
  wf_short_value :: "bytes option"
  wf_overlapped :: bool
  wf_gc_fence :: "timestamp option"
  wf_last_change_ts :: timestamp
  wf_versions :: u64
  wf_txn_source :: u64

definition write_fields_init :: write_fields where
  "write_fields_init =
    \<lparr>wf_short_value = None, wf_overlapped = False, wf_gc_fence = None, wf_last_change_ts = 0,
     wf_versions = 0, wf_txn_source = 0\<rparr>"

text \<open>A length-prefixed short value; a length beyond the record is the source's panic.\<close>

definition read_short_value :: "txn_error \<Rightarrow> bytes \<Rightarrow> txn_error + bytes \<times> bytes" where
  "read_short_value eof b =
    (case b of
       [] \<Rightarrow> Inl eof
     | len # b \<Rightarrow>
         if length b < unat len then Inl TxnPanic else Inr (take (unat len) b, drop (unat len) b))"

text \<open>One round of the loop: \<open>None\<close> when the tag is unknown and the loop breaks.\<close>

definition parse_write_field ::
  "write_fields \<Rightarrow> byte \<Rightarrow> bytes \<Rightarrow> txn_error + (write_fields \<times> bytes) option" where
  "parse_write_field f tag b =
    (if tag = SHORT_VALUE_PREFIX then
       rmap (\<lambda>(v, b). Some (f\<lparr>wf_short_value := Some v\<rparr>, b)) (read_short_value BadFormatWrite b)
     else if tag = FLAG_OVERLAPPED_ROLLBACK then Inr (Some (f\<lparr>wf_overlapped := True\<rparr>, b))
     else if tag = GC_FENCE_PREFIX then
       rmap (\<lambda>(ts, b). Some (f\<lparr>wf_gc_fence := Some ts\<rparr>, b)) (map_err TxnCodec (decode_u64 b))
     else if tag = LAST_CHANGE_PREFIX then
       rbind (map_err TxnCodec (decode_u64 b)) (\<lambda>(ts, b).
         rmap (\<lambda>(n, b). Some (f\<lparr>wf_last_change_ts := ts, wf_versions := n\<rparr>, b))
           (map_err TxnCodec (decode_var_u64 b)))
     else if tag = TXN_SOURCE_PREFIX then
       rmap (\<lambda>(src, b). Some (f\<lparr>wf_txn_source := src\<rparr>, b)) (map_err TxnCodec (decode_var_u64 b))
     else Inr None)"

lemma map_err_Inr_iff: "map_err f m = Inr a \<longleftrightarrow> m = Inr a"
  by (cases m) auto

lemma read_short_value_length: "read_short_value e b = Inr (v, r) \<Longrightarrow> length r < length b"
  by (auto simp: read_short_value_def split: list.splits if_splits)

lemma parse_write_field_length:
  "parse_write_field f tag b = Inr (Some (f', r)) \<Longrightarrow> length r \<le> length b"
  by (auto simp: parse_write_field_def rmap_Inr_iff rbind_Inr_iff map_err_Inr_iff split: if_splits
      dest!: read_short_value_length decode_u64_length decode_var_u64_length)

function parse_write_loop :: "write_fields \<Rightarrow> bytes \<Rightarrow> txn_error + write_fields" where
  "parse_write_loop f [] = Inr f"
| "parse_write_loop f (tag # b) =
    rbind (parse_write_field f tag b) (\<lambda>r.
      case r of None \<Rightarrow> Inr f | Some (f, b) \<Rightarrow> parse_write_loop f b)"
  by pat_completeness auto

termination parse_write_loop
  by (relation "measure (\<lambda>(f, b). length b)") (auto dest: parse_write_field_length)

definition parse_write :: "bytes \<Rightarrow> txn_error + write_rec" where
  "parse_write b =
    (case b of
       [] \<Rightarrow> Inl BadFormatWrite
     | t # b \<Rightarrow>
       (case write_type_from_u8 t of
          None \<Rightarrow> Inl BadFormatWrite
        | Some tp \<Rightarrow>
          (case read_var_u64 b of
             Inl e \<Rightarrow> Inl BadFormatWrite
           | Inr (start_ts, b) \<Rightarrow>
             rbind (parse_write_loop write_fields_init b) (\<lambda>f.
               case from_parts (wf_last_change_ts f) (wf_versions f) of
                 None \<Rightarrow> Inl TxnPanic
               | Some lc \<Rightarrow>
                 Inr \<lparr>w_type = tp, w_start_ts = start_ts, w_short_value = wf_short_value f,
                      w_has_overlapped_rollback = wf_overlapped f, w_gc_fence = wf_gc_fence f,
                      w_last_change = lc, w_txn_source = wf_txn_source f\<rparr>))))"

definition parse_write_type :: "bytes \<Rightarrow> txn_error + write_type" where
  "parse_write_type b =
    (case b of
       [] \<Rightarrow> Inl BadFormatWrite
     | t # _ \<Rightarrow>
       (case write_type_from_u8 t of None \<Rightarrow> Inl BadFormatWrite | Some tp \<Rightarrow> Inr tp))"

definition check_gc_fence_as_latest_version :: "write_rec \<Rightarrow> timestamp \<Rightarrow> bool" where
  "check_gc_fence_as_latest_version w read_ts =
    (case w_gc_fence w of
       None \<Rightarrow> True
     | Some gc_fence_ts \<Rightarrow> \<not> (gc_fence_ts \<noteq> 0 \<and> gc_fence_ts \<le> read_ts))"

definition is_protected :: "write_rec \<Rightarrow> bool" where
  "is_protected w =
    (w_type w = WRollback \<and> w_short_value w = Some PROTECTED_ROLLBACK_SHORT_VALUE)"

section \<open>The byte format\<close>

lemmas write_tags = FLAG_PUT_def FLAG_DELETE_def FLAG_LOCK_def FLAG_ROLLBACK_def
  FLAG_OVERLAPPED_ROLLBACK_def GC_FENCE_PREFIX_def LAST_CHANGE_PREFIX_def TXN_SOURCE_PREFIX_def
  SHORT_VALUE_PREFIX_def

definition write_wf :: "write_rec \<Rightarrow> bool" where
  "write_wf w \<longleftrightarrow>
    (case w_short_value w of None \<Rightarrow> True | Some v \<Rightarrow> is_short_value v)
    \<and> last_change_ok (w_last_change w)"

definition write_tag :: "byte \<Rightarrow> bool" where
  "write_tag t = (t \<in> {SHORT_VALUE_PREFIX, FLAG_OVERLAPPED_ROLLBACK, GC_FENCE_PREFIX,
    LAST_CHANGE_PREFIX, TXN_SOURCE_PREFIX})"

lemma write_type_round_trip [simp]: "write_type_from_u8 (write_type_to_u8 tp) = Some tp"
  by (cases tp) (simp_all add: write_type_from_u8_def write_tags)

lemma read_short_value_append [simp]:
  "length v \<le> 255 \<Longrightarrow> read_short_value e (of_nat (length v) # v @ rest) = Inr (v, rest)"
  by (simp add: read_short_value_def unat_of_nat)

lemma parse_write_loop_steps:
  "length v \<le> 255 \<Longrightarrow> parse_write_loop f (SHORT_VALUE_PREFIX # of_nat (length v) # v @ b)
    = parse_write_loop (f\<lparr>wf_short_value := Some v\<rparr>) b"
  "parse_write_loop f (FLAG_OVERLAPPED_ROLLBACK # b) = parse_write_loop (f\<lparr>wf_overlapped := True\<rparr>) b"
  "parse_write_loop f (GC_FENCE_PREFIX # encode_u64 ts @ b)
    = parse_write_loop (f\<lparr>wf_gc_fence := Some ts\<rparr>) b"
  "parse_write_loop f (LAST_CHANGE_PREFIX # encode_u64 ts @ encode_var_u64 n @ b)
    = parse_write_loop (f\<lparr>wf_last_change_ts := ts, wf_versions := n\<rparr>) b"
  "parse_write_loop f (TXN_SOURCE_PREFIX # encode_var_u64 src @ b)
    = parse_write_loop (f\<lparr>wf_txn_source := src\<rparr>) b"
  by (simp_all add: parse_write_field_def write_tags)

lemma parse_write_loop_unknown:
  "rest = [] \<or> \<not> write_tag (hd rest) \<Longrightarrow> parse_write_loop f rest = Inr f"
  by (cases rest) (auto simp: parse_write_field_def write_tag_def)

declare parse_write_loop.simps(2) [simp del]

lemma from_parts_zero: "from_parts 0 0 = Some LcUnknown"
  by (simp add: from_parts_def)

lemma parse_write_to_bytes:
  assumes "write_wf w" and "rest = [] \<or> \<not> write_tag (hd rest)"
  shows "parse_write (write_to_bytes w @ rest) = Inr w"
proof -
  obtain tp ts sv ov gf lc src where w: "w = \<lparr>w_type = tp, w_start_ts = ts, w_short_value = sv,
      w_has_overlapped_rollback = ov, w_gc_fence = gf, w_last_change = lc, w_txn_source = src\<rparr>"
    by (cases w)
  obtain lts n where parts: "to_parts lc = (lts, n)" by (cases "to_parts lc")
  have lc: "from_parts lts n = Some lc" if "last_change_stored lc"
    using from_parts_to_parts [of lc] assms(1) parts by (simp add: w write_wf_def)
  have sv: "\<And>v. sv = Some v \<Longrightarrow> length v \<le> 255"
    using assms(1) by (auto simp: w write_wf_def is_short_value_def SHORT_VALUE_MAX_LEN_def)
  show ?thesis using assms(2) parts lc sv
    by (cases sv; cases gf; cases lc; cases "src = 0"; cases ov)
      (simp_all add: parse_write_def write_to_bytes_def w codec_var.dec_enc
        parse_write_loop_steps parse_write_loop_unknown write_fields_init_def from_parts_zero)
qed


lemma write_to_bytes_size: "length (write_to_bytes w) \<le> write_pre_allocate_size w"
proof -
  have v: "length (encode_var_u64 n) \<le> MAX_VAR_U64_LEN" for n by (rule encode_var_u64_max_len)
  show ?thesis
    using v [of "w_start_ts w"] v [of "w_txn_source w"] v [of "snd (to_parts (w_last_change w))"]
    by (auto simp: write_to_bytes_def write_pre_allocate_size_def split: option.splits prod.splits)
qed

section \<open>Properties\<close>

text \<open>C13: commit records survive storage.  For every record whose short value is short and whose
  last-change pointer is one the constructors can build, parsing the stored bytes gives the record
  back, also when a later version of the format appended fields with tags this parser does not know;
  and the serialized form fits the pre-allocated buffer.\<close>

theorem write_record_round_trip:
  assumes "write_wf w" and "rest = [] \<or> \<not> write_tag (hd rest)"
  shows "parse_write (write_to_bytes w @ rest) = Inr w
    \<and> length (write_to_bytes w) \<le> write_pre_allocate_size w"
  using parse_write_to_bytes [OF assms] write_to_bytes_size by simp

theorem write_record_round_trip_witness:
  "parse_write (write_to_bytes \<lparr>w_type = WPut, w_start_ts = 300, w_short_value = Some [1, 2],
      w_has_overlapped_rollback = True, w_gc_fence = Some 7, w_last_change = LcExist 5 1,
      w_txn_source = 200\<rparr> @ [0x7a, 9])
    = Inr \<lparr>w_type = WPut, w_start_ts = 300, w_short_value = Some [1, 2],
      w_has_overlapped_rollback = True, w_gc_fence = Some 7, w_last_change = LcExist 5 1,
      w_txn_source = 200\<rparr>"
  using write_record_round_trip [of "\<lparr>w_type = WPut, w_start_ts = 300, w_short_value = Some [1, 2],
      w_has_overlapped_rollback = True, w_gc_fence = Some 7, w_last_change = LcExist 5 1,
      w_txn_source = 200\<rparr>" "[0x7a, 9]"]
  by (simp add: write_wf_def write_tag_def write_tags is_short_value_def SHORT_VALUE_MAX_LEN_def)

section \<open>What the parser accepts\<close>

lemma read_short_value_short: "read_short_value e b = Inr (v, r) \<Longrightarrow> is_short_value v"
proof -
  have "unat t < 256" for t :: byte using unsigned_less [of t, where 'a = nat] by simp
  then have "unat t \<le> 255" for t :: byte by (simp add: less_Suc_eq_le [symmetric])
  then show "read_short_value e b = Inr (v, r) \<Longrightarrow> is_short_value v"
    by (auto simp: read_short_value_def is_short_value_def SHORT_VALUE_MAX_LEN_def split: list.splits if_splits)
qed

definition short_field :: "write_fields \<Rightarrow> bool" where
  "short_field f = (case wf_short_value f of None \<Rightarrow> True | Some v \<Rightarrow> is_short_value v)"

lemma parse_write_field_short:
  "parse_write_field f tag b = Inr (Some (f', r)) \<Longrightarrow> short_field f \<Longrightarrow> short_field f'"
  by (auto simp: parse_write_field_def short_field_def rmap_Inr_iff rbind_Inr_iff split: if_splits
      dest: read_short_value_short)

lemma parse_write_loop_short: "parse_write_loop f b = Inr f' \<Longrightarrow> short_field f \<Longrightarrow> short_field f'"
proof (induction f b rule: parse_write_loop.induct)
  case (2 f tag b)
  from 2(2) obtain r where r: "parse_write_field f tag b = Inr r"
    "(case r of None \<Rightarrow> Inr f | Some (f, b) \<Rightarrow> parse_write_loop f b) = Inr f'"
    by (auto simp: parse_write_loop.simps rbind_Inr_iff)
  show ?case
  proof (cases r)
    case (Some fb)
    obtain f1 b1 where fb: "fb = (f1, b1)" by (rule prod.exhaust)
    have "short_field f1" using parse_write_field_short r(1) 2(3) Some fb by blast
    with 2(1) [OF r(1) Some fb [symmetric]] r(2) Some fb show ?thesis by simp
  qed (use r 2(3) in simp)
qed (simp add: parse_write_loop.simps)

lemma parse_write_init_short: "parse_write_loop write_fields_init b = Inr f \<Longrightarrow> short_field f"
  using parse_write_loop_short [of write_fields_init] by (simp add: short_field_def write_fields_init_def)

lemma parse_write_wf: "parse_write b = Inr w \<Longrightarrow> write_wf w"
  by (auto simp: parse_write_def write_wf_def rbind_Inr_iff short_field_def from_parts_ok
      split: list.splits option.splits sum.splits dest!: parse_write_init_short)

text \<open>C33: Every record the parser of commit records returns is well formed: its short value fits the length
  byte and its last-change pointer is one the constructors build.  So what was read, from whatever
  bytes, can be stored and read again without loss, and storing it is a normal form: reading the stored
  bytes and storing them again changes nothing.\<close>

theorem parsed_write_well_formed:
  assumes "parse_write b = Inr w"
  shows "write_wf w \<and> parse_write (write_to_bytes w) = Inr w"
  using parse_write_wf [OF assms] parse_write_to_bytes [of w "[]"] by simp

theorem parsed_write_well_formed_witness:
  "parse_write (write_to_bytes (write_new WPut 5 (Some [9])) @ [0x7a, 1]) = Inr (write_new WPut 5 (Some [9]))
    \<and> write_wf (write_new WPut 5 (Some [9]))"
proof -
  have "parse_write (write_to_bytes (write_new WPut 5 (Some [9])) @ [0x7a, 1]) = Inr (write_new WPut 5 (Some [9]))"
    by (rule parse_write_to_bytes)
      (simp_all add: write_wf_def write_new_def write_tag_def write_tags is_short_value_def SHORT_VALUE_MAX_LEN_def)
  with parsed_write_well_formed show ?thesis by blast
qed

end
