(* ===== verification/LockRecord.thy ===== *)
theory LockRecord
  imports WriteRecord
begin

text \<open>
  The lock records of \<open>components/txn_types/src/lock.rs\<close>: the byte format, the pessimistic in-memory
  locks and the check of a read timestamp against a lock under snapshot isolation and RcCheckTs.
\<close>

datatype lock_type = LkPut | LkDelete | LkLock | LkPessimistic

definition FLAG_PESSIMISTIC :: byte where "FLAG_PESSIMISTIC = 0x53"
definition FOR_UPDATE_TS_PREFIX :: byte where "FOR_UPDATE_TS_PREFIX = 0x66"
definition TXN_SIZE_PREFIX :: byte where "TXN_SIZE_PREFIX = 0x74"
definition MIN_COMMIT_TS_PREFIX :: byte where "MIN_COMMIT_TS_PREFIX = 0x63"
definition ASYNC_COMMIT_PREFIX :: byte where "ASYNC_COMMIT_PREFIX = 0x61"
definition ROLLBACK_TS_PREFIX :: byte where "ROLLBACK_TS_PREFIX = 0x72"
definition LOCK_TXN_SOURCE_PREFIX :: byte where "LOCK_TXN_SOURCE_PREFIX = 0x73"
definition PESSIMISTIC_LOCK_WITH_CONFLICT_PREFIX :: byte where
  "PESSIMISTIC_LOCK_WITH_CONFLICT_PREFIX = 0x46"
definition GENERATION_PREFIX :: byte where "GENERATION_PREFIX = 0x67"

fun lock_type_from_mutation :: "mutation \<Rightarrow> lock_type option" where
  "lock_type_from_mutation (MPut k v a) = Some LkPut"
| "lock_type_from_mutation (MInsert k v a) = Some LkPut"
| "lock_type_from_mutation (MDelete k a) = Some LkDelete"
| "lock_type_from_mutation (MLock k a) = Some LkLock"
| "lock_type_from_mutation (MCheckNotExists k a) = None"

definition lock_type_from_u8 :: "byte \<Rightarrow> lock_type option" where
  "lock_type_from_u8 b =
    (if b = FLAG_PUT then Some LkPut
     else if b = FLAG_DELETE then Some LkDelete
     else if b = FLAG_LOCK then Some LkLock
     else if b = FLAG_PESSIMISTIC then Some LkPessimistic
     else None)"

fun lock_type_to_u8 :: "lock_type \<Rightarrow> byte" where
  "lock_type_to_u8 LkPut = FLAG_PUT"
| "lock_type_to_u8 LkDelete = FLAG_DELETE"
| "lock_type_to_u8 LkLock = FLAG_LOCK"
| "lock_type_to_u8 LkPessimistic = FLAG_PESSIMISTIC"

fun write_type_from_lock_type :: "lock_type \<Rightarrow> write_type option" where
  "write_type_from_lock_type LkPut = Some WPut"
| "write_type_from_lock_type LkDelete = Some WDelete"
| "write_type_from_lock_type LkLock = Some WLock"
| "write_type_from_lock_type LkPessimistic = None"

record lock_rec =
  lk_type :: lock_type
  lk_primary :: bytes
  lk_ts :: timestamp
  lk_ttl :: u64
  lk_short_value :: "bytes option"
  lk_for_update_ts :: timestamp
  lk_txn_size :: u64
  lk_min_commit_ts :: timestamp
  lk_use_async_commit :: bool
  lk_use_one_pc :: bool
  lk_secondaries :: "bytes list"
  lk_rollback_ts :: "timestamp list"
  lk_last_change :: last_change
  lk_txn_source :: u64
  lk_is_locked_with_conflict :: bool
  lk_generation :: u64

definition lock_new ::
  "lock_type \<Rightarrow> bytes \<Rightarrow> timestamp \<Rightarrow> u64 \<Rightarrow> bytes option \<Rightarrow> timestamp \<Rightarrow> u64 \<Rightarrow> timestamp \<Rightarrow> bool \<Rightarrow> lock_rec"
  where
  "lock_new tp primary ts ttl short_value for_update_ts txn_size min_commit_ts conflict =
    \<lparr>lk_type = tp, lk_primary = primary, lk_ts = ts, lk_ttl = ttl, lk_short_value = short_value,
     lk_for_update_ts = for_update_ts, lk_txn_size = txn_size, lk_min_commit_ts = min_commit_ts,
     lk_use_async_commit = False, lk_use_one_pc = False, lk_secondaries = [], lk_rollback_ts = [],
     lk_last_change = LcUnknown, lk_txn_source = 0, lk_is_locked_with_conflict = conflict,
     lk_generation = 0\<rparr>"

definition use_async_commit :: "bytes list \<Rightarrow> lock_rec \<Rightarrow> lock_rec" where
  "use_async_commit secondaries l = l\<lparr>lk_use_async_commit := True, lk_secondaries := secondaries\<rparr>"

definition with_rollback_ts :: "timestamp list \<Rightarrow> lock_rec \<Rightarrow> lock_rec" where
  "with_rollback_ts ts l = l\<lparr>lk_rollback_ts := ts\<rparr>"

definition lock_set_last_change :: "last_change \<Rightarrow> lock_rec \<Rightarrow> lock_rec" where
  "lock_set_last_change lc l = l\<lparr>lk_last_change := lc\<rparr>"

definition lock_set_txn_source :: "u64 \<Rightarrow> lock_rec \<Rightarrow> lock_rec" where
  "lock_set_txn_source src l = l\<lparr>lk_txn_source := src\<rparr>"

definition with_generation :: "u64 \<Rightarrow> lock_rec \<Rightarrow> lock_rec" where
  "with_generation g l = l\<lparr>lk_generation := g\<rparr>"

text \<open>The tagged fields, written only when they differ from the default.\<close>

definition lock_tagged_bytes :: "lock_rec \<Rightarrow> bytes" where
  "lock_tagged_bytes l =
    (case lk_short_value l of
       None \<Rightarrow> [] | Some v \<Rightarrow> [SHORT_VALUE_PREFIX, of_nat (length v)] @ v) @
    (if lk_for_update_ts l \<noteq> 0 then [FOR_UPDATE_TS_PREFIX] @ encode_u64 (lk_for_update_ts l) else []) @
    (if lk_txn_size l > 0 then [TXN_SIZE_PREFIX] @ encode_u64 (lk_txn_size l) else []) @
    (if lk_min_commit_ts l \<noteq> 0 then [MIN_COMMIT_TS_PREFIX] @ encode_u64 (lk_min_commit_ts l) else []) @
    (if lk_use_async_commit l then
       [ASYNC_COMMIT_PREFIX] @ encode_var_u64 (of_nat (length (lk_secondaries l))) @
       concat (map encode_compact_bytes (lk_secondaries l))
     else []) @
    (if lk_rollback_ts l \<noteq> [] then
       [ROLLBACK_TS_PREFIX] @ encode_var_u64 (of_nat (length (lk_rollback_ts l))) @
       concat (map encode_u64 (lk_rollback_ts l))
     else []) @
    (if last_change_stored (lk_last_change l) then
       let (last_change_ts, versions) = to_parts (lk_last_change l)
       in [LAST_CHANGE_PREFIX] @ encode_u64 last_change_ts @ encode_var_u64 versions
     else []) @
    (if lk_txn_source l \<noteq> 0
     then [LOCK_TXN_SOURCE_PREFIX] @ encode_var_u64 (lk_txn_source l) else []) @
    (if lk_is_locked_with_conflict l then [PESSIMISTIC_LOCK_WITH_CONFLICT_PREFIX] else []) @
    (if lk_generation l > 0 then [GENERATION_PREFIX] @ encode_u64 (lk_generation l) else [])"

definition lock_to_bytes :: "lock_rec \<Rightarrow> bytes" where
  "lock_to_bytes l =
    [lock_type_to_u8 (lk_type l)] @
    encode_compact_bytes (lk_primary l) @
    encode_var_u64 (lk_ts l) @
    encode_var_u64 (lk_ttl l) @
    lock_tagged_bytes l"

definition lock_pre_allocate_size :: "lock_rec \<Rightarrow> nat" where
  "lock_pre_allocate_size l =
    1 + MAX_VAR_U64_LEN + length (lk_primary l) + MAX_VAR_U64_LEN * 2 +
    (case lk_short_value l of None \<Rightarrow> 0 | Some v \<Rightarrow> 2 + length v) +
    (if lk_for_update_ts l \<noteq> 0 then 1 + 8 else 0) +
    (if lk_txn_size l > 0 then 1 + 8 else 0) +
    (if lk_min_commit_ts l \<noteq> 0 then 1 + 8 else 0) +
    (if lk_use_async_commit l
     then 1 + MAX_VAR_U64_LEN + sum_list (map (\<lambda>k. MAX_VAR_U64_LEN + length k) (lk_secondaries l))
     else 0) +
    (if lk_rollback_ts l \<noteq> [] then 1 + MAX_VAR_U64_LEN + 8 * length (lk_rollback_ts l) else 0) +
    (if last_change_stored (lk_last_change l) then 1 + 8 + MAX_VAR_U64_LEN else 0) +
    (if lk_txn_source l \<noteq> 0 then 1 + MAX_VAR_U64_LEN else 0) +
    (if lk_is_locked_with_conflict l then 1 else 0) +
    (if lk_generation l > 0 then 1 + 8 else 0)"

text \<open>The local variables of the parser's loop.\<close>

record lock_fields =
  lf_short_value :: "bytes option"
  lf_for_update_ts :: timestamp
  lf_txn_size :: u64
  lf_min_commit_ts :: timestamp
  lf_use_async_commit :: bool
  lf_secondaries :: "bytes list"
  lf_rollback_ts :: "timestamp list"
  lf_last_change_ts :: timestamp
  lf_versions :: u64
  lf_txn_source :: u64
  lf_conflict :: bool
  lf_generation :: u64

definition lock_fields_init :: lock_fields where
  "lock_fields_init =
    \<lparr>lf_short_value = None, lf_for_update_ts = 0, lf_txn_size = 0, lf_min_commit_ts = 0,
     lf_use_async_commit = False, lf_secondaries = [], lf_rollback_ts = [], lf_last_change_ts = 0,
     lf_versions = 0, lf_txn_source = 0, lf_conflict = False, lf_generation = 0\<rparr>"

text \<open>\<open>n\<close> values in a row, stopping at the first that fails.\<close>

fun decode_seq :: "'a decoder \<Rightarrow> nat \<Rightarrow> 'a list decoder" where
  "decode_seq d 0 b = Inr ([], b)"
| "decode_seq d (Suc n) b =
    rbind (d b) (\<lambda>(x, b). rmap (\<lambda>(xs, b). (x # xs, b)) (decode_seq d n b))"

definition parse_lock_field ::
  "lock_fields \<Rightarrow> byte \<Rightarrow> bytes \<Rightarrow> txn_error + (lock_fields \<times> bytes) option" where
  "parse_lock_field f tag b =
    (if tag = SHORT_VALUE_PREFIX then
       rmap (\<lambda>(v, b). Some (f\<lparr>lf_short_value := Some v\<rparr>, b)) (read_short_value TxnIo b)
     else if tag = FOR_UPDATE_TS_PREFIX then
       rmap (\<lambda>(ts, b). Some (f\<lparr>lf_for_update_ts := ts\<rparr>, b)) (map_err TxnCodec (decode_u64 b))
     else if tag = TXN_SIZE_PREFIX then
       rmap (\<lambda>(n, b). Some (f\<lparr>lf_txn_size := n\<rparr>, b)) (map_err TxnCodec (decode_u64 b))
     else if tag = MIN_COMMIT_TS_PREFIX then
       rmap (\<lambda>(ts, b). Some (f\<lparr>lf_min_commit_ts := ts\<rparr>, b)) (map_err TxnCodec (decode_u64 b))
     else if tag = ASYNC_COMMIT_PREFIX then
       rbind (map_err TxnCodec (decode_var_u64 b)) (\<lambda>(len, b).
         rmap (\<lambda>(ks, b). Some (f\<lparr>lf_use_async_commit := True, lf_secondaries := ks\<rparr>, b))
           (map_err TxnCodec (decode_seq decode_compact_bytes (unat len) b)))
     else if tag = ROLLBACK_TS_PREFIX then
       rbind (map_err TxnCodec (decode_var_u64 b)) (\<lambda>(len, b).
         rmap (\<lambda>(ts, b). Some (f\<lparr>lf_rollback_ts := ts\<rparr>, b))
           (map_err TxnCodec (decode_seq decode_u64 (unat len) b)))
     else if tag = LAST_CHANGE_PREFIX then
       rbind (map_err TxnCodec (decode_u64 b)) (\<lambda>(ts, b).
         rmap (\<lambda>(n, b). Some (f\<lparr>lf_last_change_ts := ts, lf_versions := n\<rparr>, b))
           (map_err TxnCodec (decode_var_u64 b)))
     else if tag = LOCK_TXN_SOURCE_PREFIX then
       rmap (\<lambda>(src, b). Some (f\<lparr>lf_txn_source := src\<rparr>, b)) (map_err TxnCodec (decode_var_u64 b))
     else if tag = PESSIMISTIC_LOCK_WITH_CONFLICT_PREFIX then
       Inr (Some (f\<lparr>lf_conflict := True\<rparr>, b))
     else if tag = GENERATION_PREFIX then
       rmap (\<lambda>(g, b). Some (f\<lparr>lf_generation := g\<rparr>, b)) (map_err TxnCodec (decode_u64 b))
     else Inr None)"

lemma decode_seq_length:
  assumes "\<And>b x r. d b = Inr (x, r) \<Longrightarrow> length r \<le> length b"
  shows "decode_seq d n b = Inr (xs, r) \<Longrightarrow> length r \<le> length b"
proof (induction n arbitrary: b xs)
  case (Suc n)
  then obtain x b' ys where "d b = Inr (x, b')" "decode_seq d n b' = Inr (ys, r)"
    by (auto simp: rbind_Inr_iff rmap_Inr_iff)
  with assms [of b x b'] Suc.IH [of b' ys] show ?case by simp
qed simp

lemma decode_compact_bytes_length: "decode_compact_bytes b = Inr (v, r) \<Longrightarrow> length r \<le> length b"
  by (auto simp: decode_compact_bytes_def decode_var_i64_def rbind_Inr_iff rmap_Inr_iff
      split: if_splits dest!: decode_var_u64_length)

lemma decode_seq_u64_length: "decode_seq decode_u64 n b = Inr (v, r) \<Longrightarrow> length r \<le> length b"
  by (rule decode_seq_length) (auto dest: decode_u64_length)

lemma decode_seq_compact_length:
  "decode_seq decode_compact_bytes n b = Inr (v, r) \<Longrightarrow> length r \<le> length b"
  by (rule decode_seq_length) (auto dest: decode_compact_bytes_length)

lemma parse_lock_field_length:
  "parse_lock_field f tag b = Inr (Some (f', r)) \<Longrightarrow> length r \<le> length b"
  by (auto simp: parse_lock_field_def rmap_Inr_iff rbind_Inr_iff map_err_Inr_iff split: if_splits
      dest!: read_short_value_length decode_u64_length decode_var_u64_length
        decode_seq_u64_length decode_seq_compact_length)

function parse_lock_loop :: "lock_fields \<Rightarrow> bytes \<Rightarrow> txn_error + lock_fields" where
  "parse_lock_loop f [] = Inr f"
| "parse_lock_loop f (tag # b) =
    rbind (parse_lock_field f tag b) (\<lambda>r.
      case r of None \<Rightarrow> Inr f | Some (f, b) \<Rightarrow> parse_lock_loop f b)"
  by pat_completeness auto

termination parse_lock_loop
  by (relation "measure (\<lambda>(f, b). length b)") (auto dest: parse_lock_field_length)

definition lock_of_fields ::
  "lock_type \<Rightarrow> bytes \<Rightarrow> timestamp \<Rightarrow> u64 \<Rightarrow> lock_fields \<Rightarrow> txn_error + lock_rec" where
  "lock_of_fields tp primary ts ttl f =
    (case from_parts (lf_last_change_ts f) (lf_versions f) of
       None \<Rightarrow> Inl TxnPanic
     | Some lc \<Rightarrow>
       let l = lock_new tp primary ts ttl (lf_short_value f) (lf_for_update_ts f) (lf_txn_size f)
             (lf_min_commit_ts f) (lf_conflict f);
           l = with_generation (lf_generation f) (with_rollback_ts (lf_rollback_ts f)
             (lock_set_txn_source (lf_txn_source f) (lock_set_last_change lc l)))
       in Inr (if lf_use_async_commit f then use_async_commit (lf_secondaries f) l else l))"

definition parse_lock :: "bytes \<Rightarrow> txn_error + lock_rec" where
  "parse_lock b =
    (case b of
       [] \<Rightarrow> Inl BadFormatLock
     | t # b \<Rightarrow>
       (case lock_type_from_u8 t of
          None \<Rightarrow> Inl BadFormatLock
        | Some tp \<Rightarrow>
          rbind (map_err TxnCodec (decode_compact_bytes b)) (\<lambda>(primary, b).
          rbind (map_err TxnCodec (decode_var_u64 b)) (\<lambda>(ts, b).
          rbind (if b = [] then Inr (0, b) else map_err TxnCodec (decode_var_u64 b)) (\<lambda>(ttl, b).
            if b = [] then Inr (lock_new tp primary ts ttl None 0 0 0 False)
            else rbind (parse_lock_loop lock_fields_init b) (lock_of_fields tp primary ts ttl))))))"

section \<open>Checking a read against a lock\<close>

definition is_pessimistic_txn :: "lock_rec \<Rightarrow> bool" where
  "is_pessimistic_txn l = (lk_for_update_ts l \<noteq> 0)"

definition is_pessimistic_lock :: "lock_rec \<Rightarrow> bool" where
  "is_pessimistic_lock l = (lk_type l = LkPessimistic)"

definition is_pessimistic_lock_with_conflict :: "lock_rec \<Rightarrow> bool" where
  "is_pessimistic_lock_with_conflict l = (is_pessimistic_lock l \<and> lk_is_locked_with_conflict l)"

text \<open>The fields of \<open>LockInfo\<close> the client gets.\<close>

record lock_info =
  li_primary :: bytes
  li_version :: u64
  li_key :: bytes
  li_ttl :: u64
  li_txn_size :: u64
  li_type :: lock_type
  li_for_update_ts :: u64
  li_use_async_commit :: bool
  li_min_commit_ts :: u64
  li_secondaries :: "bytes list"

definition into_lock_info :: "lock_rec \<Rightarrow> bytes \<Rightarrow> lock_info" where
  "into_lock_info l raw_key =
    \<lparr>li_primary = lk_primary l, li_version = lk_ts l, li_key = raw_key, li_ttl = lk_ttl l,
     li_txn_size = lk_txn_size l, li_type = lk_type l, li_for_update_ts = lk_for_update_ts l,
     li_use_async_commit = lk_use_async_commit l, li_min_commit_ts = lk_min_commit_ts l,
     li_secondaries = lk_secondaries l\<rparr>"

datatype conflict_error =
    ConflictCodec codec_error
  | KeyIsLocked lock_info
  | WriteConflict timestamp timestamp timestamp bytes bytes
  | ConflictPanic \<comment> \<open>\<open>unreachable!()\<close>\<close>

datatype isolation_level = IsoSi | IsoRc | IsoRcCheckTs

definition check_ts_conflict_si ::
  "lock_rec \<Rightarrow> key \<Rightarrow> timestamp \<Rightarrow> ts_set \<Rightarrow> bool \<Rightarrow> conflict_error + unit" where
  "check_ts_conflict_si l k ts bypass_locks is_replica_read =
    (if lk_ts l > ts \<or> lk_type l = LkLock \<or> is_pessimistic_lock l then Inr ()
     else if lk_min_commit_ts l > ts then Inr ()
     else if ts_set_contains bypass_locks (lk_ts l) then Inr ()
     else rbind (map_err ConflictCodec (to_raw k)) (\<lambda>raw_key.
       if ts = - 1 \<and> is_replica_read then Inl (KeyIsLocked (into_lock_info l raw_key))
       else if ts = - 1 \<and> raw_key = lk_primary l \<and> \<not> lk_use_async_commit l \<and> \<not> lk_use_one_pc l
       then Inr ()
       else Inl (KeyIsLocked (into_lock_info l raw_key))))"

definition check_ts_conflict_rc_check_ts ::
  "lock_rec \<Rightarrow> key \<Rightarrow> timestamp \<Rightarrow> ts_set \<Rightarrow> conflict_error + unit" where
  "check_ts_conflict_rc_check_ts l k ts bypass_locks =
    (if lk_type l = LkLock \<or> is_pessimistic_lock l then Inr ()
     else if ts_set_contains bypass_locks (lk_ts l) then Inr ()
     else rbind (map_err ConflictCodec (to_raw k)) (\<lambda>raw_key.
       Inl (WriteConflict ts (lk_ts l) 0 raw_key (lk_primary l))))"

fun check_ts_conflict ::
  "lock_rec \<Rightarrow> key \<Rightarrow> timestamp \<Rightarrow> ts_set \<Rightarrow> isolation_level \<Rightarrow> conflict_error + unit" where
  "check_ts_conflict l k ts bypass_locks IsoSi = check_ts_conflict_si l k ts bypass_locks False"
| "check_ts_conflict l k ts bypass_locks IsoRcCheckTs =
    check_ts_conflict_rc_check_ts l k ts bypass_locks"
| "check_ts_conflict l k ts bypass_locks IsoRc = Inr ()"

fun check_ts_conflict_for_replica_read ::
  "lock_rec \<Rightarrow> key \<Rightarrow> timestamp \<Rightarrow> ts_set \<Rightarrow> isolation_level \<Rightarrow> conflict_error + unit" where
  "check_ts_conflict_for_replica_read l k ts bypass_locks IsoSi =
    check_ts_conflict_si l k ts bypass_locks True"
| "check_ts_conflict_for_replica_read l k ts bypass_locks IsoRcCheckTs = Inl ConflictPanic"
| "check_ts_conflict_for_replica_read l k ts bypass_locks IsoRc = Inr ()"

record pessimistic_lock =
  pl_primary :: bytes
  pl_start_ts :: timestamp
  pl_ttl :: u64
  pl_for_update_ts :: timestamp
  pl_min_commit_ts :: timestamp
  pl_last_change :: last_change
  pl_is_locked_with_conflict :: bool

definition to_lock :: "pessimistic_lock \<Rightarrow> lock_rec" where
  "to_lock p =
    lock_set_last_change (pl_last_change p)
      (lock_new LkPessimistic (pl_primary p) (pl_start_ts p) (pl_ttl p) None (pl_for_update_ts p) 0
        (pl_min_commit_ts p) (pl_is_locked_with_conflict p))"

datatype txn_lock_ref = InMemory pessimistic_lock | Persisted lock_rec

fun get_start_ts :: "txn_lock_ref \<Rightarrow> timestamp" where
  "get_start_ts (InMemory p) = pl_start_ts p"
| "get_start_ts (Persisted l) = lk_ts l"

fun get_for_update_ts :: "txn_lock_ref \<Rightarrow> timestamp" where
  "get_for_update_ts (InMemory p) = pl_for_update_ts p"
| "get_for_update_ts (Persisted l) = lk_for_update_ts l"

fun get_lock_type :: "txn_lock_ref \<Rightarrow> lock_type" where
  "get_lock_type (InMemory p) = LkPessimistic"
| "get_lock_type (Persisted l) = lk_type l"

section \<open>The byte format\<close>

lemmas lock_tags = FLAG_PESSIMISTIC_def FOR_UPDATE_TS_PREFIX_def TXN_SIZE_PREFIX_def
  MIN_COMMIT_TS_PREFIX_def ASYNC_COMMIT_PREFIX_def ROLLBACK_TS_PREFIX_def
  LOCK_TXN_SOURCE_PREFIX_def PESSIMISTIC_LOCK_WITH_CONFLICT_PREFIX_def GENERATION_PREFIX_def

lemmas lock_builders = lock_new_def use_async_commit_def with_rollback_ts_def
  lock_set_last_change_def lock_set_txn_source_def with_generation_def

text \<open>The locks the storage layer writes: sizes within the format's limits, one-phase commit never
  persisted and secondaries only on async-commit locks.\<close>

definition lock_wf :: "lock_rec \<Rightarrow> bool" where
  "lock_wf l \<longleftrightarrow>
    (case lk_short_value l of None \<Rightarrow> True | Some v \<Rightarrow> is_short_value v)
    \<and> last_change_ok (lk_last_change l)
    \<and> length (lk_primary l) < 2 ^ 63
    \<and> length (lk_secondaries l) < 2 ^ 64 \<and> (\<forall>k \<in> set (lk_secondaries l). length k < 2 ^ 63)
    \<and> length (lk_rollback_ts l) < 2 ^ 64
    \<and> \<not> lk_use_one_pc l
    \<and> (\<not> lk_use_async_commit l \<longrightarrow> lk_secondaries l = [])"

definition lock_tag :: "byte \<Rightarrow> bool" where
  "lock_tag t = (t \<in> {SHORT_VALUE_PREFIX, FOR_UPDATE_TS_PREFIX, TXN_SIZE_PREFIX,
    MIN_COMMIT_TS_PREFIX, ASYNC_COMMIT_PREFIX, ROLLBACK_TS_PREFIX, LAST_CHANGE_PREFIX,
    LOCK_TXN_SOURCE_PREFIX, PESSIMISTIC_LOCK_WITH_CONFLICT_PREFIX, GENERATION_PREFIX})"

context prefix_codec
begin

lemma decode_seq_enc:
  assumes "\<forall>x \<in> set xs. valid x"
  shows "decode_seq dec (length xs) (concat (map enc xs) @ rest) = Inr (xs, rest)"
  using assms by (induction xs) (simp_all add: dec_enc)

end

lemma lock_type_round_trip [simp]: "lock_type_from_u8 (lock_type_to_u8 tp) = Some tp"
  by (cases tp) (simp_all add: lock_type_from_u8_def write_tags lock_tags)

lemma parse_lock_loop_steps:
  "length v \<le> 255 \<Longrightarrow> parse_lock_loop f (SHORT_VALUE_PREFIX # of_nat (length v) # v @ b)
    = parse_lock_loop (f\<lparr>lf_short_value := Some v\<rparr>) b"
  "parse_lock_loop f (FOR_UPDATE_TS_PREFIX # encode_u64 n @ b)
    = parse_lock_loop (f\<lparr>lf_for_update_ts := n\<rparr>) b"
  "parse_lock_loop f (TXN_SIZE_PREFIX # encode_u64 n @ b)
    = parse_lock_loop (f\<lparr>lf_txn_size := n\<rparr>) b"
  "parse_lock_loop f (MIN_COMMIT_TS_PREFIX # encode_u64 n @ b)
    = parse_lock_loop (f\<lparr>lf_min_commit_ts := n\<rparr>) b"
  "length ks < 2 ^ 64 \<Longrightarrow> \<forall>k \<in> set ks. length k < 2 ^ 63 \<Longrightarrow>
    parse_lock_loop f (ASYNC_COMMIT_PREFIX # encode_var_u64 (of_nat (length ks)) @
      concat (map encode_compact_bytes ks) @ b)
    = parse_lock_loop (f\<lparr>lf_use_async_commit := True, lf_secondaries := ks\<rparr>) b"
  "length ts < 2 ^ 64 \<Longrightarrow>
    parse_lock_loop f (ROLLBACK_TS_PREFIX # encode_var_u64 (of_nat (length ts)) @
      concat (map encode_u64 ts) @ b)
    = parse_lock_loop (f\<lparr>lf_rollback_ts := ts\<rparr>) b"
  "parse_lock_loop f (LAST_CHANGE_PREFIX # encode_u64 t @ encode_var_u64 n @ b)
    = parse_lock_loop (f\<lparr>lf_last_change_ts := t, lf_versions := n\<rparr>) b"
  "parse_lock_loop f (LOCK_TXN_SOURCE_PREFIX # encode_var_u64 n @ b)
    = parse_lock_loop (f\<lparr>lf_txn_source := n\<rparr>) b"
  "parse_lock_loop f (PESSIMISTIC_LOCK_WITH_CONFLICT_PREFIX # b)
    = parse_lock_loop (f\<lparr>lf_conflict := True\<rparr>) b"
  "parse_lock_loop f (GENERATION_PREFIX # encode_u64 n @ b)
    = parse_lock_loop (f\<lparr>lf_generation := n\<rparr>) b"
  using compact.decode_seq_enc [of ks b] u64.decode_seq_enc [of ts b]
  by (simp_all add: parse_lock_field_def write_tags lock_tags unat_of_nat)

lemma parse_lock_loop_unknown:
  "rest = [] \<or> \<not> lock_tag (hd rest) \<Longrightarrow> parse_lock_loop f rest = Inr f"
  by (cases rest) (auto simp: parse_lock_field_def lock_tag_def)

declare parse_lock_loop.simps(2) [simp del]


text \<open>Each optional field, absent or present, sets its variable.\<close>

lemma parse_opt_short_value:
  "lf_short_value f = None \<Longrightarrow> (\<And>v. sv = Some v \<Longrightarrow> length v \<le> 255) \<Longrightarrow>
    parse_lock_loop f ((case sv of None \<Rightarrow> [] | Some v \<Rightarrow> [SHORT_VALUE_PREFIX, of_nat (length v)] @ v) @ b)
    = parse_lock_loop (f\<lparr>lf_short_value := sv\<rparr>) b"
  by (cases f; cases sv) (simp_all add: parse_lock_loop_steps)

lemma parse_opt_for_update_ts:
  "lf_for_update_ts f = 0 \<Longrightarrow>
    parse_lock_loop f ((if n \<noteq> 0 then [FOR_UPDATE_TS_PREFIX] @ encode_u64 n else []) @ b)
    = parse_lock_loop (f\<lparr>lf_for_update_ts := n\<rparr>) b"
  by (cases f) (simp add: parse_lock_loop_steps)

lemma parse_opt_txn_size:
  "lf_txn_size f = 0 \<Longrightarrow>
    parse_lock_loop f ((if n > 0 then [TXN_SIZE_PREFIX] @ encode_u64 n else []) @ b)
    = parse_lock_loop (f\<lparr>lf_txn_size := n\<rparr>) b"
  by (cases f) (simp add: parse_lock_loop_steps word_gt_0)

lemma parse_opt_min_commit_ts:
  "lf_min_commit_ts f = 0 \<Longrightarrow>
    parse_lock_loop f ((if n \<noteq> 0 then [MIN_COMMIT_TS_PREFIX] @ encode_u64 n else []) @ b)
    = parse_lock_loop (f\<lparr>lf_min_commit_ts := n\<rparr>) b"
  by (cases f) (simp add: parse_lock_loop_steps)

lemma parse_opt_secondaries:
  "lf_use_async_commit f = False \<Longrightarrow> lf_secondaries f = [] \<Longrightarrow> length ks < 2 ^ 64 \<Longrightarrow>
    \<forall>k \<in> set ks. length k < 2 ^ 63 \<Longrightarrow> (\<not> ac \<Longrightarrow> ks = []) \<Longrightarrow>
    parse_lock_loop f ((if ac then [ASYNC_COMMIT_PREFIX] @ encode_var_u64 (of_nat (length ks)) @
      concat (map encode_compact_bytes ks) else []) @ b)
    = parse_lock_loop (f\<lparr>lf_use_async_commit := ac, lf_secondaries := ks\<rparr>) b"
  by (cases f) (simp add: parse_lock_loop_steps)

lemma parse_opt_rollback_ts:
  "lf_rollback_ts f = [] \<Longrightarrow> length ts < 2 ^ 64 \<Longrightarrow>
    parse_lock_loop f ((if ts \<noteq> [] then [ROLLBACK_TS_PREFIX] @
      encode_var_u64 (of_nat (length ts)) @ concat (map encode_u64 ts) else []) @ b)
    = parse_lock_loop (f\<lparr>lf_rollback_ts := ts\<rparr>) b"
  by (cases f) (simp add: parse_lock_loop_steps)

lemma parse_opt_last_change:
  "lf_last_change_ts f = 0 \<Longrightarrow> lf_versions f = 0 \<Longrightarrow>
    parse_lock_loop f ((if last_change_stored lc then
      let (t, n) = to_parts lc in [LAST_CHANGE_PREFIX] @ encode_u64 t @ encode_var_u64 n else []) @ b)
    = parse_lock_loop (f\<lparr>lf_last_change_ts := fst (to_parts lc), lf_versions := snd (to_parts lc)\<rparr>) b"
  by (cases f; cases lc) (simp_all add: parse_lock_loop_steps)

lemma parse_opt_txn_source:
  "lf_txn_source f = 0 \<Longrightarrow>
    parse_lock_loop f ((if n \<noteq> 0 then [LOCK_TXN_SOURCE_PREFIX] @ encode_var_u64 n else []) @ b)
    = parse_lock_loop (f\<lparr>lf_txn_source := n\<rparr>) b"
  by (cases f) (simp add: parse_lock_loop_steps)

lemma parse_opt_conflict:
  "lf_conflict f = False \<Longrightarrow>
    parse_lock_loop f ((if c then [PESSIMISTIC_LOCK_WITH_CONFLICT_PREFIX] else []) @ b)
    = parse_lock_loop (f\<lparr>lf_conflict := c\<rparr>) b"
  by (cases f) (simp add: parse_lock_loop_steps)

lemma parse_opt_generation:
  "lf_generation f = 0 \<Longrightarrow>
    parse_lock_loop f ((if n > 0 then [GENERATION_PREFIX] @ encode_u64 n else []) @ b)
    = parse_lock_loop (f\<lparr>lf_generation := n\<rparr>) b"
  by (cases f) (simp add: parse_lock_loop_steps word_gt_0)

lemmas parse_lock_opt_steps = parse_opt_short_value parse_opt_for_update_ts parse_opt_txn_size parse_opt_min_commit_ts parse_opt_secondaries
  parse_opt_rollback_ts parse_opt_last_change parse_opt_txn_source parse_opt_conflict parse_opt_generation

lemma parse_lock_tail:
  "(if b = [] then Inr (lock_new tp primary ts ttl None 0 0 0 False)
    else rbind (parse_lock_loop lock_fields_init b) (lock_of_fields tp primary ts ttl))
    = rbind (parse_lock_loop lock_fields_init b) (lock_of_fields tp primary ts ttl)"
  by (simp add: lock_of_fields_def lock_fields_init_def from_parts_zero lock_builders)

definition lock_fields_of :: "lock_rec \<Rightarrow> lock_fields" where
  "lock_fields_of l =
    \<lparr>lf_short_value = lk_short_value l, lf_for_update_ts = lk_for_update_ts l,
     lf_txn_size = lk_txn_size l, lf_min_commit_ts = lk_min_commit_ts l,
     lf_use_async_commit = lk_use_async_commit l, lf_secondaries = lk_secondaries l,
     lf_rollback_ts = lk_rollback_ts l, lf_last_change_ts = fst (to_parts (lk_last_change l)),
     lf_versions = snd (to_parts (lk_last_change l)), lf_txn_source = lk_txn_source l,
     lf_conflict = lk_is_locked_with_conflict l, lf_generation = lk_generation l\<rparr>"

lemma lock_of_fields_of: "lock_wf l \<Longrightarrow>
  lock_of_fields (lk_type l) (lk_primary l) (lk_ts l) (lk_ttl l) (lock_fields_of l) = Inr l"
  by (cases l) (simp add: lock_of_fields_def lock_fields_of_def lock_builders lock_wf_def Let_def)

lemma parse_lock_loop_tagged:
  assumes "lock_wf l" and "rest = [] \<or> \<not> lock_tag (hd rest)"
  shows "parse_lock_loop lock_fields_init (lock_tagged_bytes l @ rest) = Inr (lock_fields_of l)"
proof -
  have sv: "length v \<le> 255" if "lk_short_value l = Some v" for v
    using assms(1) that by (auto simp: lock_wf_def is_short_value_def SHORT_VALUE_MAX_LEN_def)
  have wf: "length (lk_secondaries l) < 2 ^ 64" "\<forall>k \<in> set (lk_secondaries l). length k < 2 ^ 63"
    "length (lk_rollback_ts l) < 2 ^ 64" "\<not> lk_use_async_commit l \<Longrightarrow> lk_secondaries l = []"
    using assms(1) by (simp_all add: lock_wf_def)
  show ?thesis unfolding lock_tagged_bytes_def lock_fields_of_def lock_fields_init_def append_assoc
    by (simp only: parse_lock_opt_steps parse_opt_secondaries [OF _ _ wf(1,2,4)] sv wf(3)
        lock_fields.simps simp_thms parse_lock_loop_unknown [OF assms(2)])
qed

lemma parse_lock_to_bytes:
  assumes "lock_wf l" and "rest = [] \<or> \<not> lock_tag (hd rest)"
  shows "parse_lock (lock_to_bytes l @ rest) = Inr l"
proof -
  have "length (lk_primary l) < 2 ^ 63" using assms(1) by (simp add: lock_wf_def)
  then have "parse_lock (lock_to_bytes l @ rest) =
      rbind (parse_lock_loop lock_fields_init (lock_tagged_bytes l @ rest))
        (lock_of_fields (lk_type l) (lk_primary l) (lk_ts l) (lk_ttl l))"
    unfolding lock_to_bytes_def parse_lock_def parse_lock_tail by (simp add: compact.dec_enc)
  then show ?thesis
    using parse_lock_loop_tagged [OF assms] lock_of_fields_of [OF assms(1)] by simp
qed


lemma encode_compact_bytes_size: "length (encode_compact_bytes k) \<le> MAX_VAR_U64_LEN + length k"
  using encode_var_u64_max_len by (simp add: encode_compact_bytes_def encode_var_i64_def Let_def)

lemma encode_secondaries_size:
  "length (concat (map encode_compact_bytes ks)) \<le> sum_list (map (\<lambda>k. MAX_VAR_U64_LEN + length k) ks)"
proof (induction ks)
  case (Cons k ks)
  then show ?case using encode_compact_bytes_size [of k] by simp
qed simp

lemma length_concat_encode_u64: "length (concat (map encode_u64 ts)) = 8 * length ts"
  by (induction ts) auto

lemma lock_part_sizes:
  "length (case sv of None \<Rightarrow> [] | Some v \<Rightarrow> [SHORT_VALUE_PREFIX, of_nat (length v)] @ v)
    = (case sv of None \<Rightarrow> 0 | Some v \<Rightarrow> 2 + length v)"
  "length (if c then [t] @ encode_u64 n else []) = (if c then 1 + 8 else 0)"
  "length (if c then [t :: byte] else []) = (if c then 1 else 0)"
  "length (if c then [t] @ encode_var_u64 n else []) \<le> (if c then 1 + MAX_VAR_U64_LEN else 0)"
  "length (if c then [t] @ encode_var_u64 n @ concat (map encode_compact_bytes ks) else [])
    \<le> (if c then 1 + MAX_VAR_U64_LEN + sum_list (map (\<lambda>k. MAX_VAR_U64_LEN + length k) ks) else 0)"
  "length (if c then [t] @ encode_var_u64 n @ concat (map encode_u64 ts) else [])
    \<le> (if c then 1 + MAX_VAR_U64_LEN + 8 * length ts else 0)"
  "length (if c then let (x, y) = p in [t] @ encode_u64 x @ encode_var_u64 y else [])
    \<le> (if c then 1 + 8 + MAX_VAR_U64_LEN else 0)"
  using encode_var_u64_max_len [of n] encode_var_u64_max_len [of "snd p"] encode_secondaries_size [of ks]
  by (auto simp: length_concat_encode_u64 split: option.splits prod.splits)

lemma lock_to_bytes_size: "length (lock_to_bytes l) \<le> lock_pre_allocate_size l"
  unfolding lock_to_bytes_def lock_tagged_bytes_def lock_pre_allocate_size_def length_append
    lock_part_sizes(1,2,3)
  using encode_compact_bytes_size [of "lk_primary l"] encode_var_u64_max_len [of "lk_ts l"]
    encode_var_u64_max_len [of "lk_ttl l"]
    lock_part_sizes(4) [of "lk_txn_source l \<noteq> 0" LOCK_TXN_SOURCE_PREFIX "lk_txn_source l"]
    lock_part_sizes(5) [of "lk_use_async_commit l" ASYNC_COMMIT_PREFIX
      "of_nat (length (lk_secondaries l))" "lk_secondaries l"]
    lock_part_sizes(6) [of "lk_rollback_ts l \<noteq> []" ROLLBACK_TS_PREFIX
      "of_nat (length (lk_rollback_ts l))" "lk_rollback_ts l"]
    lock_part_sizes(7) [of "last_change_stored (lk_last_change l)"
      "to_parts (lk_last_change l)" LAST_CHANGE_PREFIX]
  by (simp only: list.size)

section \<open>Properties\<close>

text \<open>C12: lock records survive storage.  Parsing the stored bytes of a lock gives the lock back with
  every field, secondaries and rollback timestamps included, also when unknown trailing fields
  follow; the serialized form fits the pre-allocated buffer.\<close>

theorem lock_record_round_trip:
  assumes "lock_wf l" and "rest = [] \<or> \<not> lock_tag (hd rest)"
  shows "parse_lock (lock_to_bytes l @ rest) = Inr l
    \<and> length (lock_to_bytes l) \<le> lock_pre_allocate_size l"
  using parse_lock_to_bytes [OF assms] lock_to_bytes_size by simp

definition lock_example :: lock_rec where
  "lock_example = use_async_commit [[1], [2, 3]] (with_rollback_ts [4, 5]
    (lock_set_last_change LcNotExist (lock_new LkPut [7] 100 300 (Some [9]) 101 2 102 False)))"

theorem lock_record_round_trip_witness:
  "parse_lock (lock_to_bytes lock_example @ [0x7a]) = Inr lock_example"
  using lock_record_round_trip [of lock_example "[0x7a]"]
  by (simp add: lock_example_def lock_builders lock_wf_def lock_tag_def write_tags lock_tags
      is_short_value_def SHORT_VALUE_MAX_LEN_def)

text \<open>A snapshot read is blocked exactly by the locks that may still commit at or below its
  timestamp: value locks (not \<open>Lock\<close> and not pessimistic) started and allowed to commit no later
  than \<open>ts\<close> that are not bypassed, with the one exception of a read of the latest version that meets
  the primary lock of a transaction whose commit point is the primary key itself.\<close>

lemma snapshot_read_blocked_iff:
  "check_ts_conflict l (from_raw raw) ts bypass_locks IsoSi \<noteq> Inr () \<longleftrightarrow>
    (lk_type l = LkPut \<or> lk_type l = LkDelete)
    \<and> lk_ts l \<le> ts \<and> lk_min_commit_ts l \<le> ts \<and> \<not> ts_set_contains bypass_locks (lk_ts l)
    \<and> \<not> (is_max ts \<and> raw = lk_primary l \<and> \<not> lk_use_async_commit l \<and> \<not> lk_use_one_pc l)"
  by (cases "lk_type l")
    (auto simp: check_ts_conflict_si_def is_pessimistic_lock_def is_max_def not_less)

end
