(* ===== verification/PcrEvents.thy ===== *)
theory PcrEvents
  imports LockRecord
begin

text \<open>
  The replication stream's events (the messages of \<open>proto/pcrpb/pcrpb.proto\<close>, with the Rust
  structs of \<open>stream-ingest/src/pcrpb_gen/pcrpb_stub.rs\<close>) and the three small producer components of
  \<open>components/cdc/src\<close>: the event batcher (\<open>pcr_event_batcher.rs\<close>), the span registry
  (\<open>pcr_registry.rs\<close>) and the decoding of commit records into logical mutations
  (\<open>logical_mutation.rs\<close>).  The protobuf wire format is a type variable \<open>'w\<close> with its encoder \<open>ser\<close> a parameter of the
  operations that serialize, the clock a parameter \<open>now\<close> in milliseconds; byte counts are natural numbers.
\<close>

section \<open>Events\<close>

datatype op_type = OpPut | OpDelete

record pcr_kv =
  kv_key :: bytes
  kv_value :: bytes
  kv_op :: op_type
  kv_cf :: string

datatype pcr_payload =
    KvBatch "pcr_kv list"
  | SstChunk bytes bytes bytes u64
  | Checkpoint u64 "u64 list"
  | DeleteRange bytes bytes u64
  | SplitNotice bytes "u64 list"

record pcr_event =
  ev_stream_seq :: u64
  ev_payload :: "pcr_payload option"
  ev_is_snapshot :: bool

definition mk_kv :: "bytes \<Rightarrow> bytes \<Rightarrow> op_type \<Rightarrow> string \<Rightarrow> pcr_kv" where
  "mk_kv k v op cf = \<lparr>kv_key = k, kv_value = v, kv_op = op, kv_cf = cf\<rparr>"

definition mk_event :: "pcr_payload \<Rightarrow> pcr_event" where
  "mk_event p = \<lparr>ev_stream_seq = 0, ev_payload = Some p, ev_is_snapshot = False\<rparr>"

definition snapshot_event :: "pcr_kv list \<Rightarrow> pcr_event" where
  "snapshot_event kvs = (mk_event (KvBatch kvs))\<lparr>ev_is_snapshot := True\<rparr>"

definition kv_bytes :: "pcr_kv \<Rightarrow> nat" where
  "kv_bytes kv = length (kv_key kv) + length (kv_value kv)"

definition event_kvs :: "pcr_event \<Rightarrow> pcr_kv list" where
  "event_kvs e = (case ev_payload e of Some (KvBatch kvs) \<Rightarrow> kvs | _ \<Rightarrow> [])"

lemma event_kvs_update [simp]:
  "event_kvs (e\<lparr>ev_stream_seq := s\<rparr>) = event_kvs e"
  "event_kvs (e\<lparr>ev_is_snapshot := b\<rparr>) = event_kvs e"
  by (simp_all add: event_kvs_def)

lemma event_kvs_mk_event [simp]: "event_kvs (mk_event (KvBatch kvs)) = kvs"
  by (simp add: event_kvs_def mk_event_def)

section \<open>The event batcher\<close>

definition DEFAULT_BATCH_BYTE_SIZE :: nat where
  "DEFAULT_BATCH_BYTE_SIZE = 1 * 1024 * 1024"

definition DEFAULT_FLUSH_INTERVAL_MS :: nat where
  "DEFAULT_FLUSH_INTERVAL_MS = 150"

record event_batcher =
  eb_batch :: "pcr_kv list"
  eb_size :: nat
  eb_batch_byte_size :: nat
  eb_seq_num :: u64
  eb_last_flush :: nat
  eb_flush_interval_ms :: nat

definition batcher_new :: "nat \<Rightarrow> nat \<Rightarrow> nat \<Rightarrow> event_batcher" where
  "batcher_new now batch_byte_size flush_interval_ms =
    \<lparr>eb_batch = [], eb_size = 0, eb_batch_byte_size = batch_byte_size, eb_seq_num = 0,
     eb_last_flush = now, eb_flush_interval_ms = flush_interval_ms\<rparr>"

definition batcher_default :: "nat \<Rightarrow> event_batcher" where
  "batcher_default now = batcher_new now DEFAULT_BATCH_BYTE_SIZE DEFAULT_FLUSH_INTERVAL_MS"

definition batcher_add_kv :: "bytes \<Rightarrow> bytes \<Rightarrow> op_type \<Rightarrow> string \<Rightarrow> event_batcher \<Rightarrow> event_batcher" where
  "batcher_add_kv k v op cf b =
    b\<lparr>eb_size := eb_size b + (length k + length v), eb_batch := eb_batch b @ [mk_kv k v op cf]\<rparr>"

definition batcher_should_flush :: "nat \<Rightarrow> event_batcher \<Rightarrow> bool" where
  "batcher_should_flush now b =
    (eb_size b \<ge> eb_batch_byte_size b
     \<or> eb_flush_interval_ms b > 0 \<and> eb_size b > 0
       \<and> now - eb_last_flush b \<ge> eb_flush_interval_ms b)"

text \<open>The batch leaves the batcher before it is serialized; \<open>ser\<close> is protobuf's encoder.\<close>

definition batcher_flush ::
  "(pcr_event \<Rightarrow> 'w option) \<Rightarrow> nat \<Rightarrow> event_batcher \<Rightarrow> 'w option \<times> event_batcher" where
  "batcher_flush ser now b =
    (if eb_batch b = [] then (None, b)
     else
       let seq = eb_seq_num b + 1;
           event = (mk_event (KvBatch (eb_batch b)))\<lparr>ev_stream_seq := seq\<rparr>
       in (ser event, b\<lparr>eb_seq_num := seq, eb_batch := [], eb_size := 0, eb_last_flush := now\<rparr>))"

definition batcher_next_seq :: "event_batcher \<Rightarrow> u64" where
  "batcher_next_seq b = eb_seq_num b + 1"

section \<open>The span registry\<close>

type_synonym sink_id = nat

record span_subscription =
  ss_start_key :: bytes
  ss_end_key :: bytes
  ss_sink :: sink_id
  ss_buffer_size :: nat
  ss_flush_interval_ms :: nat

type_synonym pcr_registry = "span_subscription list"

definition registry_register :: "span_subscription \<Rightarrow> pcr_registry \<Rightarrow> pcr_registry" where
  "registry_register sub reg = reg @ [sub]"

definition span_matches :: "span_subscription \<Rightarrow> bytes \<Rightarrow> bytes \<Rightarrow> bool" where
  "span_matches sub r_start r_end =
    (let left = (ss_start_key sub = [] \<or> r_end = [] \<or> r_end > ss_start_key sub);
         right = (ss_end_key sub = [] \<or> r_start = [] \<or> r_start < ss_end_key sub)
     in left \<and> right)"

fun match_region :: "pcr_registry \<Rightarrow> bytes \<Rightarrow> bytes \<Rightarrow> (sink_id \<times> nat \<times> nat) option" where
  "match_region [] r_start r_end = None"
| "match_region (sub # subs) r_start r_end =
    (if span_matches sub r_start r_end
     then Some (ss_sink sub, ss_buffer_size sub, ss_flush_interval_ms sub)
     else match_region subs r_start r_end)"

definition registry_clear :: "pcr_registry \<Rightarrow> pcr_registry" where
  "registry_clear reg = []"

section \<open>Logical mutations\<close>

datatype logical_mutation =
    LmPut bytes bytes timestamp timestamp "bytes option"
  | LmDelete bytes bytes timestamp timestamp
  | LmRollback bytes bytes timestamp

definition DATA_PREFIX :: byte where
  "DATA_PREFIX = 0x7a"

definition build_default_key :: "bytes \<Rightarrow> timestamp \<Rightarrow> bytes" where
  "build_default_key user_key start_ts = [DATA_PREFIX] @ user_key @ be_bytes 8 (unat (NOT start_ts))"

definition from_write_cf :: "bytes \<Rightarrow> bytes \<Rightarrow> logical_mutation option" where
  "from_write_cf cf_key write_bytes =
    (case parse_write write_bytes of
       Inl e \<Rightarrow> None
     | Inr w \<Rightarrow>
       (case decode_ts_from cf_key of
          Inl e \<Rightarrow> None
        | Inr commit_ts \<Rightarrow>
          (case truncate_ts_for cf_key of
             Inl e \<Rightarrow> None
           | Inr user_key \<Rightarrow>
             let default_key = build_default_key user_key (w_start_ts w) in
             (case w_type w of
                WPut \<Rightarrow> Some (LmPut default_key cf_key (w_start_ts w) commit_ts (w_short_value w))
              | WDelete \<Rightarrow> Some (LmDelete default_key cf_key (w_start_ts w) commit_ts)
              | WRollback \<Rightarrow> Some (LmRollback default_key cf_key (w_start_ts w))
              | WLock \<Rightarrow> None))))"

definition build_data_key :: "bytes \<Rightarrow> bytes" where
  "build_data_key raw_key = [DATA_PREFIX] @ raw_key"

section \<open>The batcher loses nothing\<close>

definition batcher_ok :: "event_batcher \<Rightarrow> bool" where
  "batcher_ok b \<longleftrightarrow> eb_size b = sum_list (map kv_bytes (eb_batch b))"

lemma batcher_new_ok [wf_intros]: "batcher_ok (batcher_new now n ms)"
  by (simp add: batcher_ok_def batcher_new_def)

lemma batcher_add_kv_ok [wf_intros]: "batcher_ok b \<Longrightarrow> batcher_ok (batcher_add_kv k v op cf b)"
  by (simp add: batcher_ok_def batcher_add_kv_def kv_bytes_def mk_kv_def)

lemma batcher_flush_ok [wf_intros]: "batcher_ok b \<Longrightarrow> batcher_ok (snd (batcher_flush ser now b))"
  by (simp add: batcher_ok_def batcher_flush_def Let_def)

text \<open>What a caller does with a batcher: adding pairs and flushing when due, at given times.\<close>

datatype batcher_op = BAdd bytes bytes op_type string | BFlush nat

fun run_batcher ::
  "(pcr_event \<Rightarrow> 'w option) \<Rightarrow> batcher_op list \<Rightarrow> event_batcher \<Rightarrow> 'w list \<times> event_batcher" where
  "run_batcher ser [] b = ([], b)"
| "run_batcher ser (BAdd k v op cf # ops) b = run_batcher ser ops (batcher_add_kv k v op cf b)"
| "run_batcher ser (BFlush now # ops) b =
    (if batcher_should_flush now b then
       let (out, b) = batcher_flush ser now b;
           (outs, b) = run_batcher ser ops b
       in ((case out of None \<Rightarrow> [] | Some bs \<Rightarrow> [bs]) @ outs, b)
     else run_batcher ser ops b)"

definition added_kvs :: "batcher_op list \<Rightarrow> pcr_kv list" where
  "added_kvs ops = concat (map (\<lambda>x. case x of BAdd k v op cf \<Rightarrow> [mk_kv k v op cf] | BFlush _ \<Rightarrow> []) ops)"

lemma added_kvs_simps [simp]:
  "added_kvs [] = []"
  "added_kvs (BAdd k v op cf # ops) = mk_kv k v op cf # added_kvs ops"
  "added_kvs (BFlush now # ops) = added_kvs ops"
  by (simp_all add: added_kvs_def)

lemma run_batcher_complete:
  assumes ser: "\<And>e. \<exists>bs. ser e = Some bs \<and> deser bs = Some e"
  shows "run_batcher ser ops b = (outs, b') \<Longrightarrow>
    \<exists>es. map deser outs = map Some es
      \<and> concat (map event_kvs es) @ eb_batch b' = eb_batch b @ added_kvs ops
      \<and> map ev_stream_seq es = map (\<lambda>i. eb_seq_num b + of_nat (Suc i)) [0..<length es]"
proof (induction ops arbitrary: b outs)
  case Nil
  then show ?case by simp
next
  case (Cons x ops)
  show ?case
  proof (cases x)
    case (BAdd k v op cf)
    show ?thesis
      using Cons.IH [of "batcher_add_kv k v op cf b" outs] Cons.prems
      by (simp add: BAdd batcher_add_kv_def)
  next
    case (BFlush now)
    show ?thesis
    proof (cases "batcher_should_flush now b \<and> eb_batch b \<noteq> []")
      case False
      then have "run_batcher ser ops b = (outs, b')"
        using Cons.prems BFlush by (auto simp: batcher_flush_def split: if_splits prod.splits)
      from Cons.IH [OF this] show ?thesis by (simp add: BFlush)
    next
      case True
      define e where "e = (mk_event (KvBatch (eb_batch b)))\<lparr>ev_stream_seq := eb_seq_num b + 1\<rparr>"
      define b1 where "b1 = snd (batcher_flush ser now b)"
      have seq: "ev_stream_seq e = eb_seq_num b + 1" "event_kvs e = eb_batch b"
        by (simp_all add: e_def)
      obtain bs where bs: "ser e = Some bs" "deser bs = Some e" using ser by blast
      have b1: "batcher_flush ser now b = (Some bs, b1)" "eb_seq_num b1 = eb_seq_num b + 1"
        "eb_batch b1 = []"
        using True bs by (simp_all add: b1_def batcher_flush_def e_def Let_def)
      obtain outs' where o: "run_batcher ser ops b1 = (outs', b')" "outs = bs # outs'"
        using Cons.prems True BFlush b1 by (auto split: prod.splits)
      obtain es where es: "map deser outs' = map Some es"
          "concat (map event_kvs es) @ eb_batch b' = added_kvs ops"
          "map ev_stream_seq es = map (\<lambda>i. eb_seq_num b + of_nat (Suc (Suc i))) [0..<length es]"
        using Cons.IH [OF o(1)] b1 by (auto simp: add.assoc)
      show ?thesis
        by (rule exI [of _ "e # es"])
          (use es o bs BFlush seq in \<open>simp add: map_upt_Suc del: upt_Suc\<close>)
    qed
  qed
qed

lemma batcher_flush_empties:
  "eb_batch (snd (batcher_flush ser now b)) = []"
  by (simp add: batcher_flush_def Let_def)

section \<open>Matching regions\<close>

definition in_range :: "bytes \<Rightarrow> bytes \<Rightarrow> bytes \<Rightarrow> bool" where
  "in_range lo hi k \<longleftrightarrow> lo \<le> k \<and> (hi = [] \<or> k < hi)"

definition range_ok :: "bytes \<Rightarrow> bytes \<Rightarrow> bool" where
  "range_ok lo hi \<longleftrightarrow> hi = [] \<or> lo < hi"

lemma Nil_less_iff [simp]: "[] < (k :: bytes) \<longleftrightarrow> k \<noteq> []"
  by (cases k) auto

lemma ranges_meet_iff:
  assumes "range_ok a b" "range_ok c d"
  shows "(\<exists>k. in_range a b k \<and> in_range c d k) \<longleftrightarrow> (d = [] \<or> a < d) \<and> (b = [] \<or> c < b)"
proof
  assume "(d = [] \<or> a < d) \<and> (b = [] \<or> c < b)"
  then have "in_range a b (max a c) \<and> in_range c d (max a c)"
    using assms by (auto simp: in_range_def range_ok_def max_def)
  then show "\<exists>k. in_range a b k \<and> in_range c d k" by blast
qed (auto simp: in_range_def)

lemma span_matches_iff:
  assumes "range_ok (ss_start_key sub) (ss_end_key sub)" "range_ok r_start r_end"
  shows "span_matches sub r_start r_end \<longleftrightarrow>
    (\<exists>k. in_range (ss_start_key sub) (ss_end_key sub) k \<and> in_range r_start r_end k)"
  unfolding ranges_meet_iff [OF assms] by (auto simp: span_matches_def Let_def)

lemma match_region_find:
  "match_region reg r_start r_end =
    map_option (\<lambda>sub. (ss_sink sub, ss_buffer_size sub, ss_flush_interval_ms sub))
      (find (\<lambda>sub. span_matches sub r_start r_end) reg)"
  by (induction reg) auto

section \<open>Commit records as mutations\<close>

lemma build_default_key_append_ts: "build_default_key uk ts = build_data_key (append_ts uk ts)"
  by (simp add: build_default_key_def build_data_key_def append_ts_def encode_u64_desc_def)

lemma truncate_ts_for_append [simp]: "truncate_ts_for (append_ts k ts) = Inr k"
  by (simp add: truncate_ts_for_def append_ts_def U64_SIZE_def)

lemma from_write_cf_commit:
  assumes "write_wf w"
  shows "from_write_cf (append_ts uk commit_ts) (write_to_bytes w) =
    (let dk = build_data_key (append_ts uk (w_start_ts w)); wk = append_ts uk commit_ts in
     case w_type w of
       WPut \<Rightarrow> Some (LmPut dk wk (w_start_ts w) commit_ts (w_short_value w))
     | WDelete \<Rightarrow> Some (LmDelete dk wk (w_start_ts w) commit_ts)
     | WRollback \<Rightarrow> Some (LmRollback dk wk (w_start_ts w))
     | WLock \<Rightarrow> None)"
  using parse_write_to_bytes [OF assms, of "[]"]
  by (simp add: from_write_cf_def build_default_key_append_ts Let_def)

section \<open>Properties\<close>

text \<open>C5: the batcher never loses, duplicates or reorders a pair.  Whatever mix of additions and
  flushes runs, the pairs of the events it emitted followed by the pairs still buffered are exactly
  the pairs buffered at the start followed by those added, in order, and the emitted events carry
  consecutive sequence numbers.  The protobuf encoder is assumed to succeed and to be inverted by
  its decoder.\<close>

theorem batcher_stream_complete:
  assumes "\<And>e. \<exists>bs. ser e = Some bs \<and> deser bs = Some e"
    and "run_batcher ser ops b = (outs, b')"
  shows "\<exists>es. map deser outs = map Some es
      \<and> concat (map event_kvs es) @ eb_batch b' = eb_batch b @ added_kvs ops
      \<and> map ev_stream_seq es = map (\<lambda>i. eb_seq_num b + of_nat (Suc i)) [0..<length es]"
  using assms by (rule run_batcher_complete)

theorem batcher_stream_complete_witness:
  "\<exists>es. map Some [(mk_event (KvBatch [mk_kv [1] [2] OpPut ''default'']))\<lparr>ev_stream_seq := 1\<rparr>] = map Some es
      \<and> concat (map event_kvs es) @ [] = [mk_kv [1] [2] OpPut ''default'']
      \<and> map ev_stream_seq es = map (\<lambda>i. 0 + of_nat (Suc i)) [0..<length es]"
proof -
  let ?ops = "[BAdd [1] [2] OpPut ''default'', BFlush 200]"
  have "run_batcher Some ?ops (batcher_new 0 10 150) =
      ([(mk_event (KvBatch [mk_kv [1] [2] OpPut ''default'']))\<lparr>ev_stream_seq := 1\<rparr>],
       (batcher_new 200 10 150)\<lparr>eb_seq_num := 1\<rparr>)"
    by (simp add: batcher_new_def batcher_add_kv_def batcher_should_flush_def batcher_flush_def)
  from batcher_stream_complete [of Some Some, OF _ this] show ?thesis
    by (simp add: batcher_new_def)
qed

text \<open>A region is attached to a span subscription exactly when some key lies in both (ranges are
  half-open and an empty end is unbounded), and then to the first such subscription.\<close>

lemma match_region_first_overlap:
  assumes "\<forall>sub \<in> set reg. range_ok (ss_start_key sub) (ss_end_key sub)" and "range_ok r_start r_end"
  shows "match_region reg r_start r_end =
    map_option (\<lambda>sub. (ss_sink sub, ss_buffer_size sub, ss_flush_interval_ms sub))
      (find (\<lambda>sub. \<exists>k. in_range (ss_start_key sub) (ss_end_key sub) k \<and> in_range r_start r_end k) reg)"
  unfolding match_region_find
  by (rule arg_cong [where f = "map_option _"], rule find_cong)
    (use assms in \<open>auto simp: span_matches_iff\<close>)

lemma match_region_first_overlap_witness:
  "match_region [\<lparr>ss_start_key = [5], ss_end_key = [7], ss_sink = 1, ss_buffer_size = 10,
      ss_flush_interval_ms = 150\<rparr>] [6] [] = Some (1, 10, 150)"
proof -
  let ?reg = "[\<lparr>ss_start_key = [5], ss_end_key = [7], ss_sink = 1, ss_buffer_size = 10,
      ss_flush_interval_ms = 150\<rparr>]"
  have "\<exists>k. in_range [5] [7] k \<and> in_range [6] [] k" by (rule exI [of _ "[6]"]) (simp add: in_range_def)
  then show ?thesis
    using match_region_first_overlap [of ?reg "[6]" "[]"] by (simp add: range_ok_def)
qed

text \<open>decoding a commit record.  The mutation derived from a stored commit record names, as its
  DEFAULT-CF key, the data key under which the transaction's prewrite stored the value (user key at
  start timestamp, with the data prefix), keeps the WRITE-CF key, and carries the record's
  timestamps and short value; \<open>Lock\<close> records give no mutation.\<close>

theorem from_write_cf_correct:
  assumes "write_wf w"
  shows "from_write_cf (append_ts uk commit_ts) (write_to_bytes w) =
    (let dk = build_data_key (append_ts uk (w_start_ts w)); wk = append_ts uk commit_ts in
     case w_type w of
       WPut \<Rightarrow> Some (LmPut dk wk (w_start_ts w) commit_ts (w_short_value w))
     | WDelete \<Rightarrow> Some (LmDelete dk wk (w_start_ts w) commit_ts)
     | WRollback \<Rightarrow> Some (LmRollback dk wk (w_start_ts w))
     | WLock \<Rightarrow> None)"
  using assms by (rule from_write_cf_commit)

theorem from_write_cf_correct_witness:
  "from_write_cf (append_ts [1] 20) (write_to_bytes (write_new WDelete 10 None)) =
    Some (LmDelete (build_data_key (append_ts [1] 10)) (append_ts [1] 20) 10 20)"
  using from_write_cf_correct [of "write_new WDelete 10 None" "[1]" 20]
  by (simp add: write_new_def write_wf_def)

end
