(* ===== verification/StdCollections.thy ===== *)
theory StdCollections
  imports PcrPrelude "HOL-Library.Multiset"
begin

text \<open>
  The standard library's \<open>BTreeMap\<close> as the sources use it: an association list kept strictly sorted by
  key.  The locale \<open>finite_map\<close> is the contract the components rely on (what a lookup returns after an
  insertion or a removal, and how an additive measure of the entries changes), and the sorted lists
  are its interpretation.  \<open>Vec::swap_remove\<close> is here too.
\<close>

section \<open>Ordered maps\<close>

type_synonym ('k, 'v) btree = "('k \<times> 'v) list"

definition bt_wf :: "('k :: linorder, 'v) btree \<Rightarrow> bool" where
  "bt_wf m \<longleftrightarrow> sorted_wrt (<) (map fst m)"

definition bt_get :: "('k, 'v) btree \<Rightarrow> 'k \<Rightarrow> 'v option" where
  "bt_get m k = map_of m k"

fun bt_insert :: "'k :: linorder \<Rightarrow> 'v \<Rightarrow> ('k, 'v) btree \<Rightarrow> ('k, 'v) btree" where
  "bt_insert k v [] = [(k, v)]"
| "bt_insert k v ((k', v') # m) =
    (if k < k' then (k, v) # (k', v') # m
     else if k = k' then (k, v) # m
     else (k', v') # bt_insert k v m)"

fun bt_remove :: "'k \<Rightarrow> ('k, 'v) btree \<Rightarrow> ('k, 'v) btree" where
  "bt_remove k [] = []"
| "bt_remove k ((k', v') # m) = (if k = k' then m else (k', v') # bt_remove k m)"

definition bt_first_key :: "('k, 'v) btree \<Rightarrow> 'k option" where
  "bt_first_key m = (case m of [] \<Rightarrow> None | (k, v) # _ \<Rightarrow> Some k)"

definition bt_keys :: "('k, 'v) btree \<Rightarrow> 'k list" where
  "bt_keys m = map fst m"

definition bt_values :: "('k, 'v) btree \<Rightarrow> 'v list" where
  "bt_values m = map snd m"

text \<open>\<open>range\<close> with an included lower and an optional excluded upper bound.\<close>

definition bt_range :: "'k :: linorder \<Rightarrow> 'k option \<Rightarrow> ('k, 'v) btree \<Rightarrow> ('k, 'v) btree" where
  "bt_range lo hi m = filter (\<lambda>(k, v). lo \<le> k \<and> (case hi of None \<Rightarrow> True | Some h \<Rightarrow> k < h)) m"

definition bt_sum :: "('k \<Rightarrow> 'v \<Rightarrow> nat) \<Rightarrow> ('k, 'v) btree \<Rightarrow> nat" where
  "bt_sum f m = sum_list (map (\<lambda>(k, v). f k v) m)"

definition opt_weight :: "('v \<Rightarrow> nat) \<Rightarrow> 'v option \<Rightarrow> nat" where
  "opt_weight f x = (case x of None \<Rightarrow> 0 | Some v \<Rightarrow> f v)"

lemma opt_weight_simps [simp]: "opt_weight f None = 0" "opt_weight f (Some v) = f v"
  by (simp_all add: opt_weight_def)

section \<open>The contract of a map\<close>

locale finite_map =
  fixes wf :: "'m \<Rightarrow> bool"
    and emp :: 'm
    and get :: "'m \<Rightarrow> 'k \<Rightarrow> 'v option"
    and ins :: "'k \<Rightarrow> 'v \<Rightarrow> 'm \<Rightarrow> 'm"
    and rem :: "'k \<Rightarrow> 'm \<Rightarrow> 'm"
    and total :: "('k \<Rightarrow> 'v \<Rightarrow> nat) \<Rightarrow> 'm \<Rightarrow> nat"
  assumes wf_emp: "wf emp"
    and wf_ins: "wf m \<Longrightarrow> wf (ins k v m)"
    and wf_rem: "wf m \<Longrightarrow> wf (rem k m)"
    and get_emp: "get emp k = None"
    and get_ins: "wf m \<Longrightarrow> get (ins k v m) k' = (if k' = k then Some v else get m k')"
    and get_rem: "wf m \<Longrightarrow> get (rem k m) k' = (if k' = k then None else get m k')"
    and total_emp: "total f emp = 0"
    and total_ins: "wf m \<Longrightarrow> total f (ins k v m) + opt_weight (f k) (get m k) = total f m + f k v"
    and total_rem: "wf m \<Longrightarrow> total f (rem k m) + opt_weight (f k) (get m k) = total f m"
begin

lemma total_ins_vacant: "wf m \<Longrightarrow> get m k = None \<Longrightarrow> total f (ins k v m) = total f m + f k v"
  using total_ins [of m f k v] by simp

lemma total_ins_occupied:
  "wf m \<Longrightarrow> get m k = Some w \<Longrightarrow> int (total f (ins k v m)) = int (total f m) - int (f k w) + int (f k v)"
  using total_ins [of m f k v] by simp

lemma total_ins_same: "wf m \<Longrightarrow> get m k = Some w \<Longrightarrow> f k w = f k v \<Longrightarrow> total f (ins k v m) = total f m"
  using total_ins [of m f k v] by simp

lemma total_rem_occupied:
  "wf m \<Longrightarrow> get m k = Some w \<Longrightarrow> int (total f (rem k m)) = int (total f m) - int (f k w)"
  using total_rem [of m f k] by simp

lemma weight_le_total: "wf m \<Longrightarrow> get m k = Some w \<Longrightarrow> f k w \<le> total f m"
  using total_rem [of m f k] by simp

lemma get_ins_same: "wf m \<Longrightarrow> get (ins k v m) k = Some v"
  by (simp add: get_ins)

end

section \<open>Sorted association lists\<close>

lemma bt_wf_Nil [simp]: "bt_wf []"
  by (simp add: bt_wf_def)

lemma bt_wf_Cons: "bt_wf ((k, v) # m) \<longleftrightarrow> (\<forall>k' \<in> fst ` set m. k < k') \<and> bt_wf m"
  by (auto simp: bt_wf_def)

lemma bt_get_simps [simp]:
  "bt_get [] k = None"
  "bt_get ((k', v) # m) k = (if k' = k then Some v else bt_get m k)"
  by (simp_all add: bt_get_def)

lemma bt_sum_simps [simp]:
  "bt_sum f [] = 0"
  "bt_sum f ((k, v) # m) = f k v + bt_sum f m"
  by (simp_all add: bt_sum_def)

lemma keys_bt_insert: "fst ` set (bt_insert k v m) = insert k (fst ` set m)"
  by (induction k v m rule: bt_insert.induct) auto

lemma keys_bt_remove: "fst ` set (bt_remove k m) \<subseteq> fst ` set m"
  by (induction k m rule: bt_remove.induct) auto

lemma bt_wf_insert: "bt_wf m \<Longrightarrow> bt_wf (bt_insert k v m)"
  by (induction k v m rule: bt_insert.induct) (auto simp: bt_wf_Cons keys_bt_insert)

lemma bt_wf_remove: "bt_wf m \<Longrightarrow> bt_wf (bt_remove k m)"
  by (induction k m rule: bt_remove.induct) (use keys_bt_remove in \<open>fastforce simp: bt_wf_Cons\<close>)+

lemma bt_get_None_iff: "bt_get m k = None \<longleftrightarrow> k \<notin> fst ` set m"
  by (simp add: bt_get_def map_of_eq_None_iff)

lemma bt_get_below: "bt_wf ((k', v') # m) \<Longrightarrow> k < k' \<Longrightarrow> bt_get ((k', v') # m) k = None"
  by (force simp: bt_get_None_iff bt_wf_Cons)

lemma bt_get_insert: "bt_get (bt_insert k v m) k' = (if k' = k then Some v else bt_get m k')"
  by (induction k v m rule: bt_insert.induct) auto

lemma bt_get_remove: "bt_wf m \<Longrightarrow> bt_get (bt_remove k m) k' = (if k' = k then None else bt_get m k')"
  by (induction k m rule: bt_remove.induct) (force simp: bt_wf_Cons bt_get_None_iff)+

lemma bt_sum_insert:
  "bt_wf m \<Longrightarrow> bt_sum f (bt_insert k v m) + opt_weight (f k) (bt_get m k) = bt_sum f m + f k v"
proof (induction k v m rule: bt_insert.induct)
  case (2 k v k' v' m)
  then show ?case
    using bt_get_below [of k' v' m k] by (auto simp: bt_wf_Cons simp del: bt_get_simps(2))
      (auto simp: bt_wf_Cons)
qed simp

lemma bt_sum_remove:
  "bt_sum f (bt_remove k m) + opt_weight (f k) (bt_get m k) = bt_sum f m"
  by (induction k m rule: bt_remove.induct) auto

interpretation bt: finite_map bt_wf "[]" bt_get bt_insert bt_remove bt_sum
  by unfold_locales
    (auto simp: bt_wf_insert bt_wf_remove bt_get_insert bt_get_remove bt_sum_insert bt_sum_remove)

lemma bt_first_key_None [simp]: "bt_first_key m = None \<longleftrightarrow> m = []"
  by (auto simp: bt_first_key_def split: list.splits)

lemma bt_first_key_least:
  "bt_wf m \<Longrightarrow> bt_first_key m = Some k \<Longrightarrow> (\<exists>v. bt_get m k = Some v) \<and> (\<forall>k'. bt_get m k' \<noteq> None \<longrightarrow> k \<le> k')"
proof (cases m)
  case (Cons x m')
  assume "bt_wf m" "bt_first_key m = Some k"
  then obtain v where "x = (k, v)" "\<forall>k' \<in> fst ` set m'. k < k'"
    using Cons by (cases x) (auto simp: bt_first_key_def bt_wf_Cons)
  then show ?thesis using Cons by (force simp: bt_get_None_iff less_imp_le simp del: not_None_eq)
qed (simp add: bt_first_key_def)

lemma bt_get_Some_in: "bt_wf m \<Longrightarrow> bt_get m k = Some v \<longleftrightarrow> (k, v) \<in> set m"
  unfolding bt_get_def bt_wf_def
  by (rule map_of_eq_Some_iff) (simp add: strict_sorted_iff)

section \<open>Removing by swapping with the last element\<close>

definition swap_remove :: "nat \<Rightarrow> 'a list \<Rightarrow> 'a list" where
  "swap_remove i xs = butlast (xs[i := last xs])"

lemma mset_swap_remove: "i < length xs \<Longrightarrow> mset (swap_remove i xs) + {#xs ! i#} = mset xs"
proof (cases xs rule: rev_cases)
  case (snoc ys y)
  assume "i < length xs"
  then show ?thesis
    using snoc by (cases "i = length ys")
      (auto simp: swap_remove_def mset_update nth_append list_update_append insert_DiffM)
qed simp

end
