(* ===== verification/LockTracking.thy ===== *)
theory LockTracking
  imports PcrEvents StdCollections
begin

text \<open>
  The change-data delegate's lock tracking (\<open>components/cdc/src/delegate.rs\<close>): the observed key range
  of a downstream, the tracker that follows the locks of a region (buffering changes while the
  region's locks are being scanned), the memory quota that pays for it (\<open>tikv_util/src/memory.rs\<close>),
  and the per-downstream heap of lock timestamps from which the resolved timestamp is advanced.

  A tracked key is its encoded bytes with the capacity of the buffer that holds them, because that
  capacity is what the quota is charged.  \<open>isize\<close> counters are integers.  A Rust panic
  (\<open>unreachable!\<close>, \<open>assert!\<close>, \<open>unwrap\<close>) is the error \<open>CdcPanic\<close>.
\<close>

section \<open>Regions and errors\<close>

record region_epoch =
  re_conf_ver :: u64
  re_version :: u64

record region =
  rg_id :: u64
  rg_start_key :: bytes
  rg_end_key :: bytes
  rg_epoch :: region_epoch

definition region_default :: region where
  "region_default = \<lparr>rg_id = 0, rg_start_key = [], rg_end_key = [],
     rg_epoch = \<lparr>re_conf_ver = 0, re_version = 0\<rparr>\<rparr>"

datatype send_error = SendFull | SendDisconnected | SendCongested

text \<open>What a region error of the storage layer says (\<open>errorpb::Error\<close>): the two kinds the sources
  look at, and any other.\<close>

datatype region_error =
    EpochNotMatch string "region list"
  | NotLeader u64
  | OtherRegionError string

text \<open>\<open>CdcKv\<close> and \<open>CdcTxn\<close> carry the region error they wrap, if they wrap one; the other payloads of
  other crates' errors are left out.\<close>

datatype other_error = OtherCodec codec_error | OtherMessage string

datatype cdc_error =
    CdcOther other_error
  | CdcRocks string
  | CdcIo
  | CdcKv "region_error option"
  | CdcTxn "region_error option"
  | CdcMvcc txn_error
  | CdcRequest region_error
  | CdcEngineTraits codec_error
  | CdcSink send_error
  | CdcMemoryQuotaExceeded
  | CdcPanic

definition compare_region_epoch ::
  "region_epoch \<Rightarrow> region \<Rightarrow> bool \<Rightarrow> bool \<Rightarrow> bool \<Rightarrow> cdc_error + unit" where
  "compare_region_epoch from_epoch r check_conf_ver check_ver include_region =
    (if check_conf_ver \<and> re_conf_ver from_epoch \<noteq> re_conf_ver (rg_epoch r)
        \<or> check_ver \<and> re_version from_epoch \<noteq> re_version (rg_epoch r)
     then Inl (CdcRequest (EpochNotMatch ''epoch not match'' (if include_region then [r] else [])))
     else Inr ())"

section \<open>The memory quota\<close>

definition MAX_MEMORY_ALLOC_SIZE :: nat where
  "MAX_MEMORY_ALLOC_SIZE = 2 ^ 48"

record memory_quota =
  mq_in_use :: int
  mq_capacity :: nat

definition adjust_capacity :: "nat \<Rightarrow> nat" where
  "adjust_capacity capacity = min capacity (2 ^ 63 - 1)"

definition quota_new :: "nat \<Rightarrow> memory_quota" where
  "quota_new capacity = \<lparr>mq_in_use = 0, mq_capacity = adjust_capacity capacity\<rparr>"

definition quota_in_use :: "memory_quota \<Rightarrow> nat" where
  "quota_in_use q = nat (max (mq_in_use q) 0)"

definition quota_set_capacity :: "nat \<Rightarrow> memory_quota \<Rightarrow> memory_quota" where
  "quota_set_capacity capacity q = q\<lparr>mq_capacity := adjust_capacity capacity\<rparr>"

definition quota_alloc_force :: "nat \<Rightarrow> memory_quota \<Rightarrow> memory_quota" where
  "quota_alloc_force n q =
    (if n > MAX_MEMORY_ALLOC_SIZE then q else q\<lparr>mq_in_use := mq_in_use q + int n\<rparr>)"

text \<open>\<open>isize::saturating_sub\<close> followed by a cast to \<open>usize\<close>: a negative rest becomes a huge number,
  which only the second test catches.\<close>

definition saturating_sub_usize :: "int \<Rightarrow> int \<Rightarrow> nat" where
  "saturating_sub_usize a b = nat (max (- (2 ^ 63)) (min (2 ^ 63 - 1) (a - b)) mod 2 ^ 64)"

definition quota_alloc :: "nat \<Rightarrow> memory_quota \<Rightarrow> (cdc_error + unit) \<times> memory_quota" where
  "quota_alloc n q =
    (let capacity = int (mq_capacity q); in_use_bytes = mq_in_use q in
     if n > saturating_sub_usize capacity in_use_bytes \<or> n > MAX_MEMORY_ALLOC_SIZE
     then (Inl CdcMemoryQuotaExceeded, q)
     else
       let new_in_use_bytes = mq_in_use q; q = q\<lparr>mq_in_use := mq_in_use q + int n\<rparr> in
       if int n > capacity - new_in_use_bytes
       then (Inl CdcMemoryQuotaExceeded, q\<lparr>mq_in_use := mq_in_use q - int n\<rparr>)
       else (Inr (), q))"

definition quota_free :: "nat \<Rightarrow> memory_quota \<Rightarrow> memory_quota" where
  "quota_free n q =
    (if n > MAX_MEMORY_ALLOC_SIZE then q
     else
       let new_in_use_bytes = mq_in_use q - int n; q = q\<lparr>mq_in_use := mq_in_use q - int n\<rparr> in
       if new_in_use_bytes < 0
       then q\<lparr>mq_in_use := mq_in_use q + min (- new_in_use_bytes) (int n)\<rparr> else q)"

section \<open>The observed range\<close>

record observed_range =
  or_start_key_encoded :: bytes
  or_end_key_encoded :: bytes
  or_start_key_raw :: bytes
  or_end_key_raw :: bytes
  or_all_key_covered :: bool

definition observed_range_default :: observed_range where
  "observed_range_default = \<lparr>or_start_key_encoded = [], or_end_key_encoded = [],
     or_start_key_raw = [], or_end_key_raw = [], or_all_key_covered = False\<rparr>"

definition observed_range_new :: "bytes \<Rightarrow> bytes \<Rightarrow> cdc_error + observed_range" where
  "observed_range_new start_key_encoded end_key_encoded =
    rbind (map_err (\<lambda>e. CdcOther (OtherCodec e)) (into_raw start_key_encoded)) (\<lambda>start_key_raw.
    rbind (map_err (\<lambda>e. CdcOther (OtherCodec e)) (into_raw end_key_encoded)) (\<lambda>end_key_raw.
    Inr \<lparr>or_start_key_encoded = start_key_encoded, or_end_key_encoded = end_key_encoded,
         or_start_key_raw = start_key_raw, or_end_key_raw = end_key_raw,
         or_all_key_covered = False\<rparr>))"

definition update_region_key_range :: "region \<Rightarrow> observed_range \<Rightarrow> observed_range" where
  "update_region_key_range r obs =
    (if or_start_key_encoded obs \<le> rg_start_key r
        \<and> (or_end_key_encoded obs = []
           \<or> rg_end_key r \<le> or_end_key_encoded obs \<and> rg_end_key r \<noteq> [])
     then obs\<lparr>or_all_key_covered := True\<rparr> else obs)"

definition is_key_in_range :: "observed_range \<Rightarrow> bytes \<Rightarrow> bytes \<Rightarrow> bytes \<Rightarrow> bool" where
  "is_key_in_range obs start_key end_key k =
    (if or_all_key_covered obs then True
     else start_key \<le> k \<and> (k < end_key \<or> end_key = []))"

definition contains_encoded_key :: "observed_range \<Rightarrow> bytes \<Rightarrow> bool" where
  "contains_encoded_key obs k =
    is_key_in_range obs (or_start_key_encoded obs) (or_end_key_encoded obs) k"

definition contains_raw_key :: "observed_range \<Rightarrow> bytes \<Rightarrow> bool" where
  "contains_raw_key obs k = is_key_in_range obs (or_start_key_raw obs) (or_end_key_raw obs) k"

definition to_range :: "observed_range \<Rightarrow> bytes \<times> bytes option" where
  "to_range obs = (or_start_key_encoded obs,
     if or_end_key_encoded obs = [] then None else Some (or_end_key_encoded obs))"

section \<open>The lock tracker\<close>

record mini_lock =
  ml_ts :: timestamp
  ml_txn_source :: u64

definition mini_lock_new :: "timestamp \<Rightarrow> u64 \<Rightarrow> mini_lock" where
  "mini_lock_new ts src = \<lparr>ml_ts = ts, ml_txn_source = src\<rparr>"

type_synonym tkey = "bytes \<times> nat"
type_synonym lock_map = "(bytes, nat \<times> mini_lock) btree"

datatype pending_lock = Track tkey mini_lock | Untrack tkey timestamp

fun pending_heap_size :: "pending_lock \<Rightarrow> nat" where
  "pending_heap_size (Track k _) = snd k"
| "pending_heap_size (Untrack k _) = snd k"

datatype lock_tracker =
    Pending
  | Preparing "pending_lock list"
  | Prepared region lock_map

type_synonym lock_modified_count = "timestamp \<times> int"
type_synonym tracking = "memory_quota \<times> lock_tracker"

fun push_lock :: "tkey \<Rightarrow> mini_lock \<Rightarrow> tracking \<Rightarrow> (cdc_error + lock_modified_count list) \<times> tracking" where
  "push_lock k start_ts (q, Pending) = (Inl CdcPanic, (q, Pending))"
| "push_lock k start_ts (q, Preparing locks) =
    (case quota_alloc (snd k) q of
       (Inl e, q) \<Rightarrow> (Inl e, (q, Preparing locks))
     | (Inr _, q) \<Rightarrow> (Inr [], (q, Preparing (locks @ [Track k start_ts]))))"
| "push_lock k start_ts (q, Prepared r locks) =
    (case bt_get locks (fst k) of
       Some (cap, old) \<Rightarrow>
         if ml_ts old \<noteq> ml_ts start_ts
         then (Inr [(ml_ts old, -1), (ml_ts start_ts, 1)],
               (q, Prepared r (bt_insert (fst k) (cap, start_ts) locks)))
         else (Inr [], (q, Prepared r locks))
     | None \<Rightarrow>
         let locks = bt_insert (fst k) (snd k, start_ts) locks in
         (case quota_alloc (snd k) q of
            (Inl e, q) \<Rightarrow> (Inl e, (q, Prepared r locks))
          | (Inr _, q) \<Rightarrow> (Inr [(ml_ts start_ts, 1)], (q, Prepared r locks))))"

fun pop_lock :: "tkey \<Rightarrow> timestamp \<Rightarrow> tracking \<Rightarrow> (cdc_error + lock_modified_count list) \<times> tracking" where
  "pop_lock k start_ts (q, Pending) = (Inl CdcPanic, (q, Pending))"
| "pop_lock k start_ts (q, Preparing locks) =
    (case quota_alloc (snd k) q of
       (Inl e, q) \<Rightarrow> (Inl e, (q, Preparing locks))
     | (Inr _, q) \<Rightarrow> (Inr [], (q, Preparing (locks @ [Untrack k start_ts]))))"
| "pop_lock k start_ts (q, Prepared r locks) =
    (case bt_get locks (fst k) of
       Some (cap, old) \<Rightarrow>
         if ml_ts old = start_ts
         then (Inr [(start_ts, -1)], (quota_free cap q, Prepared r (bt_remove (fst k) locks)))
         else (Inr [], (q, Prepared r locks))
     | None \<Rightarrow> (Inr [], (q, Prepared r locks)))"

fun init_lock_tracker :: "lock_tracker \<Rightarrow> bool \<times> lock_tracker" where
  "init_lock_tracker Pending = (True, Preparing [])"
| "init_lock_tracker t = (False, t)"

fun apply_pending :: "pending_lock \<Rightarrow> lock_map \<Rightarrow> cdc_error + lock_map" where
  "apply_pending (Track k start_ts) locks =
    (case bt_get locks (fst k) of
       None \<Rightarrow> Inr (bt_insert (fst k) (snd k, start_ts) locks)
     | Some (cap, old) \<Rightarrow> if old = start_ts then Inr locks else Inl CdcPanic)"
| "apply_pending (Untrack k start_ts) locks =
    (case bt_get locks (fst k) of
       None \<Rightarrow> Inr locks
     | Some (cap, old) \<Rightarrow> Inr (if ml_ts old = start_ts then bt_remove (fst k) locks else locks))"

fun apply_pendings :: "pending_lock list \<Rightarrow> lock_map \<Rightarrow> cdc_error + lock_map" where
  "apply_pendings [] locks = Inr locks"
| "apply_pendings (p # ps) locks = rbind (apply_pending p locks) (apply_pendings ps)"

definition locks_heap_size :: "lock_map \<Rightarrow> nat" where
  "locks_heap_size locks = bt_sum (\<lambda>k (cap, l). cap) locks"

fun finish_prepare_lock_tracker :: "region \<Rightarrow> lock_map \<Rightarrow> tracking \<Rightarrow> (cdc_error + unit) \<times> tracking" where
  "finish_prepare_lock_tracker r locks (q, Preparing delta_locks) =
    (case apply_pendings delta_locks locks of
       Inl e \<Rightarrow> (Inl e, (q, Pending))
     | Inr locks \<Rightarrow>
       let q = quota_free (sum_list (map pending_heap_size delta_locks)) q in
       (case quota_alloc (locks_heap_size locks) q of
          (Inl e, q) \<Rightarrow> (Inl e, (q, Pending))
        | (Inr _, q) \<Rightarrow> (Inr (), (q, Prepared r locks))))"
| "finish_prepare_lock_tracker r locks (q, t) = (Inl CdcPanic, (q, Pending))"

definition tracker_heap_size :: "lock_tracker \<Rightarrow> nat" where
  "tracker_heap_size t =
    (case t of Pending \<Rightarrow> 0
     | Preparing locks \<Rightarrow> sum_list (map pending_heap_size locks)
     | Prepared r locks \<Rightarrow> locks_heap_size locks)"

definition drop_tracking :: "tracking \<Rightarrow> memory_quota" where
  "drop_tracking st = (case st of (q, Pending) \<Rightarrow> q | (q, t) \<Rightarrow> quota_free (tracker_heap_size t) q)"

section \<open>Downstreams\<close>

datatype downstream_state = Uninitialized | Initializing | Normal | Stopped

definition on_init_downstream :: "downstream_state \<Rightarrow> bool \<times> downstream_state" where
  "on_init_downstream s = (if s = Uninitialized then (True, Initializing) else (False, s))"

definition post_init_downstream :: "downstream_state \<Rightarrow> bool \<times> downstream_state" where
  "post_init_downstream s = (if s = Initializing then (True, Normal) else (False, s))"

fun ready_for_change_events :: "downstream_state \<Rightarrow> bool" where
  "ready_for_change_events Uninitialized = False"
| "ready_for_change_events Stopped = False"
| "ready_for_change_events Initializing = True"
| "ready_for_change_events Normal = True"

fun ready_for_advancing_ts :: "downstream_state \<Rightarrow> bool" where
  "ready_for_advancing_ts Normal = True"
| "ready_for_advancing_ts Uninitialized = False"
| "ready_for_advancing_ts Stopped = False"
| "ready_for_advancing_ts Initializing = False"

datatype kv_api = TiDb | RawKv | TxnKv

type_synonym lock_heap = "(timestamp, int) btree"

record downstream =
  ds_id :: nat
  ds_region_epoch :: region_epoch
  ds_req_id :: u64
  ds_conn_id :: nat
  ds_kv_api :: kv_api
  ds_filter_loop :: bool
  ds_observed_range :: observed_range
  ds_sink :: "sink_id option"
  ds_state :: downstream_state
  ds_scan_truncated :: bool
  ds_lock_heap :: "lock_heap option"
  ds_advanced_to :: timestamp

definition downstream_new ::
  "nat \<Rightarrow> region_epoch \<Rightarrow> u64 \<Rightarrow> nat \<Rightarrow> kv_api \<Rightarrow> bool \<Rightarrow> observed_range \<Rightarrow> downstream" where
  "downstream_new i epoch req_id conn_id api filter_loop obs =
    \<lparr>ds_id = i, ds_region_epoch = epoch, ds_req_id = req_id, ds_conn_id = conn_id, ds_kv_api = api,
     ds_filter_loop = filter_loop, ds_observed_range = obs, ds_sink = None, ds_state = Uninitialized,
     ds_scan_truncated = False, ds_lock_heap = None, ds_advanced_to = 0\<rparr>"

definition check_epoch_on_ready :: "downstream \<Rightarrow> region \<Rightarrow> (cdc_error + unit) \<times> downstream" where
  "check_epoch_on_ready d r =
    (case compare_region_epoch (ds_region_epoch d) r False True True of
       Inl e \<Rightarrow> (Inl e, d\<lparr>ds_state := Stopped\<rparr>)
     | Inr _ \<Rightarrow> (Inr (), d))"

text \<open>Applying one modified count to the heap; the assertion that no count goes negative panics.\<close>

definition heap_modify :: "lock_modified_count \<Rightarrow> lock_heap \<Rightarrow> lock_heap option" where
  "heap_modify m heap =
    (let (start_ts, n) = m;
         lock_count = (case bt_get heap start_ts of None \<Rightarrow> 0 | Some c \<Rightarrow> c) + n in
     if lock_count < 0 then None
     else if lock_count = 0 then Some (bt_remove start_ts heap)
     else Some (bt_insert start_ts lock_count heap))"

fun heap_modify_all :: "lock_modified_count list \<Rightarrow> lock_heap \<Rightarrow> lock_heap option" where
  "heap_modify_all [] heap = Some heap"
| "heap_modify_all (m # ms) heap = Option.bind (heap_modify m heap) (heap_modify_all ms)"

definition build_lock_heap :: "lock_map \<Rightarrow> observed_range \<Rightarrow> lock_heap" where
  "build_lock_heap locks obs =
    fold (\<lambda>(k, cap, l) heap.
        bt_insert (ml_ts l) ((case bt_get heap (ml_ts l) of None \<Rightarrow> 0 | Some c \<Rightarrow> c) + 1) heap)
      (bt_range (fst (to_range obs)) (snd (to_range obs)) locks) []"

text \<open>What one changed row does to a downstream's heap.\<close>

definition downstream_count :: "bytes \<Rightarrow> lock_modified_count list \<Rightarrow> downstream \<Rightarrow> downstream option" where
  "downstream_count row_key ms d =
    (if \<not> contains_raw_key (ds_observed_range d) row_key then Some d
     else (case ds_lock_heap d of
             None \<Rightarrow> Some d
           | Some lock_heap \<Rightarrow>
               if ms = [] then Some d
               else map_option (\<lambda>h. d\<lparr>ds_lock_heap := Some h\<rparr>) (heap_modify_all ms lock_heap)))"

text \<open>What one round of advancing collects: the resolved timestamps to send, by connection and request,
  by connection, or by connection and region, and its counters.  The heaps of regions are the lists
  of what was pushed.\<close>

record advance =
  adv_multiplexing :: "((nat \<times> u64) \<times> (u64 \<times> timestamp) list) list"
  adv_exclusive :: "(nat \<times> (u64 \<times> timestamp) list) list"
  adv_compat :: "((nat \<times> u64) \<times> (u64 \<times> timestamp)) list"
  adv_scan_finished :: nat
  adv_blocked_on_scan :: nat
  adv_blocked_on_locks :: nat
  adv_min_resolved_ts :: u64
  adv_min_ts_region_id :: u64

definition advance_default :: advance where
  "advance_default = \<lparr>adv_multiplexing = [], adv_exclusive = [], adv_compat = [], adv_scan_finished = 0,
     adv_blocked_on_scan = 0, adv_blocked_on_locks = 0, adv_min_resolved_ts = 0,
     adv_min_ts_region_id = 0\<rparr>"

definition handle_downstream ::
  "lock_map \<Rightarrow> timestamp \<Rightarrow> advance \<Rightarrow> downstream \<Rightarrow> timestamp option \<times> advance \<times> downstream" where
  "handle_downstream locks min_ts adv d =
    (if \<not> ready_for_advancing_ts (ds_state d)
     then (None, adv\<lparr>adv_blocked_on_scan := adv_blocked_on_scan adv + 1\<rparr>, d)
     else
       let adv = adv\<lparr>adv_scan_finished := adv_scan_finished adv + 1\<rparr>;
           lock_heap = (case ds_lock_heap d of None \<Rightarrow> build_lock_heap locks (ds_observed_range d)
                        | Some h \<Rightarrow> h);
           d = d\<lparr>ds_lock_heap := Some lock_heap\<rparr>;
           min_lock = (case bt_first_key lock_heap of None \<Rightarrow> min_ts | Some ts \<Rightarrow> ts);
           advanced_to = min min_lock min_ts in
       if advanced_to > ds_advanced_to d
       then (Some advanced_to, adv, d\<lparr>ds_advanced_to := advanced_to\<rparr>)
       else (Some (ds_advanced_to d),
             adv\<lparr>adv_blocked_on_locks := adv_blocked_on_locks adv + 1\<rparr>, d))"

section \<open>What the quota is charged\<close>

definition quota_sane :: "memory_quota \<Rightarrow> bool" where
  "quota_sane q \<longleftrightarrow> 0 \<le> mq_in_use q \<and> mq_in_use q \<le> int (mq_capacity q)
     \<and> mq_capacity q \<le> MAX_MEMORY_ALLOC_SIZE"

lemma saturating_sub_usize_pos:
  "0 \<le> a - b \<Longrightarrow> a - b < 2 ^ 63 \<Longrightarrow> saturating_sub_usize a b = nat (a - b)"
  by (simp add: saturating_sub_usize_def)

lemma quota_alloc_sane:
  "quota_sane q \<Longrightarrow> quota_alloc n q =
    (if mq_in_use q + int n \<le> int (mq_capacity q)
     then (Inr (), q\<lparr>mq_in_use := mq_in_use q + int n\<rparr>)
     else (Inl CdcMemoryQuotaExceeded, q))"
  by (auto simp: quota_alloc_def quota_sane_def saturating_sub_usize_pos Let_def
      MAX_MEMORY_ALLOC_SIZE_def nat_less_iff not_less)

lemma quota_free_exact:
  "quota_sane q \<Longrightarrow> int n \<le> mq_in_use q \<Longrightarrow> quota_free n q = q\<lparr>mq_in_use := mq_in_use q - int n\<rparr>"
  by (auto simp: quota_free_def quota_sane_def Let_def)

definition tracker_wf :: "lock_tracker \<Rightarrow> bool" where
  "tracker_wf t = (case t of Prepared r locks \<Rightarrow> bt_wf locks | _ \<Rightarrow> True)"

text \<open>The quota holds what others use, \<open>base\<close>, and exactly the heap size of the tracker.\<close>

definition charged :: "int \<Rightarrow> tracking \<Rightarrow> bool" where
  "charged base st = (case st of (q, t) \<Rightarrow>
     tracker_wf t \<and> quota_sane q \<and> 0 \<le> base \<and> mq_in_use q = base + int (tracker_heap_size t))"

lemma charged_Preparing_alloc:
  assumes "charged base (q, Preparing ps)" "quota_alloc (pending_heap_size p) q = (Inr u, q')"
  shows "charged base (q', Preparing (ps @ [p]))"
  using assms by (auto simp: charged_def quota_alloc_sane tracker_wf_def tracker_heap_size_def
      quota_sane_def split: if_splits)

lemma push_lock_charged:
  assumes "charged base st" "push_lock k l st = (Inr ms, st')"
  shows "charged base st'"
proof (cases st)
  case (Pair q t)
  show ?thesis
  proof (cases t)
    case (Preparing ps)
    with assms Pair charged_Preparing_alloc [of base q ps "Track k l"] show ?thesis
      by (auto split: prod.splits sum.splits)
  next
    case (Prepared r locks)
    with assms Pair show ?thesis
      by (auto simp: charged_def quota_alloc_sane tracker_wf_def tracker_heap_size_def
          locks_heap_size_def bt.wf_ins bt.total_ins_vacant bt.total_ins_same quota_sane_def Let_def
          split: option.splits if_splits)
  qed (use assms Pair in simp)
qed

lemma pop_lock_charged:
  assumes "charged base st" "pop_lock k ts st = (Inr ms, st')"
  shows "charged base st'"
proof (cases st)
  case (Pair q t)
  show ?thesis
  proof (cases t)
    case (Preparing ps)
    with assms Pair charged_Preparing_alloc [of base q ps "Untrack k ts"] show ?thesis
      by (auto split: prod.splits sum.splits)
  next
    case (Prepared r locks)
    show ?thesis
    proof (cases "bt_get locks (fst k)")
      case (Some v)
      obtain cap old where v: "v = (cap, old)" by (cases v)
      have "int cap \<le> mq_in_use q" if "ml_ts old = ts"
        using bt.weight_le_total [of locks "fst k" v "\<lambda>k (cap, l). cap"] assms Pair Prepared Some v
        by (auto simp: charged_def tracker_wf_def tracker_heap_size_def locks_heap_size_def)
      with assms Pair Prepared Some v show ?thesis
        by (auto simp: charged_def quota_free_exact tracker_wf_def tracker_heap_size_def
            locks_heap_size_def bt.wf_rem bt.total_rem_occupied quota_sane_def split: if_splits)
    qed (use assms Pair Prepared in simp)
  qed (use assms Pair in simp)
qed

lemma apply_pendings_wf: "bt_wf locks \<Longrightarrow> apply_pendings ps locks = Inr locks' \<Longrightarrow> bt_wf locks'"
proof (induction ps arbitrary: locks)
  case (Cons p ps)
  have "bt_wf locks1" if "apply_pending p locks = Inr locks1" for locks1
    using that Cons.prems(1)
    by (cases p) (auto simp: bt.wf_ins bt.wf_rem split: option.splits if_splits)
  with Cons show ?case by (auto simp: rbind_Inr_iff)
qed simp

lemma finish_prepare_charged:
  assumes "charged base st" "bt_wf locks" "finish_prepare_lock_tracker r locks st = (Inr u, st')"
  shows "charged base st'"
proof -
  obtain q ps where st: "st = (q, Preparing ps)"
    using assms(3) by (cases "(r, locks, st)" rule: finish_prepare_lock_tracker.cases) auto
  obtain locks' where l: "apply_pendings ps locks = Inr locks'"
    using assms(3) st by (auto split: sum.splits)
  let ?n = "sum_list (map pending_heap_size ps)"
  let ?q = "q\<lparr>mq_in_use := mq_in_use q - int ?n\<rparr>"
  have free: "quota_free ?n q = ?q" "quota_sane ?q"
    using assms(1) st quota_free_exact [of q ?n]
    by (auto simp: charged_def tracker_heap_size_def quota_sane_def)
  have "bt_wf locks'" using apply_pendings_wf [OF assms(2) l] .
  then show ?thesis
    using assms l st free
    by (auto simp: charged_def quota_alloc_sane tracker_wf_def tracker_heap_size_def quota_sane_def Let_def
        split: if_splits)
qed

lemma drop_tracking_charged: "charged base (q, t) \<Longrightarrow> mq_in_use (drop_tracking (q, t)) = base"
  by (cases t) (auto simp: charged_def drop_tracking_def quota_free_exact tracker_heap_size_def)

text \<open>The life of a tracker: the changes the delegate feeds it, the end of its scan, and the replacement of
  the tracker when replication is enabled on the delegate.  An error stops the delegate.\<close>

datatype tracker_op = TPush tkey mini_lock | TPop tkey timestamp | TFinish region lock_map | TEnablePcr

fun tracker_step :: "tracker_op \<Rightarrow> tracking \<Rightarrow> tracking option" where
  "tracker_step (TPush k l) st = (case push_lock k l st of (Inr _, st) \<Rightarrow> Some st | _ \<Rightarrow> None)"
| "tracker_step (TPop k ts) st = (case pop_lock k ts st of (Inr _, st) \<Rightarrow> Some st | _ \<Rightarrow> None)"
| "tracker_step (TFinish r locks) st =
    (case finish_prepare_lock_tracker r locks st of (Inr _, st) \<Rightarrow> Some st | _ \<Rightarrow> None)"
| "tracker_step TEnablePcr st = Some (fst st, Prepared region_default [])"

fun run_tracker :: "tracker_op list \<Rightarrow> tracking \<Rightarrow> tracking option" where
  "run_tracker [] st = Some st"
| "run_tracker (x # xs) st = Option.bind (tracker_step x st) (run_tracker xs)"

fun tracker_op_wf :: "tracker_op \<Rightarrow> bool" where
  "tracker_op_wf (TFinish r locks) = bt_wf locks"
| "tracker_op_wf _ = True"

text \<open>The bytes of the locks that are forgotten when replication is enabled; nothing gives them back.\<close>

fun leaked :: "tracker_op list \<Rightarrow> tracking \<Rightarrow> nat" where
  "leaked [] st = 0"
| "leaked (x # xs) st =
    (if x = TEnablePcr then tracker_heap_size (snd st) else 0)
    + (case tracker_step x st of None \<Rightarrow> 0 | Some st \<Rightarrow> leaked xs st)"

lemma tracker_step_charged:
  assumes "charged base st" "tracker_op_wf x" "tracker_step x st = Some st'"
  shows "charged (base + int (if x = TEnablePcr then tracker_heap_size (snd st) else 0)) st'"
proof (cases x)
  case TEnablePcr
  then show ?thesis using assms(1,3)
    by (cases st) (auto simp: charged_def quota_sane_def tracker_wf_def tracker_heap_size_def locks_heap_size_def)
qed (use assms in \<open>auto split: prod.splits sum.splits intro: push_lock_charged pop_lock_charged finish_prepare_charged\<close>)

lemma run_tracker_charged:
  "charged base st \<Longrightarrow> list_all tracker_op_wf xs \<Longrightarrow> run_tracker xs st = Some st' \<Longrightarrow>
    charged (base + int (leaked xs st)) st'"
proof (induction xs arbitrary: st base)
  case (Cons x xs)
  then obtain st1 where st1: "tracker_step x st = Some st1" "run_tracker xs st1 = Some st'"
    by (auto split: Option.bind_splits)
  have "charged (base + int (if x = TEnablePcr then tracker_heap_size (snd st) else 0)) st1"
    using tracker_step_charged [OF Cons.prems(1) _ st1(1)] Cons.prems(2) by simp
  from Cons.IH [OF this _ st1(2)] show ?case using Cons.prems(2) by (simp add: st1(1) add.assoc)
qed simp

section \<open>Replaying the buffered changes\<close>

fun apply_direct :: "pending_lock \<Rightarrow> tracking \<Rightarrow> tracking" where
  "apply_direct (Track k l) st = snd (push_lock k l st)"
| "apply_direct (Untrack k ts) st = snd (pop_lock k ts st)"

lemma apply_direct_step:
  assumes "apply_pending p locks = Inr locks'"
  obtains q' where "apply_direct p (q, Prepared r locks) = (q', Prepared r locks')"
  using assms
  by (cases p) (force simp: Let_def split: option.splits if_splits prod.splits sum.splits)+

lemma apply_pendings_direct:
  "apply_pendings ps locks = Inr locks' \<Longrightarrow>
    snd (fold apply_direct ps (q, Prepared r locks)) = Prepared r locks'"
proof (induction ps arbitrary: locks q)
  case (Cons p ps)
  then obtain locks1 where 1: "apply_pending p locks = Inr locks1" "apply_pendings ps locks1 = Inr locks'"
    by (auto simp: rbind_Inr_iff)
  from 1(1) obtain q' where "apply_direct p (q, Prepared r locks) = (q', Prepared r locks1)"
    by (rule apply_direct_step)
  with Cons.IH [OF 1(2)] show ?case by simp
qed simp

section \<open>Observed ranges\<close>

definition in_obs :: "observed_range \<Rightarrow> bytes \<Rightarrow> bool" where
  "in_obs obs k \<longleftrightarrow> fst (to_range obs) \<le> k
     \<and> (case snd (to_range obs) of None \<Rightarrow> True | Some h \<Rightarrow> k < h)"

definition obs_wf :: "observed_range \<Rightarrow> bool" where
  "obs_wf obs \<longleftrightarrow>
     (or_start_key_encoded obs = [] \<and> or_start_key_raw obs = []
      \<or> or_start_key_encoded obs = from_raw (or_start_key_raw obs))
     \<and> (or_end_key_encoded obs = [] \<and> or_end_key_raw obs = []
      \<or> or_end_key_encoded obs = from_raw (or_end_key_raw obs) \<and> or_end_key_raw obs \<noteq> [])"

definition in_region :: "region \<Rightarrow> bytes \<Rightarrow> bool" where
  "in_region r k \<longleftrightarrow> in_range (rg_start_key r) (rg_end_key r) k"

lemma from_raw_not_Nil [simp]: "from_raw k \<noteq> []"
proof
  assume "from_raw k = []"
  then have "k = b" for b
    using bytes_asc.enc_prefix_free [of k b] by (simp add: encode_bytes_def from_raw_def)
  from this [of "[]"] this [of "[0]"] show False by simp
qed

lemma Nil_not_from_raw [simp]: "[] \<noteq> from_raw k"
  using from_raw_not_Nil [of k] by metis

lemma from_raw_le: "from_raw a \<le> from_raw b \<longleftrightarrow> a \<le> b"
  by (metis from_raw_less not_le)

lemma in_obs_from_raw:
  "obs_wf obs \<Longrightarrow> in_obs obs (from_raw raw) \<longleftrightarrow>
    or_start_key_raw obs \<le> raw \<and> (raw < or_end_key_raw obs \<or> or_end_key_raw obs = [])"
  by (auto simp: obs_wf_def in_obs_def to_range_def from_raw_le from_raw_less)

lemma contains_raw_key_iff:
  "obs_wf obs \<Longrightarrow> contains_raw_key obs raw \<longleftrightarrow> or_all_key_covered obs \<or> in_obs obs (from_raw raw)"
  by (simp add: contains_raw_key_def is_key_in_range_def in_obs_from_raw)

lemma update_region_key_range_covers:
  "\<not> or_all_key_covered obs \<Longrightarrow> or_all_key_covered (update_region_key_range r obs) \<Longrightarrow>
    in_region r k \<Longrightarrow> in_obs (update_region_key_range r obs) k"
  by (auto simp: update_region_key_range_def in_obs_def to_range_def in_region_def in_range_def
      split: if_splits intro: order_trans less_le_trans)

lemma obs_wf_update [simp]: "obs_wf (update_region_key_range r obs) = obs_wf obs"
  by (simp add: obs_wf_def update_region_key_range_def)

lemma in_obs_update [simp]: "in_obs (obs\<lparr>or_all_key_covered := b\<rparr>) = in_obs obs"
  by (simp add: in_obs_def to_range_def fun_eq_iff)

section \<open>The lock heap counts the tracked locks\<close>

definition lock_weight :: "observed_range \<Rightarrow> timestamp \<Rightarrow> bytes \<Rightarrow> nat \<times> mini_lock \<Rightarrow> nat" where
  "lock_weight obs ts k v = of_bool (in_obs obs k \<and> ml_ts (snd v) = ts)"

definition lock_count :: "observed_range \<Rightarrow> lock_map \<Rightarrow> timestamp \<Rightarrow> nat" where
  "lock_count obs locks ts = bt_sum (lock_weight obs ts) locks"

definition heap_counts :: "lock_heap \<Rightarrow> (timestamp \<Rightarrow> nat) \<Rightarrow> bool" where
  "heap_counts heap c \<longleftrightarrow> bt_wf heap \<and>
     (\<forall>ts. bt_get heap ts = (if c ts = 0 then None else Some (int (c ts))))"

text \<open>What a list of changes adds to the count of a timestamp.\<close>

definition count_delta :: "lock_modified_count list \<Rightarrow> timestamp \<Rightarrow> int" where
  "count_delta ms ts = sum_list (map (\<lambda>(t, n). if t = ts then n else 0) ms)"

lemma count_delta_simps [simp]:
  "count_delta [] ts = 0" "count_delta ((t, n) # ms) ts = (if t = ts then n else 0) + count_delta ms ts"
  by (simp_all add: count_delta_def)

lemma heap_modify_counts:
  assumes "heap_counts heap c"
  shows "heap_modify (ts, n) heap = None \<longleftrightarrow> int (c ts) + n < 0"
    "heap_modify (ts, n) heap = Some heap' \<Longrightarrow> heap_counts heap' (c(ts := nat (int (c ts) + n)))"
proof -
  have get: "(case bt_get heap ts of None \<Rightarrow> 0 | Some c \<Rightarrow> c) = int (c ts)" and wf: "bt_wf heap"
    using assms(1) by (auto simp: heap_counts_def split: option.splits)
  show "heap_modify (ts, n) heap = None \<longleftrightarrow> int (c ts) + n < 0"
    by (simp add: heap_modify_def get Let_def)
  show "heap_counts heap' (c(ts := nat (int (c ts) + n)))" if "heap_modify (ts, n) heap = Some heap'"
  proof -
    have c: "bt_get heap t = (if c t = 0 then None else Some (int (c t)))" for t
      using assms by (simp add: heap_counts_def)
    show ?thesis
      using that wf unfolding heap_counts_def
      by (auto simp: heap_modify_def get Let_def c bt.wf_rem bt.get_rem bt.wf_ins bt.get_ins split: if_splits)
  qed
qed

lemma heap_modify_all_counts:
  assumes "heap_counts heap c" "heap_modify_all ms heap = Some heap'"
  shows "\<exists>c'. heap_counts heap' c' \<and> (\<forall>ts. int (c' ts) = int (c ts) + count_delta ms ts)"
  using assms
proof (induction ms arbitrary: heap c)
  case (Cons m ms)
  obtain ts n where m: "m = (ts, n)" by (cases m)
  obtain h1 where h1: "heap_modify (ts, n) heap = Some h1" "heap_modify_all ms h1 = Some heap'"
    using Cons.prems(2) by (auto simp: m split: Option.bind_splits)
  have pos: "0 \<le> int (c ts) + n" using heap_modify_counts(1) [OF Cons.prems(1), of ts n] h1(1) by simp
  obtain c' where "heap_counts heap' c'" "\<forall>t. int (c' t) = int ((c(ts := nat (int (c ts) + n))) t) + count_delta ms t"
    using Cons.IH [OF heap_modify_counts(2) [OF Cons.prems(1) h1(1)] h1(2)] by blast
  then show ?case using pos by (intro exI [of _ c']) (auto simp: m)
qed auto

lemma heap_insert_counts:
  assumes "heap_counts heap c"
  shows "heap_counts (bt_insert ts ((case bt_get heap ts of None \<Rightarrow> 0 | Some c \<Rightarrow> c) + 1) heap)
    (c(ts := c ts + 1))"
  using assms by (auto simp: heap_counts_def bt.wf_ins bt.get_ins split: option.splits)

lemma build_heap_counts:
  "heap_counts heap c \<Longrightarrow>
   heap_counts (fold (\<lambda>(k, cap, l) heap.
        bt_insert (ml_ts l) ((case bt_get heap (ml_ts l) of None \<Rightarrow> 0 | Some c \<Rightarrow> c) + 1) heap) xs heap)
     (\<lambda>ts. c ts + bt_sum (\<lambda>k v. of_bool (ml_ts (snd v) = ts)) xs)"
proof (induction xs arbitrary: heap c)
  case (Cons x xs)
  obtain k cap l where x: "x = (k, cap, l)" by (cases x)
  have *: "(\<lambda>ts. (c(ml_ts l := c (ml_ts l) + 1)) ts + bt_sum (\<lambda>k v. of_bool (ml_ts (snd v) = ts)) xs)
    = (\<lambda>ts. c ts + bt_sum (\<lambda>k v. of_bool (ml_ts (snd v) = ts)) (x # xs))"
    by (auto simp: x fun_eq_iff)
  from Cons.IH [OF heap_insert_counts [OF Cons.prems, of "ml_ts l"]] show ?case
    unfolding * by (simp add: x)
qed simp

lemma bt_sum_filter:
  "bt_sum f (filter (\<lambda>(k, v). P k) m) = bt_sum (\<lambda>k v. of_bool (P k) * f k v) m"
  by (induction m) auto

lemma build_lock_heap_counts: "heap_counts (build_lock_heap locks obs) (lock_count obs locks)"
proof -
  have "heap_counts [] (\<lambda>_. 0)" by (simp add: heap_counts_def)
  note counts = build_heap_counts [OF this, of "filter (\<lambda>(k, v). in_obs obs k) locks"]
  have "bt_range (fst (to_range obs)) (snd (to_range obs)) locks = filter (\<lambda>(k, v). in_obs obs k) locks"
    by (simp add: bt_range_def in_obs_def)
  with counts show ?thesis
    by (simp add: build_lock_heap_def bt_sum_filter lock_count_def [abs_def]
        lock_weight_def [abs_def] of_bool_conj)
qed

lemma lock_count_insert:
  "bt_wf locks \<Longrightarrow> lock_count obs (bt_insert k v locks) ts + opt_weight (lock_weight obs ts k) (bt_get locks k)
    = lock_count obs locks ts + lock_weight obs ts k v"
  by (simp add: lock_count_def bt.total_ins)

lemma lock_count_remove:
  "bt_wf locks \<Longrightarrow> lock_count obs (bt_remove k locks) ts + opt_weight (lock_weight obs ts k) (bt_get locks k)
    = lock_count obs locks ts"
  by (simp add: lock_count_def bt.total_rem)

lemma lock_count_outside:
  assumes "bt_wf locks" "\<not> in_obs obs k"
  shows "lock_count obs (bt_insert k v locks) = lock_count obs locks"
    "lock_count obs (bt_remove k locks) = lock_count obs locks"
proof -
  have "opt_weight (lock_weight obs ts k) x = 0" "lock_weight obs ts k v = 0" for ts x
    using assms(2) by (cases x; simp add: lock_weight_def)+
  with lock_count_insert [OF assms(1), of obs k v] lock_count_remove [OF assms(1), of obs k]
  show "lock_count obs (bt_insert k v locks) = lock_count obs locks"
    "lock_count obs (bt_remove k locks) = lock_count obs locks"
    by (simp_all add: fun_eq_iff)
qed

lemma lock_count_pos:
  assumes "bt_wf locks" "bt_get locks k = Some (cap, l)" "in_obs obs k"
  shows "lock_count obs locks (ml_ts l) > 0"
  using bt.weight_le_total [OF assms(1,2), of "lock_weight obs (ml_ts l)"] assms(3)
  by (simp add: lock_count_def lock_weight_def)

lemma push_lock_count:
  assumes wf: "bt_wf locks" and ino: "in_obs obs (fst k)"
    and push: "push_lock k l (q, Prepared r locks) = (Inr ms, (q', Prepared r' locks'))"
  shows "int (lock_count obs locks' ts) = int (lock_count obs locks ts) + count_delta ms ts"
proof (cases "bt_get locks (fst k)")
  case None
  then have ms: "ms = [(ml_ts l, 1)]" "locks' = bt_insert (fst k) (snd k, l) locks"
    using push by (auto simp: Let_def split: prod.splits sum.splits)
  then show ?thesis
    using lock_count_insert [OF wf, of obs "fst k" "(snd k, l)" ts] None ino by (auto simp: lock_weight_def)
next
  case (Some v)
  obtain cap old where v: "v = (cap, old)" by (cases v)
  show ?thesis
  proof (cases "ml_ts old = ml_ts l")
    case True
    then show ?thesis using push Some v by auto
  next
    case False
    then have ms: "ms = [(ml_ts old, -1), (ml_ts l, 1)]" "locks' = bt_insert (fst k) (cap, l) locks"
      using push Some v by auto
    then show ?thesis
      using lock_count_insert [OF wf, of obs "fst k" "(cap, l)" ts] Some v ino False by (auto simp: lock_weight_def)
  qed
qed

lemma pop_lock_count:
  assumes wf: "bt_wf locks" and ino: "in_obs obs (fst k)"
    and pop: "pop_lock k t (q, Prepared r locks) = (Inr ms, (q', Prepared r' locks'))"
  shows "int (lock_count obs locks' ts) = int (lock_count obs locks ts) + count_delta ms ts"
proof (cases "\<exists>cap old. bt_get locks (fst k) = Some (cap, old) \<and> ml_ts old = t")
  case True
  then obtain cap old where get: "bt_get locks (fst k) = Some (cap, old)" "ml_ts old = t" by blast
  then have "ms = [(t, -1)]" "locks' = bt_remove (fst k) locks" using pop by auto
  then show ?thesis using lock_count_remove [OF wf, of obs "fst k" ts] get ino by (auto simp: lock_weight_def)
next
  case False
  then have "ms = []" "locks' = locks" using pop by (auto split: option.splits if_splits)
  then show ?thesis by simp
qed

text \<open>The changes of a prepared tracker: what they do to the counts, and that a lock whose count is
  taken away was tracked.\<close>

definition lock_change :: "region \<Rightarrow> bytes \<Rightarrow> tracking \<Rightarrow> lock_modified_count list \<Rightarrow> tracking \<Rightarrow> bool" where
  "lock_change r raw st ms st' \<longleftrightarrow> in_region r (from_raw raw)
     \<and> (\<exists>cap. (\<exists>l. push_lock (from_raw raw, cap) l st = (Inr ms, st')) \<or> (\<exists>ts. pop_lock (from_raw raw, cap) ts st = (Inr ms, st')))"

lemma lock_change_counts:
  assumes wf: "bt_wf locks" and ch: "lock_change r raw (q, Prepared r0 locks) ms st'"
  obtains q' locks' where "st' = (q', Prepared r0 locks')" "bt_wf locks'"
    "\<And>obs. \<not> in_obs obs (from_raw raw) \<Longrightarrow> lock_count obs locks' = lock_count obs locks"
    "\<And>obs ts. in_obs obs (from_raw raw) \<Longrightarrow> int (lock_count obs locks' ts) = int (lock_count obs locks ts) + count_delta ms ts"
proof -
  obtain cap where "(\<exists>l. push_lock (from_raw raw, cap) l (q, Prepared r0 locks) = (Inr ms, st'))
      \<or> (\<exists>ts. pop_lock (from_raw raw, cap) ts (q, Prepared r0 locks) = (Inr ms, st'))"
    using ch by (auto simp: lock_change_def)
  then show ?thesis
  proof (elim disjE exE)
    fix l assume push: "push_lock (from_raw raw, cap) l (q, Prepared r0 locks) = (Inr ms, st')"
    obtain q' locks' where "st' = (q', Prepared r0 locks')" "bt_wf locks'"
      "\<And>obs. \<not> in_obs obs (from_raw raw) \<Longrightarrow> lock_count obs locks' = lock_count obs locks"
      using push wf
      by (auto simp: Let_def bt.wf_ins lock_count_outside split: option.splits if_splits prod.splits sum.splits)
    then show ?thesis using that push_lock_count [OF wf, of _ "(from_raw raw, cap)" l q r0 ms q' r0 locks'] push by simp
  next
    fix ts assume pop: "pop_lock (from_raw raw, cap) ts (q, Prepared r0 locks) = (Inr ms, st')"
    obtain q' locks' where "st' = (q', Prepared r0 locks')" "bt_wf locks'"
      "\<And>obs. \<not> in_obs obs (from_raw raw) \<Longrightarrow> lock_count obs locks' = lock_count obs locks"
      using pop wf by (auto simp: bt.wf_rem lock_count_outside split: option.splits if_splits)
    then show ?thesis using that pop_lock_count [OF wf, of _ "(from_raw raw, cap)" ts q r0 ms q' r0 locks'] pop by simp
  qed
qed

section \<open>Reachable states\<close>

text \<open>The states of a prepared tracker and one of its downstreams: the downstream joined when its range
  was compared with the region; then locks come and go, the downstream's scan state changes, the
  resolved timestamp is advanced and replication is enabled on the delegate, in any order.  The
  downstream is told of a change of the locks only if it takes transactional events, its scan has
  begun and the row of the change was not dropped as an incomplete prewrite.

  \<open>off\<close> is the difference between the counts of its heap and the locks that are tracked: what
  replication made the tracker forget, less the changes the downstream was not told of.\<close>

definition takes_rows :: "downstream \<Rightarrow> bool" where
  "takes_rows d \<longleftrightarrow> ds_kv_api d = TiDb \<and> ready_for_change_events (ds_state d)"

definition untold :: "downstream \<Rightarrow> bytes \<Rightarrow> lock_modified_count list \<Rightarrow> (timestamp \<Rightarrow> int) \<Rightarrow> timestamp \<Rightarrow> int" where
  "untold d raw ms off ts =
    (if ds_lock_heap d \<noteq> None \<and> in_obs (ds_observed_range d) (from_raw raw) then off ts - count_delta ms ts else off ts)"

definition forgotten :: "downstream \<Rightarrow> lock_map \<Rightarrow> (timestamp \<Rightarrow> int) \<Rightarrow> timestamp \<Rightarrow> int" where
  "forgotten d locks off ts =
    (if ds_lock_heap d \<noteq> None then off ts + int (lock_count (ds_observed_range d) locks ts) else off ts)"

inductive cdc_reachable :: "region \<Rightarrow> tracking \<Rightarrow> downstream \<Rightarrow> (timestamp \<Rightarrow> int) \<Rightarrow> bool" for r where
  Joined: "bt_wf locks \<Longrightarrow> obs_wf obs \<Longrightarrow> \<not> or_all_key_covered obs \<Longrightarrow>
    ds_observed_range d = update_region_key_range r obs \<Longrightarrow> ds_lock_heap d = None \<Longrightarrow>
    cdc_reachable r (q, Prepared r locks) d (\<lambda>_. 0)"
| Told: "cdc_reachable r st d off \<Longrightarrow> lock_change r raw st ms st' \<Longrightarrow> takes_rows d \<Longrightarrow>
    downstream_count raw ms d = Some d' \<Longrightarrow> cdc_reachable r st' d' off"
| Untold: "cdc_reachable r st d off \<Longrightarrow> lock_change r raw st ms st' \<Longrightarrow> cdc_reachable r st' d (untold d raw ms off)"
| Enabled: "cdc_reachable r (q, Prepared r0 locks) d off \<Longrightarrow>
    cdc_reachable r (q, Prepared region_default []) d (forgotten d locks off)"
| Advanced: "cdc_reachable r (q, Prepared r0 locks) d off \<Longrightarrow>
    handle_downstream locks min_ts adv d = (res, adv', d') \<Longrightarrow>
    cdc_reachable r (q, Prepared r0 locks) d' off"
| Initialized: "cdc_reachable r st d off \<Longrightarrow> s = snd (on_init_downstream (ds_state d))
      \<or> s = snd (post_init_downstream (ds_state d)) \<or> s = Stopped \<Longrightarrow>
    cdc_reachable r st (d\<lparr>ds_state := s\<rparr>) off"

definition heap_off :: "observed_range \<Rightarrow> lock_map \<Rightarrow> (timestamp \<Rightarrow> int) \<Rightarrow> lock_heap \<Rightarrow> bool" where
  "heap_off obs locks off h \<longleftrightarrow> (\<exists>c. heap_counts h c \<and> (\<forall>ts. int (c ts) = int (lock_count obs locks ts) + off ts))"

definition track_inv :: "region \<Rightarrow> tracking \<Rightarrow> downstream \<Rightarrow> (timestamp \<Rightarrow> int) \<Rightarrow> bool" where
  "track_inv r st d off \<longleftrightarrow> (\<exists>q r0 locks. st = (q, Prepared r0 locks) \<and> bt_wf locks
     \<and> obs_wf (ds_observed_range d)
     \<and> (or_all_key_covered (ds_observed_range d) \<longrightarrow>
          (\<forall>k. in_region r k \<longrightarrow> in_obs (ds_observed_range d) k))
     \<and> (case ds_lock_heap d of None \<Rightarrow> \<forall>ts. off ts = 0 | Some h \<Rightarrow> heap_off (ds_observed_range d) locks off h))"

lemma heap_off_cong:
  "heap_off obs locks off h \<Longrightarrow> (\<And>ts. int (lock_count obs locks' ts) + off' ts = int (lock_count obs locks ts) + off ts) \<Longrightarrow>
    heap_off obs locks' off' h"
  by (simp add: heap_off_def)

lemma downstream_count_fields:
  assumes "downstream_count raw ms d = Some d'"
  shows "ds_observed_range d' = ds_observed_range d" "ds_lock_heap d' = None \<longleftrightarrow> ds_lock_heap d = None"
  using assms by (auto simp: downstream_count_def split: if_splits option.splits)

text \<open>The test of the raw key is the test of the encoded key the heap was built with.\<close>

lemma contains_in_obs:
  assumes "track_inv r st d off" "in_region r (from_raw raw)"
  shows "contains_raw_key (ds_observed_range d) raw \<longleftrightarrow> in_obs (ds_observed_range d) (from_raw raw)"
proof -
  have "obs_wf (ds_observed_range d)" "or_all_key_covered (ds_observed_range d) \<Longrightarrow> in_obs (ds_observed_range d) (from_raw raw)"
    using assms by (auto simp: track_inv_def)
  then show ?thesis using contains_raw_key_iff by blast
qed

lemma told_inv:
  assumes inv: "track_inv r st d off" and ch: "lock_change r raw st ms st'" and cnt: "downstream_count raw ms d = Some d'"
  shows "track_inv r st' d' off"
proof -
  obtain q r0 locks where st: "st = (q, Prepared r0 locks)" "bt_wf locks" using inv by (auto simp: track_inv_def)
  obtain q' locks' where st': "st' = (q', Prepared r0 locks')" "bt_wf locks'"
    and outside: "\<And>obs. \<not> in_obs obs (from_raw raw) \<Longrightarrow> lock_count obs locks' = lock_count obs locks"
    and inside: "\<And>obs ts. in_obs obs (from_raw raw) \<Longrightarrow> int (lock_count obs locks' ts) = int (lock_count obs locks ts) + count_delta ms ts"
    using st(2) ch [unfolded st(1)] by (rule lock_change_counts) blast
  note con = contains_in_obs [OF inv, of raw] and obs = downstream_count_fields(1) [OF cnt]
  have reg: "in_region r (from_raw raw)" using ch by (simp add: lock_change_def)
  show ?thesis
  proof (cases "ds_lock_heap d")
    case None
    then have "d' = d" using cnt by (auto simp: downstream_count_def split: if_splits)
    then show ?thesis using inv st' None by (auto simp: track_inv_def)
  next
    case (Some h)
    have h: "heap_off (ds_observed_range d) locks off h" using inv Some st by (auto simp: track_inv_def)
    obtain h' where h': "ds_lock_heap d' = Some h'" "heap_off (ds_observed_range d) locks' off h'"
    proof (cases "in_obs (ds_observed_range d) (from_raw raw)")
      case False
      then have "d' = d" using cnt con [OF reg] by (simp add: downstream_count_def)
      then show ?thesis using that Some heap_off_cong [OF h] outside [OF False] by simp
    next
      case True
      then obtain h' where h': "heap_modify_all ms h = Some h'" "ds_lock_heap d' = Some h'"
        using cnt con [OF reg] Some by (auto simp: downstream_count_def split: if_splits)
      obtain c where c: "heap_counts h c" "\<forall>ts. int (c ts) = int (lock_count (ds_observed_range d) locks ts) + off ts"
        using h by (auto simp: heap_off_def)
      then have "heap_off (ds_observed_range d) locks' off h'"
        using heap_modify_all_counts [OF c(1) h'(1)] inside [OF True] by (fastforce simp: heap_off_def)
      then show ?thesis using that h'(2) by blast
    qed
    then show ?thesis using inv st' by (auto simp: track_inv_def obs)
  qed
qed

lemma untold_inv:
  assumes inv: "track_inv r st d off" and ch: "lock_change r raw st ms st'"
  shows "track_inv r st' d (untold d raw ms off)"
proof -
  obtain q r0 locks where st: "st = (q, Prepared r0 locks)" "bt_wf locks" using inv by (auto simp: track_inv_def)
  obtain q' locks' where st': "st' = (q', Prepared r0 locks')" "bt_wf locks'"
    and outside: "\<And>obs. \<not> in_obs obs (from_raw raw) \<Longrightarrow> lock_count obs locks' = lock_count obs locks"
    and inside: "\<And>obs ts. in_obs obs (from_raw raw) \<Longrightarrow> int (lock_count obs locks' ts) = int (lock_count obs locks ts) + count_delta ms ts"
    using st(2) ch [unfolded st(1)] by (rule lock_change_counts) blast
  have "heap_off (ds_observed_range d) locks' (untold d raw ms off) h" if "ds_lock_heap d = Some h" for h
  proof -
    have "heap_off (ds_observed_range d) locks off h" using inv that st by (auto simp: track_inv_def)
    then show ?thesis
      by (rule heap_off_cong) (use inside outside that in \<open>auto simp: untold_def\<close>)
  qed
  then show ?thesis using inv st' by (auto simp: track_inv_def untold_def split: option.splits)
qed

lemma enabled_inv:
  assumes "track_inv r (q, Prepared r0 locks) d off"
  shows "track_inv r (q, Prepared region_default []) d (forgotten d locks off)"
proof -
  have "heap_off (ds_observed_range d) [] (forgotten d locks off) h" if "ds_lock_heap d = Some h" for h
  proof -
    have "heap_off (ds_observed_range d) locks off h" using assms that by (auto simp: track_inv_def)
    then show ?thesis by (rule heap_off_cong) (use that in \<open>auto simp: forgotten_def lock_count_def\<close>)
  qed
  then show ?thesis using assms by (auto simp: track_inv_def forgotten_def split: option.splits)
qed

lemma handle_downstream_inv:
  assumes "track_inv r (q, Prepared r0 locks) d off" "handle_downstream locks min_ts adv d = (res, adv', d')"
  shows "track_inv r (q, Prepared r0 locks) d' off"
  using assms build_lock_heap_counts [of locks "ds_observed_range d"]
  by (auto simp: track_inv_def handle_downstream_def Let_def heap_off_def split: if_splits option.splits)

lemma cdc_reachable_inv: "cdc_reachable r st d off \<Longrightarrow> track_inv r st d off"
proof (induction rule: cdc_reachable.induct)
  case (Joined locks obs d q)
  then show ?case using update_region_key_range_covers [of obs r] by (auto simp: track_inv_def)
next
  case (Initialized st d off s)
  then show ?case by (cases "ds_lock_heap d") (auto simp: track_inv_def)
qed (blast intro: told_inv untold_inv enabled_inv handle_downstream_inv)+

section \<open>The resolved timestamp\<close>

definition observed_lock_ts :: "observed_range \<Rightarrow> lock_map \<Rightarrow> timestamp set" where
  "observed_lock_ts obs locks = {ml_ts l |k cap l. bt_get locks k = Some (cap, l) \<and> in_obs obs k}"

text \<open>The timestamps the heap of a downstream holds back.\<close>

definition held_ts :: "observed_range \<Rightarrow> lock_map \<Rightarrow> (timestamp \<Rightarrow> int) \<Rightarrow> timestamp set" where
  "held_ts obs locks off = {ts. int (lock_count obs locks ts) + off ts \<noteq> 0}"

lemma lock_count_iff:
  assumes "bt_wf locks"
  shows "lock_count obs locks ts \<noteq> 0 \<longleftrightarrow> ts \<in> observed_lock_ts obs locks"
proof -
  have "lock_count obs locks ts \<noteq> 0 \<longleftrightarrow> (\<exists>k cap l. (k, cap, l) \<in> set locks \<and> in_obs obs k \<and> ml_ts l = ts)"
    by (force simp: lock_count_def bt_sum_def lock_weight_def)
  then show ?thesis by (auto simp: observed_lock_ts_def bt_get_Some_in [OF assms])
qed

lemma held_ts_exact: "bt_wf locks \<Longrightarrow> (\<And>ts. off ts = 0) \<Longrightarrow> held_ts obs locks off = observed_lock_ts obs locks"
  using lock_count_iff [of locks obs] by (auto simp: held_ts_def)

lemma heap_min:
  assumes "heap_off obs locks off heap"
  shows "min (case bt_first_key heap of None \<Rightarrow> min_ts | Some ts \<Rightarrow> ts) min_ts = Min (insert min_ts (held_ts obs locks off))"
proof -
  obtain c where c: "heap_counts heap c" "\<forall>ts. int (c ts) = int (lock_count obs locks ts) + off ts"
    using assms by (auto simp: heap_off_def)
  have dom: "bt_get heap ts \<noteq> None \<longleftrightarrow> ts \<in> held_ts obs locks off" for ts
  proof -
    have "bt_get heap ts \<noteq> None \<longleftrightarrow> int (c ts) \<noteq> 0" using c(1) by (simp add: heap_counts_def)
    then show ?thesis using c(2) by (simp add: held_ts_def)
  qed
  have "held_ts obs locks off \<subseteq> fst ` set heap" using dom by (auto simp: bt_get_None_iff)
  then have fin: "finite (held_ts obs locks off)" by (rule finite_subset) simp
  show ?thesis
  proof (cases "bt_first_key heap")
    case None
    then have "held_ts obs locks off = {}" using dom by auto
    then show ?thesis by (simp add: None del: bt_first_key_None)
  next
    case (Some ts)
    have wf: "bt_wf heap" using c(1) by (simp add: heap_counts_def)
    have ts: "ts \<in> held_ts obs locks off" "\<forall>t \<in> held_ts obs locks off. ts \<le> t"
      using bt_first_key_least [OF wf Some] dom by auto
    then have "Min (held_ts obs locks off) = ts" using fin by (intro Min_eqI) auto
    then show ?thesis using Some ts(1) fin by (subst Min_insert) (auto simp: min.commute)
  qed
qed

lemma handle_downstream_exact:
  assumes inv: "track_inv r (q, Prepared r0 locks) d off" and ready: "ds_state d = Normal"
  shows "fst (handle_downstream locks min_ts adv d) =
      Some (max (ds_advanced_to d) (Min (insert min_ts (held_ts (ds_observed_range d) locks off))))"
    "ds_advanced_to (snd (snd (handle_downstream locks min_ts adv d))) =
      max (ds_advanced_to d) (Min (insert min_ts (held_ts (ds_observed_range d) locks off)))"
proof -
  define h where "h = (case ds_lock_heap d of None \<Rightarrow> build_lock_heap locks (ds_observed_range d) | Some h \<Rightarrow> h)"
  have "heap_off (ds_observed_range d) locks off h"
    using inv build_lock_heap_counts [of locks "ds_observed_range d"]
    by (auto simp: track_inv_def h_def heap_off_def split: option.splits)
  note m = heap_min [OF this, of min_ts]
  show "fst (handle_downstream locks min_ts adv d) =
      Some (max (ds_advanced_to d) (Min (insert min_ts (held_ts (ds_observed_range d) locks off))))"
    "ds_advanced_to (snd (snd (handle_downstream locks min_ts adv d))) =
      max (ds_advanced_to d) (Min (insert min_ts (held_ts (ds_observed_range d) locks off)))"
    unfolding m [symmetric] using ready
    by (auto simp: handle_downstream_def h_def [symmetric] Let_def max_def
        simp del: min_less_iff_conj min.bounded_iff)
qed

text \<open>A count is taken away only of a lock that is tracked.\<close>

lemma lock_change_tracked:
  assumes wf: "bt_wf locks" and ch: "lock_change r raw (q, Prepared r0 locks) ms st'" and ino: "in_obs obs (from_raw raw)"
    and hc: "heap_counts h c" and le: "\<And>ts. lock_count obs locks ts \<le> c ts"
  shows "heap_modify_all ms h \<noteq> None"
proof -
  have pos: "c (ml_ts old) > 0" if "bt_get locks (from_raw raw) = Some (cap, old)" for cap old
    using lock_count_pos [OF wf that ino] le [of "ml_ts old"] by simp
  consider "ms = []" | ts where "ms = [(ts, 1)]" | cap' old where "ms = [(ml_ts old, -1)]" "bt_get locks (from_raw raw) = Some (cap', old)"
    | cap' old ts where "ms = [(ml_ts old, -1), (ts, 1)]" "bt_get locks (from_raw raw) = Some (cap', old)"
  proof (cases "bt_get locks (from_raw raw)")
    case None
    have "ms = [] \<or> (\<exists>ts. ms = [(ts, 1)])"
      using ch unfolding lock_change_def
    proof (elim conjE exE disjE)
      fix cap l assume "push_lock (from_raw raw, cap) l (q, Prepared r0 locks) = (Inr ms, st')"
      then show ?thesis
        by (cases "quota_alloc cap q"; cases "fst (quota_alloc cap q)") (auto simp: None Let_def)
    qed (simp add: None)
    then show ?thesis using that(1,2) by blast
  next
    case (Some v)
    obtain cap' old where v: "v = (cap', old)" by (cases v)
    show ?thesis using ch Some that(1) that(3) [of old cap'] that(4) [of old _ cap'] by (auto simp: lock_change_def v split: if_splits)
  qed
  then show ?thesis
  proof cases
    case (2 ts)
    then show ?thesis using heap_modify_counts(1) [OF hc, of ts 1] by (auto split: Option.bind_splits)
  next
    case (3 cap' old)
    then show ?thesis using heap_modify_counts(1) [OF hc, of "ml_ts old" "-1"] pos [OF 3(2)] by (auto split: Option.bind_splits)
  next
    case (4 cap' old ts)
    then obtain h1 where h1: "heap_modify (ml_ts old, -1) h = Some h1"
      using heap_modify_counts(1) [OF hc, of "ml_ts old" "-1"] pos [OF 4(2)] by (cases "heap_modify (ml_ts old, -1) h") auto
    then show ?thesis
      using heap_modify_counts(1) [OF heap_modify_counts(2) [OF hc h1], of ts 1] 4(1) by (auto split: Option.bind_splits)
  qed simp
qed

section \<open>Properties\<close>

text \<open>C2: the resolved timestamp is exact.  In every reachable state of a prepared delegate, advancing a
  downstream whose scan is complete to \<open>min_ts\<close> yields the smallest of \<open>min_ts\<close> and the timestamps whose
  count is not zero, the count being the locks tracked on the observed keys, plus those that enabling
  replication made the tracker forget, less what the downstream was not told of; only that the timestamp
  given to the downstream never goes back.  So as long as nothing was forgotten or withheld it is the
  smallest of \<open>min_ts\<close> and the start timestamps of the locks currently held on the observed keys.\<close>

theorem resolved_ts_exact:
  assumes "cdc_reachable r (q, Prepared r0 locks) d off" and "ds_state d = Normal"
  shows "fst (handle_downstream locks min_ts adv d) =
      Some (max (ds_advanced_to d) (Min (insert min_ts (held_ts (ds_observed_range d) locks off))))
    \<and> ds_advanced_to (snd (snd (handle_downstream locks min_ts adv d))) =
      max (ds_advanced_to d) (Min (insert min_ts (held_ts (ds_observed_range d) locks off)))
    \<and> ((\<forall>ts. off ts = 0) \<longrightarrow> held_ts (ds_observed_range d) locks off = observed_lock_ts (ds_observed_range d) locks)"
proof -
  note inv = cdc_reachable_inv [OF assms(1)]
  have "bt_wf locks" using inv by (simp add: track_inv_def)
  then show ?thesis using handle_downstream_exact [OF inv assms(2)] held_ts_exact by blast
qed

definition tracked_region :: region where
  "tracked_region = region_default\<lparr>rg_id := 7\<rparr>"

definition joined_downstream :: downstream where
  "joined_downstream = (downstream_new 1 (rg_epoch region_default) 1 1 TiDb False
      (update_region_key_range tracked_region observed_range_default))\<lparr>ds_state := Normal\<rparr>"

lemma joined_downstream_reachable:
  "cdc_reachable tracked_region (quota_new 100, Prepared tracked_region [(from_raw [1], 9, mini_lock_new 5 0)])
    joined_downstream (\<lambda>_. 0)"
  by (rule Joined [where obs = observed_range_default])
    (simp_all add: joined_downstream_def downstream_new_def obs_wf_def observed_range_default_def bt_wf_def)

theorem resolved_ts_exact_witness:
  "fst (handle_downstream [(from_raw [1], 9, mini_lock_new 5 0)] 8
      advance_default joined_downstream) = Some 5"
proof -
  have *: "observed_lock_ts (ds_observed_range joined_downstream) [(from_raw [1], 9, mini_lock_new 5 0)] = {5}"
    by (auto simp: observed_lock_ts_def joined_downstream_def downstream_new_def in_obs_def to_range_def
        update_region_key_range_def observed_range_default_def mini_lock_new_def)
  have normal: "ds_state joined_downstream = Normal" "ds_advanced_to joined_downstream = 0"
    by (simp_all add: joined_downstream_def downstream_new_def)
  show ?thesis
    using resolved_ts_exact [OF joined_downstream_reachable normal(1), of 8 advance_default] by (simp add: * normal)
qed

text \<open>C14: when the assertion of \<open>sink_downstream_tidb\<close> on the counts of locks can fail.  In every reachable
  state, whatever lock of the region is added or removed next, telling the downstream does not panic as
  long as no timestamp has a negative difference, that is, as long as the changes withheld from the
  downstream do not outweigh what replication made the tracker forget; and when a lock of the observed
  range is removed, it panics exactly if the count of its timestamp, with the difference, is zero.\<close>

theorem lock_heap_never_negative:
  assumes "cdc_reachable r (q, Prepared r0 locks) d off"
  shows "(lock_change r raw (q, Prepared r0 locks) ms st' \<and> (\<forall>ts. 0 \<le> off ts) \<longrightarrow> downstream_count raw ms d \<noteq> None)
    \<and> (contains_raw_key (ds_observed_range d) raw \<and> ds_lock_heap d \<noteq> None \<longrightarrow>
        (downstream_count raw [(ts, -1)] d = None \<longleftrightarrow> int (lock_count (ds_observed_range d) locks ts) + off ts = 0))"
proof -
  note inv = cdc_reachable_inv [OF assms]
  have wf: "bt_wf locks" using inv by (simp add: track_inv_def)
  have heap: "\<exists>c. heap_counts h c \<and> (\<forall>ts. int (c ts) = int (lock_count (ds_observed_range d) locks ts) + off ts)"
    if "ds_lock_heap d = Some h" for h
    using inv that by (simp add: track_inv_def heap_off_def)
  have "downstream_count raw ms d \<noteq> None" if ch: "lock_change r raw (q, Prepared r0 locks) ms st'" and pos: "\<forall>ts. 0 \<le> off ts"
  proof (cases "contains_raw_key (ds_observed_range d) raw \<and> ds_lock_heap d \<noteq> None")
    case True
    then obtain h where h: "ds_lock_heap d = Some h" by blast
    obtain c where c: "heap_counts h c" "\<forall>ts. int (c ts) = int (lock_count (ds_observed_range d) locks ts) + off ts"
      using heap [OF h] by blast
    have "in_obs (ds_observed_range d) (from_raw raw)"
      using True contains_in_obs [OF inv, of raw] ch by (simp add: lock_change_def)
    moreover have "lock_count (ds_observed_range d) locks ts \<le> c ts" for ts
      using c(2) [rule_format, of ts] pos [rule_format, of ts] by simp
    ultimately have "heap_modify_all ms h \<noteq> None" using lock_change_tracked [OF wf ch _ c(1)] by blast
    then show ?thesis by (auto simp: downstream_count_def h)
  qed (auto simp: downstream_count_def)
  moreover have "downstream_count raw [(ts, -1)] d = None \<longleftrightarrow> int (lock_count (ds_observed_range d) locks ts) + off ts = 0"
    if con: "contains_raw_key (ds_observed_range d) raw" and h: "ds_lock_heap d = Some h" for h
  proof -
    obtain c where c: "heap_counts h c" "\<forall>ts. int (c ts) = int (lock_count (ds_observed_range d) locks ts) + off ts"
      using heap [OF h] by blast
    have "heap_modify_all [(ts, -1)] h = None \<longleftrightarrow> int (c ts) = 0"
      using heap_modify_counts(1) [OF c(1), of ts "-1"] by (auto split: Option.bind_splits)
    then show ?thesis using c(2) con h by (simp add: downstream_count_def)
  qed
  ultimately show ?thesis by blast
qed

theorem lock_heap_never_negative_witness:
  "downstream_count [1] [(5, -1)] joined_downstream \<noteq> None"
proof -
  have "pop_lock (from_raw [1], 9) 5 (quota_new 100,
      Prepared tracked_region [(from_raw [1], 9, mini_lock_new 5 0)]) =
    (Inr [(5, -1)], (quota_free 9 (quota_new 100), Prepared tracked_region []))"
    by (simp add: mini_lock_new_def)
  then have "lock_change tracked_region [1] (quota_new 100, Prepared tracked_region [(from_raw [1], 9, mini_lock_new 5 0)])
      [(5, -1)] (quota_free 9 (quota_new 100), Prepared tracked_region [])"
    by (auto simp: lock_change_def in_region_def in_range_def tracked_region_def region_default_def simp del: pop_lock.simps)
  then show ?thesis
    using lock_heap_never_negative [OF joined_downstream_reachable, of "[1]" "[(5, -1)]"] by blast
qed

text \<open>C15: memory accounting.  Whatever locks are tracked and untracked before and after the region's
  lock scan completes, and whenever replication is enabled, if none of these steps fails then dropping
  the delegate returns the shared memory quota to what the rest of the process uses, plus the bytes of
  the locks that enabling replication made the tracker forget.\<close>

theorem tracker_returns_quota:
  assumes "0 \<le> mq_in_use q" "mq_in_use q \<le> int (mq_capacity q)" "mq_capacity q \<le> MAX_MEMORY_ALLOC_SIZE"
    and "list_all tracker_op_wf xs" "run_tracker xs (q, Preparing []) = Some st"
  shows "mq_in_use (drop_tracking st) = mq_in_use q + int (leaked xs (q, Preparing []))"
proof -
  have "charged (mq_in_use q) (q, Preparing [])"
    using assms(1-3) by (simp add: charged_def quota_sane_def tracker_wf_def tracker_heap_size_def)
  from run_tracker_charged [OF this assms(4,5)] show ?thesis by (cases st) (auto dest: drop_tracking_charged)
qed

text \<open>A lock that was tracked when replication was enabled is never paid back.\<close>

theorem tracker_returns_quota_witness:
  "mq_in_use (drop_tracking (\<lparr>mq_in_use = 9, mq_capacity = 100\<rparr>, Prepared region_default [])) = 0 + int 9"
proof -
  let ?ops = "[TPush ([1], 9) (mini_lock_new 5 0), TFinish region_default [], TEnablePcr]"
  have steps: "push_lock ([1], 9) (mini_lock_new 5 0) (quota_new 100, Preparing []) =
      (Inr [], \<lparr>mq_in_use = 9, mq_capacity = 100\<rparr>, Preparing [Track ([1], 9) (mini_lock_new 5 0)])"
    "finish_prepare_lock_tracker region_default [] (\<lparr>mq_in_use = 9, mq_capacity = 100\<rparr>, Preparing [Track ([1], 9) (mini_lock_new 5 0)])
      = (Inr (), \<lparr>mq_in_use = 9, mq_capacity = 100\<rparr>, Prepared region_default [([1], 9, mini_lock_new 5 0)])"
    by (simp_all add: quota_new_def adjust_capacity_def quota_alloc_def saturating_sub_usize_def
        MAX_MEMORY_ALLOC_SIZE_def quota_free_def locks_heap_size_def Let_def)
  have "run_tracker ?ops (quota_new 100, Preparing []) = Some (\<lparr>mq_in_use = 9, mq_capacity = 100\<rparr>, Prepared region_default [])"
    "leaked ?ops (quota_new 100, Preparing []) = 9"
    by (simp_all add: steps tracker_heap_size_def locks_heap_size_def del: push_lock.simps finish_prepare_lock_tracker.simps)
  then show ?thesis
    using tracker_returns_quota [of "quota_new 100" ?ops]
    by (simp add: quota_new_def adjust_capacity_def MAX_MEMORY_ALLOC_SIZE_def del: run_tracker.simps leaked.simps)
qed

text \<open>a lock rejected by the quota in the prepared state is inserted before the quota is asked, so
  the delegate that is then dropped gives back bytes it never got: the quota ends up below what the
  rest of the process uses, by the rejected key's size.\<close>

theorem rejected_lock_overfrees:
  assumes "charged base (q, Prepared r locks)" and "bt_get locks k = None"
    and "mq_in_use q + int cap > int (mq_capacity q)" and "int cap \<le> base"
  shows "\<exists>st'. push_lock (k, cap) l (q, Prepared r locks) = (Inl CdcMemoryQuotaExceeded, st')
    \<and> mq_in_use (drop_tracking st') = base - int cap"
proof -
  let ?locks = "bt_insert k (cap, l) locks"
  have q: "quota_sane q" "bt_wf locks" "mq_in_use q = base + int (locks_heap_size locks)"
    using assms(1) by (auto simp: charged_def tracker_wf_def tracker_heap_size_def)
  have "locks_heap_size ?locks = locks_heap_size locks + cap"
    using q(2) assms(2) by (simp add: locks_heap_size_def bt.total_ins_vacant)
  then have "mq_in_use (drop_tracking (q, Prepared r ?locks)) = base - int cap"
    using q assms(4) quota_free_exact [of q "locks_heap_size ?locks"]
    by (simp add: drop_tracking_def tracker_heap_size_def)
  moreover have "push_lock (k, cap) l (q, Prepared r locks) = (Inl CdcMemoryQuotaExceeded, (q, Prepared r ?locks))"
    using q(1) assms(2,3) by (simp add: quota_alloc_sane)
  ultimately show ?thesis by blast
qed

theorem rejected_lock_overfrees_witness:
  "\<exists>st'. push_lock ([1], 9) (mini_lock_new 5 0) (\<lparr>mq_in_use = 20, mq_capacity = 25\<rparr>, Prepared region_default [])
      = (Inl CdcMemoryQuotaExceeded, st') \<and> mq_in_use (drop_tracking st') = 20 - int 9"
  by (rule rejected_lock_overfrees)
    (simp_all add: charged_def tracker_wf_def quota_sane_def tracker_heap_size_def locks_heap_size_def
      MAX_MEMORY_ALLOC_SIZE_def)

text \<open>buffering loses nothing.  When the region's lock scan completes and the buffered changes replay
  on the scanned locks without the consistency assertion failing, the resulting locks are those that
  applying the same changes directly to the scanned locks would have given.\<close>

theorem buffered_locks_equal_direct:
  assumes "apply_pendings ps locks = Inr locks'"
  shows "snd (fold apply_direct ps (q, Prepared r locks)) = Prepared r locks'"
  using assms by (rule apply_pendings_direct)

theorem buffered_locks_equal_direct_witness:
  "snd (fold apply_direct [Track ([1], 9) (mini_lock_new 5 0), Untrack ([2], 9) 4]
      (quota_new 100, Prepared region_default [([2], 9, mini_lock_new 4 0)])) =
    Prepared region_default [([1], 9, mini_lock_new 5 0)]"
  by (rule buffered_locks_equal_direct) (simp add: mini_lock_new_def)

end
