(* ===== verification/DirectIngest.thy ===== *)
theory DirectIngest
  imports LockTracking
begin

text \<open>
  The consumer's errors (\<open>stream-ingest/src/errors.rs\<close>) and its direct ingestion context
  (\<open>stream-ingest/src/direct_ingest.rs\<close>): the cached regions and the two writes that bypass Raft.

  The storage engine is a type variable \<open>'e\<close>.  What the code calls outside this crate is the record
  \<open>engine_ops\<close> of parameters: building an SST file from a sorted run of pairs, ingesting one into a
  column family, deleting a range, the placement driver's region lookup and writing a temporary file.
  What the proofs rely on is \<open>engine_spec\<close>, RocksDB's documented behaviour.
\<close>

section \<open>Errors\<close>

datatype si_error =
    TabletNotFound u64
  | TabletNotAvailable u64
  | RegionEpochMismatch u64 u64 u64 u64
  | IngestError string
  | SstWriterError string
  | SubscriptionError string
  | CheckpointError string
  | ConfigError string
  | SerdeError
  | IoError
  | OtherError string

section \<open>The engine and the placement driver\<close>

datatype delete_strategy = DeleteFiles | DeleteByKey

record 'e engine_ops =
  eo_build_sst :: "string \<Rightarrow> (bytes \<times> bytes) list \<Rightarrow> si_error + bytes"
  eo_ingest_external_file_cf :: "string \<Rightarrow> bytes \<Rightarrow> 'e \<Rightarrow> (string + unit) \<times> 'e"
  eo_delete_ranges_cf :: "string \<Rightarrow> delete_strategy \<Rightarrow> bytes \<Rightarrow> bytes \<Rightarrow> 'e \<Rightarrow> (string + bool) \<times> 'e"
  eo_get_region_info :: "bytes \<Rightarrow> string + u64"
  eo_write_tmp :: "bytes \<Rightarrow> bool"

section \<open>The ingestion context\<close>

type_synonym region_states = "(u64, region) btree"

record 'e ingest_ctx =
  ic_engine :: 'e
  ic_region_states :: region_states

definition ingest_ctx_new :: "'e \<Rightarrow> 'e ingest_ctx" where
  "ingest_ctx_new e = \<lparr>ic_engine = e, ic_region_states = []\<rparr>"

definition update_region :: "region \<Rightarrow> 'e ingest_ctx \<Rightarrow> 'e ingest_ctx" where
  "update_region r c = c\<lparr>ic_region_states := bt_insert (rg_id r) r (ic_region_states c)\<rparr>"

definition remove_region :: "u64 \<Rightarrow> 'e ingest_ctx \<Rightarrow> 'e ingest_ctx" where
  "remove_region region_id c = c\<lparr>ic_region_states := bt_remove region_id (ic_region_states c)\<rparr>"

definition split_by :: "bytes \<Rightarrow> region \<Rightarrow> bool" where
  "split_by split_key r =
    (rg_start_key r < split_key \<and> (rg_end_key r = [] \<or> split_key < rg_end_key r))"

definition ctx_handle_split :: "bytes \<Rightarrow> 'e ingest_ctx \<Rightarrow> 'e ingest_ctx" where
  "ctx_handle_split split_key c =
    (let regions_to_update = map fst (filter (\<lambda>(i, r). split_by split_key r) (ic_region_states c))
     in c\<lparr>ic_region_states := fold bt_remove regions_to_update (ic_region_states c)\<rparr>)"

definition ctx_contains_key :: "u64 \<Rightarrow> bytes \<Rightarrow> 'e ingest_ctx \<Rightarrow> bool" where
  "ctx_contains_key region_id k c =
    (case bt_get (ic_region_states c) region_id of
       Some r \<Rightarrow> k \<ge> rg_start_key r \<and> (rg_end_key r = [] \<or> k < rg_end_key r)
     | None \<Rightarrow> False)"

definition region_count :: "'e ingest_ctx \<Rightarrow> nat" where
  "region_count c = length (ic_region_states c)"

definition ingest_sst ::
  "'e engine_ops \<Rightarrow> bytes \<Rightarrow> bytes \<Rightarrow> string \<Rightarrow> 'e ingest_ctx \<Rightarrow> (si_error + u64) \<times> 'e ingest_ctx" where
  "ingest_sst ops sst_data first_key cf c =
    (if sst_data = [] then (Inr 0, c)
     else
       (case eo_get_region_info ops first_key of
          Inl e \<Rightarrow> (Inl (IngestError e), c)
        | Inr region_id \<Rightarrow>
          if \<not> eo_write_tmp ops sst_data then (Inl IoError, c)
          else
            (case eo_ingest_external_file_cf ops cf sst_data (ic_engine c) of
               (Inr _, e) \<Rightarrow> (Inr region_id, c\<lparr>ic_engine := e\<rparr>)
             | (Inl msg, e) \<Rightarrow> (Inl (IngestError msg), c\<lparr>ic_engine := e\<rparr>))))"

definition DATA_CFS :: "string list" where
  "DATA_CFS = [''default'', ''write'', ''lock'']"

text \<open>The results of the deletions are discarded.\<close>

definition apply_delete_range :: "'e engine_ops \<Rightarrow> bytes \<Rightarrow> bytes \<Rightarrow> 'e ingest_ctx \<Rightarrow> 'e ingest_ctx" where
  "apply_delete_range ops start_key end_key c =
    fold (\<lambda>cf c.
        let (_, e) = eo_delete_ranges_cf ops cf DeleteFiles start_key end_key (ic_engine c);
            (_, e) = eo_delete_ranges_cf ops cf DeleteByKey start_key end_key e
        in c\<lparr>ic_engine := e\<rparr>)
      DATA_CFS c"

definition validate_region_epoch :: "u64 \<Rightarrow> bytes \<Rightarrow> bytes \<Rightarrow> 'e ingest_ctx \<Rightarrow> si_error + unit" where
  "validate_region_epoch region_id expected_start expected_end c =
    (case bt_get (ic_region_states c) region_id of
       None \<Rightarrow> Inl (RegionEpochMismatch 0 0 0 0)
     | Some r \<Rightarrow>
       let mismatch = Inl (RegionEpochMismatch (of_nat (length expected_start)) (of_nat (length expected_end))
             (of_nat (length (rg_start_key r))) (of_nat (length (rg_end_key r)))) in
       if rg_start_key r \<noteq> expected_start then mismatch
       else if rg_end_key r \<noteq> expected_end then mismatch
       else Inr ())"

section \<open>What the engine promises\<close>

definition overlay :: "(bytes \<times> bytes) list \<Rightarrow> (bytes \<Rightarrow> bytes option) \<Rightarrow> bytes \<Rightarrow> bytes option" where
  "overlay kvs m k = (case map_of (rev kvs) k of Some v \<Rightarrow> Some v | None \<Rightarrow> m k)"

text \<open>Some keys of a range are gone; all of them when \<open>full\<close>.\<close>

definition keys_gone :: "bool \<Rightarrow> bytes \<Rightarrow> bytes \<Rightarrow> (bytes \<Rightarrow> 'v option) \<Rightarrow> (bytes \<Rightarrow> 'v option) \<Rightarrow> bool" where
  "keys_gone full a b m m' \<longleftrightarrow>
     (\<forall>k. if a \<le> k \<and> k < b then m' k = None \<or> \<not> full \<and> m' k = m k else m' k = m k)"

text \<open>A deletion may fail after it removed some of the keys; the deletion of files leaves those outside of
  its files.\<close>

definition engine_spec :: "'e engine_ops \<Rightarrow> ('e \<Rightarrow> string \<Rightarrow> bytes \<Rightarrow> bytes option) \<Rightarrow> bool" where
  "engine_spec ops get \<longleftrightarrow>
     (\<forall>cf kvs sst. eo_build_sst ops cf kvs = Inr sst \<longrightarrow>
        sst \<noteq> [] \<and> sorted_wrt (<) (map fst kvs)
        \<and> (\<forall>e e'. eo_ingest_external_file_cf ops cf sst e = (Inr (), e') \<longrightarrow>
             get e' = (get e)(cf := overlay kvs (get e cf))))
     \<and> (\<forall>cf sst e e' msg. eo_ingest_external_file_cf ops cf sst e = (Inl msg, e') \<longrightarrow> get e' = get e)
     \<and> (\<forall>cf strategy a b e r e'. eo_delete_ranges_cf ops cf strategy a b e = (r, e') \<longrightarrow>
          (\<forall>cf'. cf' \<noteq> cf \<longrightarrow> get e' cf' = get e cf')
          \<and> keys_gone (strategy = DeleteByKey \<and> is_ok r) a b (get e cf) (get e' cf))"

lemma engine_spec_build:
  "engine_spec ops get \<Longrightarrow> eo_build_sst ops cf kvs = Inr sst \<Longrightarrow> sst \<noteq> [] \<and> sorted_wrt (<) (map fst kvs)"
  by (auto simp: engine_spec_def)

lemma engine_spec_ingest:
  "engine_spec ops get \<Longrightarrow> eo_build_sst ops cf kvs = Inr sst \<Longrightarrow>
    eo_ingest_external_file_cf ops cf sst e = (Inr u, e') \<Longrightarrow> get e' = (get e)(cf := overlay kvs (get e cf))"
  by (auto simp: engine_spec_def)

lemma keys_goneD:
  "keys_gone full a b m m' \<Longrightarrow> a \<le> k \<Longrightarrow> k < b \<Longrightarrow> m' k = None \<or> \<not> full \<and> m' k = m k"
  "keys_gone full a b m m' \<Longrightarrow> \<not> (a \<le> k \<and> k < b) \<Longrightarrow> m' k = m k"
  unfolding keys_gone_def by metis+

lemma keys_gone_trans: "keys_gone f a b m m1 \<Longrightarrow> keys_gone g a b m1 m2 \<Longrightarrow> keys_gone (f \<or> g) a b m m2"
  unfolding keys_gone_def by metis

lemma engine_spec_delete:
  assumes "engine_spec ops get" "eo_delete_ranges_cf ops cf strategy a b e = (r, e')"
  shows "keys_gone (strategy = DeleteByKey \<and> is_ok r) a b (get e cf) (get e' cf)" "cf' \<noteq> cf \<Longrightarrow> get e' cf' = get e cf'"
  using assms unfolding engine_spec_def by blast+

text \<open>The two deletions of a range in one column family: what they leave of it, and whether the deletion
  by key succeeded.\<close>

definition delete_range_cf :: "'e engine_ops \<Rightarrow> bytes \<Rightarrow> bytes \<Rightarrow> string \<Rightarrow> 'e \<Rightarrow> bool \<times> 'e" where
  "delete_range_cf ops a b cf e =
    (let e = snd (eo_delete_ranges_cf ops cf DeleteFiles a b e)
     in map_prod is_ok id (eo_delete_ranges_cf ops cf DeleteByKey a b e))"

lemma apply_delete_range_cfs:
  "apply_delete_range ops a b c = c\<lparr>ic_engine := fold (\<lambda>cf e. snd (delete_range_cf ops a b cf e)) DATA_CFS (ic_engine c)\<rparr>"
  by (simp add: apply_delete_range_def delete_range_cf_def DATA_CFS_def Let_def split_beta)

lemma delete_range_cf_get:
  assumes "engine_spec ops get" "delete_range_cf ops a b cf e = (done', e')"
  shows "keys_gone done' a b (get e cf) (get e' cf)" "cf' \<noteq> cf \<Longrightarrow> get e' cf' = get e cf'"
proof -
  obtain r1 e1 where 1: "eo_delete_ranges_cf ops cf DeleteFiles a b e = (r1, e1)" by (cases "eo_delete_ranges_cf ops cf DeleteFiles a b e")
  obtain r2 e2 where 2: "eo_delete_ranges_cf ops cf DeleteByKey a b e1 = (r2, e2)" by (cases "eo_delete_ranges_cf ops cf DeleteByKey a b e1")
  have e': "done' = is_ok r2" "e' = e2" using assms(2) by (simp_all add: delete_range_cf_def 1 2)
  show "keys_gone done' a b (get e cf) (get e' cf)"
    using keys_gone_trans [OF engine_spec_delete(1) [OF assms(1) 1] engine_spec_delete(1) [OF assms(1) 2]] by (simp add: e')
  show "cf' \<noteq> cf \<Longrightarrow> get e' cf' = get e cf'"
    using engine_spec_delete(2) [OF assms(1) 1] engine_spec_delete(2) [OF assms(1) 2] by (simp add: e')
qed

text \<open>The column families of which deleting a range by key succeeded, in the run of
  \<open>apply_delete_range\<close>.\<close>

fun deleted_cfs :: "'e engine_ops \<Rightarrow> bytes \<Rightarrow> bytes \<Rightarrow> string list \<Rightarrow> 'e \<Rightarrow> string list" where
  "deleted_cfs ops a b [] e = []"
| "deleted_cfs ops a b (cf # cfs) e =
    (case delete_range_cf ops a b cf e of
       (done', e) \<Rightarrow> (if done' then [cf] else []) @ deleted_cfs ops a b cfs e)"

lemma deleted_cfs_sub: "set (deleted_cfs ops a b cfs e) \<subseteq> set cfs"
  by (induction cfs arbitrary: e) (fastforce split: prod.splits)+

lemma deleted_cfs_get:
  assumes "engine_spec ops get"
  shows "if cf \<in> set cfs then keys_gone (cf \<in> set (deleted_cfs ops a b cfs e)) a b (get e cf)
      (get (fold (\<lambda>cf e. snd (delete_range_cf ops a b cf e)) cfs e) cf)
    else get (fold (\<lambda>cf e. snd (delete_range_cf ops a b cf e)) cfs e) cf = get e cf"
proof (induction cfs arbitrary: e)
  case (Cons c cfs)
  obtain done' e1 where d: "delete_range_cf ops a b c e = (done', e1)" by (cases "delete_range_cf ops a b c e")
  note one = delete_range_cf_get [OF assms d] and IH = Cons.IH [of e1]
  show ?case
  proof (cases "cf = c")
    case False
    then show ?thesis using IH one(2) [of cf] by (simp add: d split: if_splits)
  next
    case True
    then have g: "keys_gone done' a b (get e cf) (get e1 cf)" using one(1) by simp
    show ?thesis
    proof (cases "cf \<in> set cfs")
      case in_rest: True
      have "keys_gone (cf \<in> set (deleted_cfs ops a b cfs e1)) a b (get e1 cf)
          (get (fold (\<lambda>cf e. snd (delete_range_cf ops a b cf e)) cfs e1) cf)"
        using IH in_rest by simp
      from keys_gone_trans [OF g this] show ?thesis using True by (simp add: d)
    next
      case last: False
      have "cf \<notin> set (deleted_cfs ops a b cfs e1)"
        using last deleted_cfs_sub [of ops a b cfs e1] by blast
      then show ?thesis using IH last g True by (simp add: d)
    qed
  qed
qed simp

lemma apply_delete_range_get:
  assumes "engine_spec ops get"
  shows "if cf \<in> set DATA_CFS
    then keys_gone (cf \<in> set (deleted_cfs ops a b DATA_CFS (ic_engine c))) a b (get (ic_engine c) cf)
      (get (ic_engine (apply_delete_range ops a b c)) cf)
    else get (ic_engine (apply_delete_range ops a b c)) cf = get (ic_engine c) cf"
  using deleted_cfs_get [OF assms, of cf DATA_CFS a b "ic_engine c"] by (simp add: apply_delete_range_cfs)

section \<open>The region cache\<close>

definition ctx_wf :: "'e ingest_ctx \<Rightarrow> bool" where
  "ctx_wf c \<longleftrightarrow> bt_wf (ic_region_states c)
     \<and> (\<forall>i r. bt_get (ic_region_states c) i = Some r \<longrightarrow> rg_id r = i)"

lemma ingest_ctx_new_wf [wf_intros]: "ctx_wf (ingest_ctx_new e)"
  by (simp add: ctx_wf_def ingest_ctx_new_def)

lemma update_region_wf [wf_intros]: "ctx_wf c \<Longrightarrow> ctx_wf (update_region r c)"
  by (auto simp: ctx_wf_def update_region_def bt.wf_ins bt.get_ins)

lemma remove_region_wf [wf_intros]: "ctx_wf c \<Longrightarrow> ctx_wf (remove_region i c)"
  by (auto simp: ctx_wf_def remove_region_def bt.wf_rem bt.get_rem)

lemma bt_wf_fold_remove: "bt_wf m \<Longrightarrow> bt_wf (fold bt_remove ks m)"
  by (induction ks arbitrary: m) (auto simp: bt.wf_rem)

lemma bt_get_fold_remove:
  "bt_wf m \<Longrightarrow> bt_get (fold bt_remove ks m) k = (if k \<in> set ks then None else bt_get m k)"
  by (induction ks arbitrary: m) (auto simp: bt.wf_rem bt.get_rem)

lemma ctx_handle_split_get:
  assumes "ctx_wf c"
  shows "bt_get (ic_region_states (ctx_handle_split k c)) i =
    (case bt_get (ic_region_states c) i of
       Some r \<Rightarrow> if split_by k r then None else Some r | None \<Rightarrow> None)"
proof -
  have wf: "bt_wf (ic_region_states c)" using assms by (simp add: ctx_wf_def)
  have "i \<in> set (map fst (filter (\<lambda>(i, r). split_by k r) (ic_region_states c))) \<longleftrightarrow>
      (\<exists>r. bt_get (ic_region_states c) i = Some r \<and> split_by k r)"
    by (force simp: bt_get_Some_in [OF wf])
  then show ?thesis
    by (auto simp: ctx_handle_split_def Let_def bt_get_fold_remove [OF wf] split: option.splits)
qed

lemma ctx_handle_split_wf [wf_intros]: "ctx_wf c \<Longrightarrow> ctx_wf (ctx_handle_split k c)"
  using ctx_handle_split_get [of c k]
  by (auto simp: ctx_wf_def ctx_handle_split_def Let_def bt_wf_fold_remove split: option.splits if_splits)

section \<open>Properties\<close>

text \<open>A split invalidates exactly the cached regions whose interior holds the split key: afterwards
  a cached region contains a key if it did before and the split key is not strictly inside it, and no
  other entry of the cache changes.\<close>

lemma handle_split_invalidates:
  assumes "ctx_wf c"
  shows "ctx_wf (ctx_handle_split split_key c)
    \<and> (ctx_contains_key i k (ctx_handle_split split_key c) \<longleftrightarrow>
        (\<exists>r. bt_get (ic_region_states c) i = Some r \<and> in_range (rg_start_key r) (rg_end_key r) k
           \<and> \<not> (rg_start_key r < split_key \<and> in_range (rg_start_key r) (rg_end_key r) split_key)))"
  using assms
  by (auto simp: ctx_handle_split_wf ctx_contains_key_def ctx_handle_split_get in_range_def split_by_def
      split: option.splits)

lemma handle_split_invalidates_witness:
  "ctx_wf (ctx_handle_split [5] (update_region region_default (ingest_ctx_new ())))
    \<and> \<not> ctx_contains_key 0 [1] (ctx_handle_split [5] (update_region region_default (ingest_ctx_new ())))"
proof -
  have wf: "ctx_wf (update_region region_default (ingest_ctx_new ()))" by (intro wf_intros)
  show ?thesis
    using handle_split_invalidates [OF wf, of "[5]" 0 "[1]"]
    by (simp add: update_region_def ingest_ctx_new_def region_default_def in_range_def)
qed

end
