(* ===== verification/SstBatcher.thy ===== *)
theory SstBatcher
  imports DirectIngest "HOL-Library.AList"
begin

text \<open>
  The consumer's batcher (\<open>stream-ingest/src/sst_batcher.rs\<close>): it buffers pairs and range deletions
  and, on a flush, groups the pairs by column family, sorts each group, builds an SST file and ingests
  it, then applies the range deletions.

  The groups are a hash map in the source, so the order in which the column families are visited is a
  parameter \<open>order\<close> of the flush, some permutation of the groups.  The clock is \<open>now\<close>.
\<close>

section \<open>State\<close>

record mvcc_kv =
  mkv_key :: bytes
  mkv_value :: bytes
  mkv_cf :: string

datatype flush_reason = BufferFull | FlushCheckpoint | RangeBoundary | Manual

record flush_result =
  fr_region_id :: u64
  fr_ingested_bytes :: u64
  fr_ingested_kvs :: u64

record sst_batcher =
  sb_kv_buffer :: "mvcc_kv list"
  sb_kv_buffer_size :: nat
  sb_max_kv_buffer_size :: nat
  sb_range_buffer :: "(bytes \<times> bytes \<times> u64) list"
  sb_range_buffer_size :: nat
  sb_max_range_buffer_size :: nat
  sb_current_start_key :: bytes
  sb_current_end_key :: bytes
  sb_current_region_id :: u64
  sb_total_flushes :: u64
  sb_total_kvs_written :: u64
  sb_total_bytes_written :: u64
  sb_last_flush_time :: nat

section \<open>Operations\<close>

definition elapsed_since_last_flush :: "nat \<Rightarrow> sst_batcher \<Rightarrow> nat" where
  "elapsed_since_last_flush now b = now - sb_last_flush_time b"

definition pending_kvs :: "sst_batcher \<Rightarrow> nat" where
  "pending_kvs b = length (sb_kv_buffer b)"

definition sst_batcher_new :: "nat \<Rightarrow> nat \<Rightarrow> nat \<Rightarrow> sst_batcher" where
  "sst_batcher_new now max_kv max_range =
    \<lparr>sb_kv_buffer = [], sb_kv_buffer_size = 0, sb_max_kv_buffer_size = max_kv, sb_range_buffer = [],
     sb_range_buffer_size = 0, sb_max_range_buffer_size = max_range, sb_current_start_key = [],
     sb_current_end_key = [], sb_current_region_id = 0, sb_total_flushes = 0,
     sb_total_kvs_written = 0, sb_total_bytes_written = 0, sb_last_flush_time = now\<rparr>"

definition update_current_range :: "bytes \<Rightarrow> sst_batcher \<Rightarrow> sst_batcher" where
  "update_current_range k b =
    (let b = (if sb_current_start_key b = [] then b\<lparr>sb_current_start_key := k\<rparr> else b)
     in b\<lparr>sb_current_end_key := k\<rparr>)"

definition sb_add_kv :: "mvcc_kv \<Rightarrow> sst_batcher \<Rightarrow> bool \<times> sst_batcher" where
  "sb_add_kv kv b =
    (let entry_size = length (mkv_key kv) + length (mkv_value kv);
         b = b\<lparr>sb_kv_buffer_size := sb_kv_buffer_size b + entry_size\<rparr>;
         b = update_current_range (mkv_key kv) b;
         b = b\<lparr>sb_kv_buffer := sb_kv_buffer b @ [kv]\<rparr>
     in (sb_kv_buffer_size b \<ge> sb_max_kv_buffer_size b, b))"

definition add_delete_range :: "bytes \<Rightarrow> bytes \<Rightarrow> u64 \<Rightarrow> sst_batcher \<Rightarrow> sst_batcher" where
  "add_delete_range start_key end_key ts b =
    b\<lparr>sb_range_buffer_size := sb_range_buffer_size b + (length start_key + length end_key),
      sb_range_buffer := sb_range_buffer b @ [(start_key, end_key, ts)]\<rparr>"

fun sb_should_flush :: "flush_reason \<Rightarrow> sst_batcher \<Rightarrow> bool" where
  "sb_should_flush BufferFull b = (sb_kv_buffer_size b \<ge> sb_max_kv_buffer_size b)"
| "sb_should_flush FlushCheckpoint b = (sb_kv_buffer b \<noteq> [])"
| "sb_should_flush RangeBoundary b = (sb_current_region_id b \<noteq> 0 \<and> sb_kv_buffer b \<noteq> [])"
| "sb_should_flush Manual b = (sb_kv_buffer b \<noteq> [])"

definition crosses_region_boundary :: "bytes \<Rightarrow> sst_batcher \<Rightarrow> bool" where
  "crosses_region_boundary k b =
    (if sb_current_end_key b = [] then False else k < sb_current_start_key b)"

text \<open>Grouping by column family, each group in arrival order.\<close>

definition group_push :: "mvcc_kv \<Rightarrow> (string \<times> mvcc_kv list) list \<Rightarrow> (string \<times> mvcc_kv list) list" where
  "group_push kv groups =
    AList.update (mkv_cf kv)
      ((case map_of groups (mkv_cf kv) of None \<Rightarrow> [] | Some kvs \<Rightarrow> kvs) @ [kv]) groups"

definition cf_groups :: "mvcc_kv list \<Rightarrow> (string \<times> mvcc_kv list) list" where
  "cf_groups kvs = fold group_push kvs []"

definition kv_pair :: "mvcc_kv \<Rightarrow> bytes \<times> bytes" where
  "kv_pair kv = (mkv_key kv, mkv_value kv)"

text \<open>One column family: sort, build the SST file, ingest it.  The result is the region and the size
  of the file.\<close>

definition flush_cf ::
  "'e engine_ops \<Rightarrow> string \<Rightarrow> mvcc_kv list \<Rightarrow> 'e ingest_ctx \<Rightarrow> (si_error + u64 \<times> nat) \<times> 'e ingest_ctx" where
  "flush_cf ops cf kvs c =
    (let kvs = sort_key mkv_key kvs;
         first_key = mkv_key (hd kvs) in
     case eo_build_sst ops cf (map kv_pair kvs) of
       Inl e \<Rightarrow> (Inl e, c)
     | Inr sst_data \<Rightarrow>
         (case ingest_sst ops sst_data first_key cf c of
            (Inl e, c) \<Rightarrow> (Inl e, c)
          | (Inr region_id, c) \<Rightarrow> (Inr (region_id, length sst_data), c)))"

fun flush_groups ::
  "'e engine_ops \<Rightarrow> (string \<times> mvcc_kv list) list \<Rightarrow> u64 \<Rightarrow> nat \<Rightarrow> 'e ingest_ctx
     \<Rightarrow> (si_error + u64 \<times> nat) \<times> 'e ingest_ctx" where
  "flush_groups ops [] region_id total_bytes c = (Inr (region_id, total_bytes), c)"
| "flush_groups ops ((cf, kvs) # groups) region_id total_bytes c =
    (case flush_cf ops cf kvs c of
       (Inl e, c) \<Rightarrow> (Inl e, c)
     | (Inr (region_id, sst_size), c) \<Rightarrow> flush_groups ops groups region_id (total_bytes + sst_size) c)"

definition sb_flush ::
  "'e engine_ops \<Rightarrow> ((string \<times> mvcc_kv list) list \<Rightarrow> (string \<times> mvcc_kv list) list) \<Rightarrow> nat
     \<Rightarrow> sst_batcher \<Rightarrow> 'e ingest_ctx \<Rightarrow> (si_error + flush_result) \<times> sst_batcher \<times> 'e ingest_ctx" where
  "sb_flush ops order now b c =
    (if sb_kv_buffer b = [] \<and> sb_range_buffer b = []
     then (Inr \<lparr>fr_region_id = 0, fr_ingested_bytes = 0, fr_ingested_kvs = 0\<rparr>, b, c)
     else
       let kv_count = length (sb_kv_buffer b);
           groups = order (cf_groups (sb_kv_buffer b));
           b = b\<lparr>sb_kv_buffer := []\<rparr> in
       (case flush_groups ops groups 0 0 c of
          (Inl e, c) \<Rightarrow> (Inl e, b, c)
        | (Inr (region_id, total_bytes), c) \<Rightarrow>
            let c = fold (\<lambda>(start_key, end_key, ts). apply_delete_range ops start_key end_key)
                      (sb_range_buffer b) c
            in (Inr \<lparr>fr_region_id = region_id, fr_ingested_bytes = of_nat total_bytes,
                     fr_ingested_kvs = of_nat kv_count\<rparr>,
                b\<lparr>sb_kv_buffer_size := 0, sb_range_buffer := [], sb_range_buffer_size := 0,
                  sb_total_flushes := sb_total_flushes b + 1,
                  sb_total_kvs_written := sb_total_kvs_written b + of_nat kv_count,
                  sb_total_bytes_written := sb_total_bytes_written b + of_nat total_bytes,
                  sb_last_flush_time := now\<rparr>, c)))"

section \<open>Sizes\<close>

definition mkv_bytes :: "mvcc_kv \<Rightarrow> nat" where
  "mkv_bytes kv = length (mkv_key kv) + length (mkv_value kv)"

definition sst_batcher_ok :: "sst_batcher \<Rightarrow> bool" where
  "sst_batcher_ok b \<longleftrightarrow> sb_kv_buffer_size b = sum_list (map mkv_bytes (sb_kv_buffer b))
     \<and> sb_range_buffer_size b = sum_list (map (\<lambda>(s, e, ts). length s + length e) (sb_range_buffer b))"

lemma sst_batcher_new_ok [wf_intros]: "sst_batcher_ok (sst_batcher_new now m n)"
  by (simp add: sst_batcher_ok_def sst_batcher_new_def)

lemma update_current_range_fields [simp]:
  "sb_kv_buffer (update_current_range k b) = sb_kv_buffer b"
  "sb_kv_buffer_size (update_current_range k b) = sb_kv_buffer_size b"
  "sb_max_kv_buffer_size (update_current_range k b) = sb_max_kv_buffer_size b"
  "sb_range_buffer (update_current_range k b) = sb_range_buffer b"
  "sb_range_buffer_size (update_current_range k b) = sb_range_buffer_size b"
  by (simp_all add: update_current_range_def Let_def)

lemma sb_add_kv_ok [wf_intros]: "sst_batcher_ok b \<Longrightarrow> sst_batcher_ok (snd (sb_add_kv kv b))"
  by (simp add: sst_batcher_ok_def sb_add_kv_def Let_def mkv_bytes_def)

lemma add_delete_range_ok [wf_intros]: "sst_batcher_ok b \<Longrightarrow> sst_batcher_ok (add_delete_range s e ts b)"
  by (simp add: sst_batcher_ok_def add_delete_range_def)


section \<open>Grouping and sorting\<close>

lemma group_push_keys:
  "distinct (map fst groups) \<Longrightarrow> distinct (map fst (group_push kv groups))"
  by (simp add: group_push_def distinct_update)

lemma cf_groups_distinct: "distinct (map fst (cf_groups kvs))"
proof -
  have "distinct (map fst (fold group_push kvs gs))" if "distinct (map fst gs)" for gs
    using that by (induction kvs arbitrary: gs) (auto simp: group_push_keys)
  from this [of "[]"] show ?thesis by (simp add: cf_groups_def)
qed

lemma map_of_cf_groups:
  "map_of (cf_groups kvs) cf =
    (let g = filter (\<lambda>kv. mkv_cf kv = cf) kvs in if g = [] then None else Some g)"
proof -
  have "map_of (fold group_push kvs gs) cf =
      (let g = (case map_of gs cf of None \<Rightarrow> [] | Some g \<Rightarrow> g) @ filter (\<lambda>kv. mkv_cf kv = cf) kvs
       in if g = [] then None else Some g)"
    if "map_of gs cf \<noteq> Some []" for gs
    using that
  proof (induction kvs arbitrary: gs)
    case Nil
    then show ?case by (auto simp: Let_def split: option.splits)
  next
    case (Cons kv kvs)
    have up: "map_of (group_push kv gs) cf =
        (if mkv_cf kv = cf then Some ((case map_of gs cf of None \<Rightarrow> [] | Some g \<Rightarrow> g) @ [kv]) else map_of gs cf)"
      by (auto simp: group_push_def update_conv')
    show ?case using Cons.IH [of "group_push kv gs"] Cons.prems by (auto simp: up Let_def)
  qed
  from this [of "[]"] show ?thesis by (simp add: cf_groups_def)
qed

lemma cf_groups_mem:
  "(cf, g) \<in> set (cf_groups kvs) \<longleftrightarrow> g = filter (\<lambda>kv. mkv_cf kv = cf) kvs \<and> g \<noteq> []"
  using map_of_eq_Some_iff [OF cf_groups_distinct, of kvs cf g]
  by (auto simp: map_of_cf_groups Let_def split: if_splits)

text \<open>The value of a key in a run of pairs is the last one written.\<close>

definition last_value :: "mvcc_kv list \<Rightarrow> string \<Rightarrow> bytes \<Rightarrow> bytes option" where
  "last_value kvs cf k = map_of (rev (map kv_pair (filter (\<lambda>kv. mkv_cf kv = cf) kvs))) k"

lemma overlay_sorted:
  assumes "sorted_wrt (<) (map fst (map kv_pair (sort_key mkv_key g)))"
  shows "overlay (map kv_pair (sort_key mkv_key g)) m = overlay (map kv_pair g) m"
    and "distinct (map mkv_key g)"
proof -
  let ?s = "map kv_pair (sort_key mkv_key g)" and ?g = "map kv_pair g"
  have keys: "map fst (map kv_pair xs) = map mkv_key xs" for xs
    by (simp add: kv_pair_def)
  have "distinct (map fst ?s)" using assms by (auto simp: strict_sorted_iff)
  moreover have perm: "mset ?s = mset ?g" by simp
  ultimately have d: "distinct (map fst ?s)" "distinct (map fst ?g)"
    using mset_eq_imp_distinct_iff [of "map fst ?s" "map fst ?g"] by (metis mset_map)+
  then show "distinct (map mkv_key g)" by (simp only: keys)
  have "map_of (rev ?s) = map_of (rev ?g)"
    using d map_of_inject_set [of "rev ?s" "rev ?g"] mset_eq_setD [OF perm]
    by (simp del: map_map flip: rev_map)
  then show "overlay ?s m = overlay ?g m" by (simp add: overlay_def fun_eq_iff)
qed

section \<open>What a flush does to the engine\<close>

lemma flush_cf_get:
  assumes spec: "engine_spec ops get" and ok: "flush_cf ops cf g c = (Inr r, c')"
  shows "get (ic_engine c') = (get (ic_engine c))(cf := overlay (map kv_pair g) (get (ic_engine c) cf))"
    and "distinct (map mkv_key g)"
proof -
  let ?s = "map kv_pair (sort_key mkv_key g)"
  obtain sst where sst: "eo_build_sst ops cf ?s = Inr sst"
    using ok by (auto simp: flush_cf_def Let_def split: sum.splits)
  have sorted: "sst \<noteq> []" "sorted_wrt (<) (map fst ?s)"
    using engine_spec_build [OF spec sst] by auto
  obtain u where ing: "eo_ingest_external_file_cf ops cf sst (ic_engine c) = (Inr u, ic_engine c')"
    using ok sst sorted(1)
    by (auto simp: flush_cf_def ingest_sst_def Let_def split: sum.splits prod.splits if_splits)
  show "get (ic_engine c') = (get (ic_engine c))(cf := overlay (map kv_pair g) (get (ic_engine c) cf))"
    using engine_spec_ingest [OF spec sst ing] overlay_sorted(1) [OF sorted(2)] by simp
  show "distinct (map mkv_key g)" using overlay_sorted(2) [OF sorted(2)] .
qed

lemma flush_groups_get:
  assumes spec: "engine_spec ops get"
  shows "flush_groups ops groups rid n c = (Inr r, c') \<Longrightarrow> distinct (map fst groups) \<Longrightarrow>
    get (ic_engine c') cf =
      (case map_of groups cf of None \<Rightarrow> get (ic_engine c) cf
       | Some g \<Rightarrow> overlay (map kv_pair g) (get (ic_engine c) cf))
    \<and> (\<forall>g \<in> snd ` set groups. distinct (map mkv_key g))"
proof (induction groups arbitrary: rid n c)
  case (Cons x groups)
  obtain cf0 g0 where x: "x = (cf0, g0)" by (cases x)
  obtain rid1 n1 c1 where 1: "flush_cf ops cf0 g0 c = (Inr (rid1, n1), c1)"
    "flush_groups ops groups rid1 (n + n1) c1 = (Inr r, c')"
    using Cons.prems(1) by (auto simp: x split: prod.splits sum.splits)
  have "map_of groups cf0 = None" using Cons.prems(2) by (simp add: x map_of_eq_None_iff)
  moreover have "get (ic_engine c1) cf =
      (if cf = cf0 then overlay (map kv_pair g0) (get (ic_engine c) cf0) else get (ic_engine c) cf)"
    using flush_cf_get(1) [OF spec 1(1)] by simp
  ultimately show ?case
    using Cons.IH [OF 1(2)] Cons.prems(2) flush_cf_get(2) [OF spec 1(1)]
    by (cases "cf = cf0") (simp_all add: x split: option.splits)
qed simp

definition range_deleted :: "(bytes \<times> bytes \<times> u64) list \<Rightarrow> string \<Rightarrow> bytes \<Rightarrow> bool" where
  "range_deleted rs cf k \<longleftrightarrow> cf \<in> set DATA_CFS \<and> (\<exists>(s, e, ts) \<in> set rs. s \<le> k \<and> k < e)"

lemma range_deleted_Nil [simp]: "\<not> range_deleted [] cf k"
  by (simp add: range_deleted_def)








lemma map_of_permuted:
  assumes "mset gs' = mset gs" "distinct (map fst gs)"
  shows "map_of gs' = map_of gs" "distinct (map fst gs')"
proof -
  show d: "distinct (map fst gs')"
    using assms mset_eq_imp_distinct_iff [of "map fst gs'" "map fst gs"] by (metis mset_map)
  show "map_of gs' = map_of gs"
    using map_of_inject_set [OF d assms(2)] mset_eq_setD [OF assms(1)] by simp
qed

lemma sb_flush_get:
  assumes spec: "engine_spec ops get" and order: "\<And>gs. mset (order gs) = mset gs"
    and ok: "sb_flush ops order now b c = (Inr r, b', c')"
  shows "\<exists>c1. c' = fold (\<lambda>(s, e, ts). apply_delete_range ops s e) (sb_range_buffer b) c1
      \<and> (\<forall>cf k. get (ic_engine c1) cf k =
          (case last_value (sb_kv_buffer b) cf k of Some v \<Rightarrow> Some v | None \<Rightarrow> get (ic_engine c) cf k))"
    and "distinct (map mkv_key (filter (\<lambda>kv. mkv_cf kv = cf) (sb_kv_buffer b)))"
proof -
  let ?kvs = "sb_kv_buffer b"
  define groups where "groups = order (cf_groups ?kvs)"
  have perm: "map_of groups = map_of (cf_groups ?kvs)" "distinct (map fst groups)"
    using map_of_permuted [OF order cf_groups_distinct] by (auto simp: groups_def)
  have "(\<exists>c1. c' = fold (\<lambda>(s, e, ts). apply_delete_range ops s e) (sb_range_buffer b) c1
      \<and> (\<forall>cf k. get (ic_engine c1) cf k =
          (case last_value ?kvs cf k of Some v \<Rightarrow> Some v | None \<Rightarrow> get (ic_engine c) cf k)))
    \<and> distinct (map mkv_key (filter (\<lambda>kv. mkv_cf kv = cf) ?kvs))"
  proof (cases "?kvs = [] \<and> sb_range_buffer b = []")
    case True
    then show ?thesis using ok by (simp add: sb_flush_def last_value_def)
  next
    case False
    obtain rid n c1 where fl: "flush_groups ops groups 0 0 c = (Inr (rid, n), c1)"
      and c': "c' = fold (\<lambda>(s, e, ts). apply_delete_range ops s e) (sb_range_buffer b) c1"
      using ok False by (auto simp: sb_flush_def Let_def groups_def split: prod.splits sum.splits if_splits)
    note g = flush_groups_get [OF spec fl perm(2)]
    have "get (ic_engine c1) cf k =
        (case last_value ?kvs cf k of Some v \<Rightarrow> Some v | None \<Rightarrow> get (ic_engine c) cf k)" for cf k
      using g [of cf] by (simp add: perm(1) map_of_cf_groups Let_def last_value_def overlay_def)
    moreover have "distinct (map mkv_key (filter (\<lambda>kv. mkv_cf kv = cf) ?kvs))"
    proof (cases "filter (\<lambda>kv. mkv_cf kv = cf) ?kvs = []")
      case False
      then have "map_of groups cf = Some (filter (\<lambda>kv. mkv_cf kv = cf) ?kvs)"
        by (simp add: perm(1) map_of_cf_groups Let_def)
      from map_of_SomeD [OF this] g [of cf] show ?thesis by force
    qed simp
    ultimately show ?thesis using c' by blast
  qed
  then show "\<exists>c1. c' = fold (\<lambda>(s, e, ts). apply_delete_range ops s e) (sb_range_buffer b) c1
      \<and> (\<forall>cf k. get (ic_engine c1) cf k =
          (case last_value ?kvs cf k of Some v \<Rightarrow> Some v | None \<Rightarrow> get (ic_engine c) cf k))"
    "distinct (map mkv_key (filter (\<lambda>kv. mkv_cf kv = cf) ?kvs))" by blast+
qed

text \<open>Without buffered range deletions a flush is an overlay.\<close>

lemma sb_flush_get_kvs:
  assumes "engine_spec ops get" "\<And>gs. mset (order gs) = mset gs" "sb_range_buffer b = []"
    and "sb_flush ops order now b c = (Inr r, b', c')"
  shows "get (ic_engine c') cf k =
    (case last_value (sb_kv_buffer b) cf k of Some v \<Rightarrow> Some v | None \<Rightarrow> get (ic_engine c) cf k)"
  using sb_flush_get(1) [OF assms(1,2,4)] assms(3) by auto

lemma sb_flush_Inl_fields:
  assumes "sb_flush ops order now b c = (Inl err, b', c')"
  shows "b' = b\<lparr>sb_kv_buffer := []\<rparr>"
  using assms by (auto simp: sb_flush_def Let_def split: if_splits prod.splits sum.splits)

section \<open>Properties\<close>


text \<open>An engine whose SST files hold one pair, with a one-byte key length.\<close>

definition one_pair_ops :: "(string \<Rightarrow> bytes \<Rightarrow> bytes option) engine_ops" where
  "one_pair_ops = \<lparr>
     eo_build_sst = (\<lambda>cf kvs. case kvs of
         [(k, v)] \<Rightarrow> if length k < 256 then Inr ([of_nat (length k)] @ k @ v) else Inl IoError
       | _ \<Rightarrow> Inl (SstWriterError [])),
     eo_ingest_external_file_cf = (\<lambda>cf sst e.
         (Inr (), e(cf := (e cf)(take (unat (hd sst)) (tl sst) \<mapsto> drop (unat (hd sst)) (tl sst))))),
     eo_delete_ranges_cf = (\<lambda>cf strategy a b e.
         (Inr True, if strategy = DeleteFiles then e
                    else e(cf := \<lambda>k. if a \<le> k \<and> k < b then None else e cf k))),
     eo_get_region_info = (\<lambda>k. Inr 2),
     eo_write_tmp = (\<lambda>d. True)\<rparr>"

lemma one_pair_spec: "engine_spec one_pair_ops (\<lambda>e. e)"
  unfolding engine_spec_def one_pair_ops_def
  by (auto simp: overlay_def fun_eq_iff unat_of_nat keys_gone_def split: list.splits if_splits)
    (metis option.simps(5))

definition one_put :: sst_batcher where
  "one_put = snd (sb_add_kv \<lparr>mkv_key = [1], mkv_value = [2], mkv_cf = ''write''\<rparr>
     (add_delete_range [5] [6] 0 (sst_batcher_new 0 100 100)))"



text \<open>a duplicate key loses the batch.  When two buffered pairs of one column family have the same
  key, the SST writer refuses them, the flush fails, and the whole buffer is gone: the pairs of every
  column family were taken out before the failure, while the recorded buffer size still counts
  them.\<close>

theorem duplicate_key_loses_batch:
  assumes "engine_spec ops get" and "\<And>gs. mset (order gs) = mset gs"
    and "\<not> distinct (map mkv_key (filter (\<lambda>kv. mkv_cf kv = cf) (sb_kv_buffer b)))"
  shows "\<exists>err c'. sb_flush ops order now b c = (Inl err, b\<lparr>sb_kv_buffer := []\<rparr>, c')"
proof (cases "fst (sb_flush ops order now b c)")
  case (Inl err)
  obtain r b' c' where fl: "sb_flush ops order now b c = (r, b', c')" by (cases "sb_flush ops order now b c")
  with Inl sb_flush_Inl_fields [of ops order now b c err b' c'] show ?thesis by simp
next
  case (Inr r)
  then obtain b' c' where "sb_flush ops order now b c = (Inr r, b', c')"
    by (cases "sb_flush ops order now b c") auto
  from sb_flush_get(2) [OF assms(1,2) this, of cf] assms(3) show ?thesis by simp
qed

definition two_puts :: sst_batcher where
  "two_puts = snd (sb_add_kv \<lparr>mkv_key = [1], mkv_value = [3], mkv_cf = ''write''\<rparr> one_put)"

theorem duplicate_key_loses_batch_witness:
  "\<exists>err c'. sb_flush one_pair_ops (\<lambda>gs. gs) 7 two_puts (ingest_ctx_new (\<lambda>_ _. None)) =
    (Inl err, two_puts\<lparr>sb_kv_buffer := []\<rparr>, c')"
  by (rule duplicate_key_loses_batch [OF one_pair_spec, of _ "''write''"])
    (simp_all add: two_puts_def one_put_def sb_add_kv_def add_delete_range_def sst_batcher_new_def Let_def)

end
