(* ===== verification/SpanRegistry.thy ===== *)
theory SpanRegistry
  imports SstBatcher
begin

text \<open>
  The consumer's registry of replication spans (\<open>stream-ingest/src/span_ctl/registry.rs\<close>): one span per
  table with the workers of the regions it covers, and the reverse index from a region to the tables
  whose spans cover it.  The hash maps are maps sorted by key; where the source iterates over one, the
  model visits the keys in order.
\<close>

section \<open>Spans and workers\<close>

datatype worker_state = WInitializing | WSubscribing | WDraining | WStopped

record region_worker =
  rw_region_id :: u64
  rw_state :: worker_state

definition region_worker_new :: "u64 \<Rightarrow> worker_state \<Rightarrow> region_worker" where
  "region_worker_new region_id state = \<lparr>rw_region_id = region_id, rw_state = state\<rparr>"

datatype span_state = SInitialized | SSubscribing | SDraining | SRemoved

record replication_span =
  rs_table_id :: i64
  rs_start_key :: bytes
  rs_end_key :: bytes
  rs_checkpoint_ts :: timestamp
  rs_workers :: "(u64, region_worker) btree"
  rs_state :: span_state

definition replication_span_new :: "i64 \<Rightarrow> bytes \<Rightarrow> bytes \<Rightarrow> replication_span" where
  "replication_span_new table_id start_key end_key =
    \<lparr>rs_table_id = table_id, rs_start_key = start_key, rs_end_key = end_key, rs_checkpoint_ts = 0,
     rs_workers = [], rs_state = SInitialized\<rparr>"

definition span_contains_key :: "bytes \<Rightarrow> replication_span \<Rightarrow> bool" where
  "span_contains_key k s = (k \<ge> rs_start_key s \<and> k < rs_end_key s)"

definition active_region_ids :: "replication_span \<Rightarrow> u64 list" where
  "active_region_ids s = map fst (filter (\<lambda>(i, w). rw_state w = WSubscribing) (rs_workers s))"

definition span_region_ids :: "replication_span \<Rightarrow> u64 list" where
  "span_region_ids s = map fst (filter (\<lambda>(i, w). rw_state w \<noteq> WStopped) (rs_workers s))"

definition start_worker :: "u64 \<Rightarrow> replication_span \<Rightarrow> replication_span" where
  "start_worker region_id s =
    s\<lparr>rs_workers := bt_insert region_id (region_worker_new region_id WInitializing) (rs_workers s)\<rparr>"

definition set_worker_state :: "worker_state \<Rightarrow> u64 \<Rightarrow> replication_span \<Rightarrow> replication_span" where
  "set_worker_state st region_id s =
    (case bt_get (rs_workers s) region_id of
       Some w \<Rightarrow> s\<lparr>rs_workers := bt_insert region_id (w\<lparr>rw_state := st\<rparr>) (rs_workers s)\<rparr>
     | None \<Rightarrow> s)"

definition activate_worker :: "u64 \<Rightarrow> replication_span \<Rightarrow> replication_span" where
  "activate_worker region_id s = set_worker_state WSubscribing region_id s"

definition drain_worker :: "u64 \<Rightarrow> replication_span \<Rightarrow> replication_span" where
  "drain_worker region_id s = set_worker_state WDraining region_id s"

definition stop_worker :: "u64 \<Rightarrow> replication_span \<Rightarrow> replication_span" where
  "stop_worker region_id s =
    (let s = set_worker_state WStopped region_id s
     in s\<lparr>rs_workers := bt_remove region_id (rs_workers s)\<rparr>)"

definition update_checkpoint :: "(u64 \<Rightarrow> timestamp option) \<Rightarrow> replication_span \<Rightarrow> replication_span" where
  "update_checkpoint region_frontiers s =
    (let tss = List.map_filter region_frontiers (active_region_ids s)
     in s\<lparr>rs_checkpoint_ts := (if tss = [] then rs_checkpoint_ts s else Min (set tss))\<rparr>)"

definition count_workers :: "worker_state \<Rightarrow> replication_span \<Rightarrow> nat" where
  "count_workers st s = length (filter (\<lambda>w. rw_state w = st) (bt_values (rs_workers s)))"

section \<open>The registry\<close>

type_synonym region_index = "(u64, i64 list) btree"

record span_registry =
  sr_spans :: "(i64, replication_span) btree"
  sr_region_index :: region_index
  sr_last_seen_ddl_job_id :: i64
  sr_table_cache :: "(i64, string) btree"

definition span_registry_new :: span_registry where
  "span_registry_new =
    \<lparr>sr_spans = [], sr_region_index = [], sr_last_seen_ddl_job_id = 0, sr_table_cache = []\<rparr>"

definition index_push :: "u64 \<Rightarrow> i64 \<Rightarrow> region_index \<Rightarrow> region_index" where
  "index_push rid table_id idx =
    bt_insert rid ((case bt_get idx rid of None \<Rightarrow> [] | Some tids \<Rightarrow> tids) @ [table_id]) idx"

definition upsert_span :: "replication_span \<Rightarrow> span_registry \<Rightarrow> span_registry" where
  "upsert_span s reg =
    reg\<lparr>sr_region_index := fold (\<lambda>rid. index_push rid (rs_table_id s)) (span_region_ids s) (sr_region_index reg),
        sr_spans := bt_insert (rs_table_id s) s (sr_spans reg)\<rparr>"

definition index_drop :: "i64 \<Rightarrow> u64 \<Rightarrow> region_index \<Rightarrow> region_index" where
  "index_drop table_id rid idx =
    (case bt_get idx rid of
       None \<Rightarrow> idx
     | Some tids \<Rightarrow>
         let tids = filter (\<lambda>t. t \<noteq> table_id) tids
         in if tids = [] then bt_remove rid idx else bt_insert rid tids idx)"

definition remove_span :: "i64 \<Rightarrow> span_registry \<Rightarrow> replication_span option \<times> span_registry" where
  "remove_span table_id reg =
    (case bt_get (sr_spans reg) table_id of
       None \<Rightarrow> (None, reg)
     | Some s \<Rightarrow>
         (Some s, reg\<lparr>sr_spans := bt_remove table_id (sr_spans reg),
                      sr_region_index := fold (index_drop table_id) (span_region_ids s) (sr_region_index reg)\<rparr>))"

definition find_by_key :: "bytes \<Rightarrow> span_registry \<Rightarrow> replication_span option" where
  "find_by_key k reg = find (span_contains_key k) (bt_values (sr_spans reg))"

definition active_spans :: "span_registry \<Rightarrow> replication_span list" where
  "active_spans reg = filter (\<lambda>s. rs_state s \<in> {SSubscribing, SDraining}) (bt_values (sr_spans reg))"

definition table_ids :: "span_registry \<Rightarrow> i64 list" where
  "table_ids reg = bt_keys (sr_spans reg)"

definition count_by_state :: "span_state \<Rightarrow> span_registry \<Rightarrow> nat" where
  "count_by_state st reg = length (filter (\<lambda>s. rs_state s = st) (bt_values (sr_spans reg)))"

definition spans_for_region :: "u64 \<Rightarrow> span_registry \<Rightarrow> replication_span list" where
  "spans_for_region region_id reg =
    (case bt_get (sr_region_index reg) region_id of
       None \<Rightarrow> []
     | Some tids \<Rightarrow> List.map_filter (bt_get (sr_spans reg)) tids)"

definition has_region :: "u64 \<Rightarrow> span_registry \<Rightarrow> bool" where
  "has_region region_id reg = (bt_get (sr_region_index reg) region_id \<noteq> None)"

definition registry_region_ids :: "span_registry \<Rightarrow> u64 list" where
  "registry_region_ids reg = bt_keys (sr_region_index reg)"

definition update_span :: "(replication_span \<Rightarrow> replication_span) \<Rightarrow> i64 \<Rightarrow> span_registry \<Rightarrow> span_registry" where
  "update_span f table_id reg =
    (case bt_get (sr_spans reg) table_id of
       None \<Rightarrow> reg
     | Some s \<Rightarrow> reg\<lparr>sr_spans := bt_insert table_id (f s) (sr_spans reg)\<rparr>)"

definition add_region_to_span :: "i64 \<Rightarrow> u64 \<Rightarrow> span_registry \<Rightarrow> span_registry" where
  "add_region_to_span table_id region_id reg =
    (let reg = update_span (start_worker region_id) table_id reg
     in reg\<lparr>sr_region_index := index_push region_id table_id (sr_region_index reg)\<rparr>)"

definition needs_subscribe :: "u64 \<Rightarrow> replication_span \<Rightarrow> bool" where
  "needs_subscribe child s =
    (bt_get (rs_workers s) child = None
     \<or> (case bt_get (rs_workers s) child of None \<Rightarrow> False | Some w \<Rightarrow> rw_state w = WDraining))"

definition restart_child :: "u64 \<Rightarrow> replication_span \<Rightarrow> replication_span" where
  "restart_child child s =
    start_worker child (if bt_get (rs_workers s) child \<noteq> None then stop_worker child s else s)"

definition split_child ::
  "i64 \<Rightarrow> u64 \<Rightarrow> span_registry \<times> u64 list \<Rightarrow> span_registry \<times> u64 list" where
  "split_child table_id child st =
    (let (reg, acc) = st;
         (reg, acc) =
           (case bt_get (sr_spans reg) table_id of
              Some s \<Rightarrow>
                if needs_subscribe child s
                then (update_span (restart_child child) table_id reg, acc @ [child])
                else (reg, acc)
            | None \<Rightarrow> (reg, acc))
     in (reg\<lparr>sr_region_index := index_push child table_id (sr_region_index reg)\<rparr>, acc))"

definition split_table ::
  "u64 \<Rightarrow> u64 list \<Rightarrow> i64 \<Rightarrow> span_registry \<times> u64 list \<Rightarrow> span_registry \<times> u64 list" where
  "split_table parent children table_id st =
    (let (reg, acc) = st;
         reg = update_span (drain_worker parent) table_id reg;
         reg = (case bt_get (sr_region_index reg) parent of
                  None \<Rightarrow> reg
                | Some tids \<Rightarrow>
                    reg\<lparr>sr_region_index := bt_insert parent (filter (\<lambda>t. t \<noteq> table_id) tids) (sr_region_index reg)\<rparr>)
     in fold (split_child table_id) children (reg, acc))"

definition on_region_split :: "u64 \<Rightarrow> u64 list \<Rightarrow> span_registry \<Rightarrow> u64 list \<times> span_registry" where
  "on_region_split parent children reg =
    (let covering = (case bt_get (sr_region_index reg) parent of None \<Rightarrow> [] | Some tids \<Rightarrow> tids);
         (reg, new_to_subscribe) = fold (split_table parent children) covering (reg, []);
         reg = (case bt_get (sr_region_index reg) parent of
                  None \<Rightarrow> reg\<lparr>sr_region_index := bt_remove parent (sr_region_index reg)\<rparr>
                | Some tids \<Rightarrow>
                    if tids = [] then reg\<lparr>sr_region_index := bt_remove parent (sr_region_index reg)\<rparr>
                    else reg)
     in (new_to_subscribe, reg))"

section \<open>The reverse index\<close>

definition index_tables :: "region_index \<Rightarrow> u64 \<Rightarrow> i64 set" where
  "index_tables idx rid = (case bt_get idx rid of None \<Rightarrow> {} | Some tids \<Rightarrow> set tids)"

lemma index_push_wf [wf_intros]: "bt_wf idx \<Longrightarrow> bt_wf (index_push rid t idx)"
  by (simp add: index_push_def bt.wf_ins)

lemma index_tables_push [simp]:
  "bt_wf idx \<Longrightarrow> index_tables (index_push rid t idx) r =
    (if r = rid then insert t (index_tables idx r) else index_tables idx r)"
  by (auto simp: index_tables_def index_push_def bt.get_ins split: option.splits)

lemma index_drop_wf [wf_intros]: "bt_wf idx \<Longrightarrow> bt_wf (index_drop t rid idx)"
  by (simp add: index_drop_def bt.wf_ins bt.wf_rem Let_def split: option.splits)

lemma index_tables_drop [simp]:
  "bt_wf idx \<Longrightarrow> index_tables (index_drop t rid idx) r =
    (if r = rid then index_tables idx r - {t} else index_tables idx r)"
  by (auto simp: index_tables_def index_drop_def bt.get_ins bt.get_rem Let_def filter_empty_conv
      split: option.splits)

lemma fold_index_push:
  "bt_wf idx \<Longrightarrow> bt_wf (fold (\<lambda>rid. index_push rid t) rids idx)
    \<and> index_tables (fold (\<lambda>rid. index_push rid t) rids idx) r =
      (if r \<in> set rids then insert t (index_tables idx r) else index_tables idx r)"
  by (induction rids arbitrary: idx) (auto simp: index_push_wf)

lemma fold_index_drop:
  "bt_wf idx \<Longrightarrow> bt_wf (fold (index_drop t) rids idx)
    \<and> index_tables (fold (index_drop t) rids idx) r =
      (if r \<in> set rids then index_tables idx r - {t} else index_tables idx r)"
  by (induction rids arbitrary: idx) (auto simp: index_drop_wf)

section \<open>The registry invariant\<close>

definition span_wf :: "replication_span \<Rightarrow> bool" where
  "span_wf s \<longleftrightarrow> bt_wf (rs_workers s) \<and> (\<forall>r w. bt_get (rs_workers s) r = Some w \<longrightarrow> rw_state w \<noteq> WStopped)"

text \<open>A region is live in a span when the span has a worker for it that is not being drained.\<close>

definition live_region :: "replication_span \<Rightarrow> u64 \<Rightarrow> bool" where
  "live_region s r \<longleftrightarrow> (\<exists>w. bt_get (rs_workers s) r = Some w \<and> rw_state w \<noteq> WDraining)"

text \<open>A live region is indexed under the span's table, except for the pairs of table and region in \<open>U\<close>.\<close>

definition registry_inv :: "(i64 \<times> u64) set \<Rightarrow> span_registry \<Rightarrow> bool" where
  "registry_inv U reg \<longleftrightarrow> bt_wf (sr_spans reg) \<and> bt_wf (sr_region_index reg)
     \<and> (\<forall>t s. bt_get (sr_spans reg) t = Some s \<longrightarrow>
          span_wf s \<and> (\<forall>r. live_region s r \<longrightarrow> (t, r) \<in> U \<or> t \<in> index_tables (sr_region_index reg) r))"

lemma registry_invD:
  "registry_inv U reg \<Longrightarrow> bt_wf (sr_spans reg)"
  "registry_inv U reg \<Longrightarrow> bt_wf (sr_region_index reg)"
  "registry_inv U reg \<Longrightarrow> bt_get (sr_spans reg) t = Some s \<Longrightarrow> span_wf s"
  "registry_inv U reg \<Longrightarrow> bt_get (sr_spans reg) t = Some s \<Longrightarrow> live_region s r \<Longrightarrow> (t, r) \<notin> U \<Longrightarrow>
     t \<in> index_tables (sr_region_index reg) r"
  by (auto simp: registry_inv_def)

lemma registry_inv_mono: "registry_inv U reg \<Longrightarrow> U \<subseteq> V \<Longrightarrow> registry_inv V reg"
  by (auto simp: registry_inv_def)

lemma set_worker_state_get:
  "span_wf s \<Longrightarrow> bt_get (rs_workers (set_worker_state st rid s)) r =
    (if r = rid then map_option (\<lambda>w. w\<lparr>rw_state := st\<rparr>) (bt_get (rs_workers s) r) else bt_get (rs_workers s) r)"
  by (auto simp: set_worker_state_def span_wf_def bt.get_ins split: option.splits)

lemma set_worker_state_wf: "span_wf s \<Longrightarrow> st \<noteq> WStopped \<Longrightarrow> span_wf (set_worker_state st rid s)"
  by (auto simp: set_worker_state_def span_wf_def bt.wf_ins bt.get_ins split: option.splits if_splits)

lemma bt_wf_set_worker_state: "bt_wf (rs_workers s) \<Longrightarrow> bt_wf (rs_workers (set_worker_state st rid s))"
  by (simp add: set_worker_state_def bt.wf_ins split: option.splits)

lemma stop_worker_get:
  "span_wf s \<Longrightarrow> bt_get (rs_workers (stop_worker rid s)) r =
    (if r = rid then None else bt_get (rs_workers s) r)"
  using bt_wf_set_worker_state [of s WStopped rid]
  by (auto simp: stop_worker_def Let_def bt.get_rem set_worker_state_get span_wf_def)

lemma start_worker_get:
  "span_wf s \<Longrightarrow> bt_get (rs_workers (start_worker rid s)) r =
    (if r = rid then Some (region_worker_new rid WInitializing) else bt_get (rs_workers s) r)"
  by (simp add: start_worker_def span_wf_def bt.get_ins)

lemma start_worker_wf [wf_intros]: "span_wf s \<Longrightarrow> span_wf (start_worker rid s)"
  by (auto simp: start_worker_def span_wf_def bt.wf_ins bt.get_ins region_worker_new_def)

lemma drain_worker_wf [wf_intros]: "span_wf s \<Longrightarrow> span_wf (drain_worker rid s)"
  by (simp add: drain_worker_def set_worker_state_wf)

lemma activate_worker_wf [wf_intros]: "span_wf s \<Longrightarrow> span_wf (activate_worker rid s)"
  by (simp add: activate_worker_def set_worker_state_wf)

lemma stop_worker_wf [wf_intros]: "span_wf s \<Longrightarrow> span_wf (stop_worker rid s)"
  using stop_worker_get [of s rid] bt_wf_set_worker_state [of s WStopped rid]
  by (auto simp: span_wf_def stop_worker_def Let_def bt.wf_rem split: if_splits)

lemma replication_span_new_wf [wf_intros]: "span_wf (replication_span_new t a b)"
  by (simp add: span_wf_def replication_span_new_def)

lemma live_region_workers:
  "span_wf s \<Longrightarrow> live_region (start_worker rid s) r \<longleftrightarrow> r = rid \<or> live_region s r"
  "span_wf s \<Longrightarrow> live_region (stop_worker rid s) r \<longleftrightarrow> r \<noteq> rid \<and> live_region s r"
  "span_wf s \<Longrightarrow> live_region (drain_worker rid s) r \<longleftrightarrow> r \<noteq> rid \<and> live_region s r"
  by (auto simp: live_region_def start_worker_get stop_worker_get drain_worker_def set_worker_state_get
      region_worker_new_def)

lemma restart_child_facts:
  assumes "span_wf s"
  shows "span_wf (restart_child c s)" "live_region (restart_child c s) r \<longleftrightarrow> r = c \<or> live_region s r"
  using assms by (auto simp: restart_child_def live_region_workers start_worker_wf stop_worker_wf)

lemma update_span_get:
  "bt_wf (sr_spans reg) \<Longrightarrow> bt_get (sr_spans (update_span f t reg)) t' =
    (if t' = t then map_option f (bt_get (sr_spans reg) t') else bt_get (sr_spans reg) t')"
  by (auto simp: update_span_def bt.get_ins split: option.splits)

lemma update_span_fields [simp]:
  "sr_region_index (update_span f t reg) = sr_region_index reg"
  "bt_wf (sr_spans reg) \<Longrightarrow> bt_wf (sr_spans (update_span f t reg))"
  by (simp_all add: update_span_def bt.wf_ins split: option.splits)

text \<open>Updating one span keeps the invariant, for another set of exceptions that agrees on the other
  tables, when the update keeps the span well-formed and its live regions are indexed or exceptions.\<close>

lemma update_span_inv:
  assumes "registry_inv U reg"
    and "\<And>s. bt_get (sr_spans reg) t = Some s \<Longrightarrow> span_wf (f s)"
    and "\<And>s r. bt_get (sr_spans reg) t = Some s \<Longrightarrow> live_region (f s) r \<Longrightarrow>
      (t, r) \<in> V \<or> t \<in> index_tables (sr_region_index reg) r"
    and "\<And>t' r. t' \<noteq> t \<Longrightarrow> (t', r) \<in> U \<Longrightarrow> (t', r) \<in> V"
  shows "registry_inv V (update_span f t reg)"
  using assms registry_invD(1) [OF assms(1)]
  by (auto simp: registry_inv_def update_span_get split: if_splits) blast

lemma registry_inv_index:
  assumes "registry_inv U reg" "bt_wf idx"
    and "\<And>t s r. bt_get (sr_spans reg) t = Some s \<Longrightarrow> live_region s r \<Longrightarrow> (t, r) \<notin> U \<Longrightarrow> t \<in> index_tables idx r"
  shows "registry_inv U (reg\<lparr>sr_region_index := idx\<rparr>)"
  using assms by (auto simp: registry_inv_def)

lemma upsert_span_inv:
  assumes inv: "registry_inv U reg" and wf: "span_wf s"
  shows "registry_inv (U - {rs_table_id s} \<times> UNIV) (upsert_span s reg)"
proof -
  have live: "r \<in> set (span_region_ids s)" if lr: "live_region s r" for r
  proof -
    obtain w where w: "bt_get (rs_workers s) r = Some w" "rw_state w \<noteq> WStopped"
      using lr wf unfolding live_region_def span_wf_def by blast
    then have "(r, w) \<in> set (rs_workers s)" using wf by (simp add: span_wf_def bt_get_Some_in)
    with w(2) show ?thesis by (force simp: span_region_ids_def)
  qed
  show ?thesis
    unfolding registry_inv_def upsert_span_def
    using inv wf fold_index_push [OF registry_invD(2) [OF inv], of "rs_table_id s" "span_region_ids s"] live
    by (auto simp: registry_inv_def bt.wf_ins bt.get_ins split: if_splits)
qed

lemma remove_span_inv:
  assumes inv: "registry_inv U reg"
  shows "registry_inv (U - {t} \<times> UNIV) (snd (remove_span t reg))"
proof (cases "bt_get (sr_spans reg) t")
  case (Some s)
  then show ?thesis
    using inv fold_index_drop [OF registry_invD(2) [OF inv], of t "span_region_ids s"]
    by (auto simp: remove_span_def registry_inv_def bt.wf_rem bt.get_rem split: if_splits)
qed (use inv in \<open>auto simp: remove_span_def registry_inv_def\<close>)

lemma add_region_to_span_inv:
  assumes inv: "registry_inv U reg"
  shows "registry_inv (U - {(t, rid)}) (add_region_to_span t rid reg)"
proof -
  note wf = registry_invD(1,2) [OF inv]
  show ?thesis
    unfolding registry_inv_def add_region_to_span_def Let_def
    using inv wf
    by (auto simp: update_span_get index_push_wf registry_inv_def start_worker_wf live_region_workers
        split: if_splits) blast
qed

section \<open>Splits\<close>

text \<open>What one child does to the registry: the parent's tables keep the invariant and gain the child.\<close>

definition split_inv :: "i64 \<Rightarrow> u64 set \<Rightarrow> span_registry \<Rightarrow> bool" where
  "split_inv t cs reg \<longleftrightarrow> (\<forall>s. bt_get (sr_spans reg) t = Some s \<longrightarrow> (\<forall>c \<in> cs. live_region s c))"

lemma split_child_inv:
  assumes inv: "registry_inv U reg" and st: "split_child t c (reg, acc) = (reg', acc')"
  shows "registry_inv U reg'"
    and "t' \<noteq> t \<Longrightarrow> bt_get (sr_spans reg') t' = bt_get (sr_spans reg) t'"
    and "bt_get (sr_spans reg') t = None \<longleftrightarrow> bt_get (sr_spans reg) t = None"
    and "split_inv t cs reg \<Longrightarrow> split_inv t (insert c cs) reg'"
    and "index_tables (sr_region_index reg') r = (if r = c then insert t (index_tables (sr_region_index reg) r)
      else index_tables (sr_region_index reg) r)"
    and "\<exists>n. acc' = acc @ n \<and> set n \<subseteq> {c}"
proof -
  note wf = registry_invD(1,2) [OF inv]
  define reg1 where "reg1 = (case bt_get (sr_spans reg) t of
      Some s \<Rightarrow> if needs_subscribe c s then update_span (restart_child c) t reg else reg | None \<Rightarrow> reg)"
  have reg': "reg' = reg1\<lparr>sr_region_index := index_push c t (sr_region_index reg)\<rparr>"
    using st by (auto simp: split_child_def reg1_def Let_def split: option.splits if_splits prod.splits)
  define child where "child s = (if needs_subscribe c s then restart_child c s else s)" for s
  have get: "bt_get (sr_spans reg1) t' =
      (if t' = t then map_option child (bt_get (sr_spans reg) t') else bt_get (sr_spans reg) t')" for t'
    by (auto simp: reg1_def child_def update_span_get [OF wf(1)] split: option.splits)
  have wf1: "bt_wf (sr_spans reg1)" by (simp add: reg1_def wf split: option.splits)
  have live: "live_region (child s) r \<longleftrightarrow> r = c \<or> live_region s r" and child_wf: "span_wf (child s)"
    if "span_wf s" for s r
    using restart_child_facts [OF that] that
    by (auto simp: child_def needs_subscribe_def live_region_def split: option.splits)
  show "registry_inv U reg'"
    unfolding registry_inv_def reg'
    using inv wf wf1
    by (auto simp: child_wf get index_push_wf registry_inv_def live split: if_splits) blast
  show "t' \<noteq> t \<Longrightarrow> bt_get (sr_spans reg') t' = bt_get (sr_spans reg) t'" by (simp add: reg' get)
  show "bt_get (sr_spans reg') t = None \<longleftrightarrow> bt_get (sr_spans reg) t = None" by (simp add: reg' get)
  show "split_inv t cs reg \<Longrightarrow> split_inv t (insert c cs) reg'"
    using registry_invD(3) [OF inv] by (auto simp: split_inv_def reg' get live)
  show "index_tables (sr_region_index reg') r = (if r = c then insert t (index_tables (sr_region_index reg) r)
      else index_tables (sr_region_index reg) r)" by (simp add: reg' wf)
  show "\<exists>n. acc' = acc @ n \<and> set n \<subseteq> {c}"
    using st by (auto simp: split_child_def Let_def split: option.splits if_splits prod.splits)
qed

lemma split_children_inv:
  assumes "registry_inv U reg" "fold (split_child t) cs (reg, acc) = (reg', acc')" "split_inv t ds reg"
  shows "registry_inv U reg' \<and> (\<forall>t'. t' \<noteq> t \<longrightarrow> bt_get (sr_spans reg') t' = bt_get (sr_spans reg) t')
    \<and> (bt_get (sr_spans reg') t = None \<longleftrightarrow> bt_get (sr_spans reg) t = None)
    \<and> split_inv t (ds \<union> set cs) reg'
    \<and> (\<forall>r. index_tables (sr_region_index reg') r =
         (if r \<in> set cs then insert t (index_tables (sr_region_index reg) r)
          else index_tables (sr_region_index reg) r))
    \<and> (\<exists>n. acc' = acc @ n \<and> set n \<subseteq> set cs)"
  using assms
proof (induction cs arbitrary: reg acc ds)
  case (Cons c cs)
  obtain reg1 acc1 where 1: "split_child t c (reg, acc) = (reg1, acc1)" by (cases "split_child t c (reg, acc)")
  note f = split_child_inv [OF Cons.prems(1) 1]
  have fold: "fold (split_child t) cs (reg1, acc1) = (reg', acc')" using Cons.prems(2) 1 by simp
  have inv1: "split_inv t (insert c ds) reg1" using f(4) [OF Cons.prems(3)] .
  note IH = Cons.IH [OF f(1) fold inv1]
  obtain n where n: "acc1 = acc @ n" "set n \<subseteq> {c}" using f(6) by blast
  obtain n' where n': "acc' = acc1 @ n'" "set n' \<subseteq> set cs" using IH by blast
  have "acc' = acc @ (n @ n')" "set (n @ n') \<subseteq> set (c # cs)" using n n' by auto
  then have acc: "\<exists>n. acc' = acc @ n \<and> set n \<subseteq> set (c # cs)" by blast
  have "split_inv t (ds \<union> set (c # cs)) reg'" using IH by (auto simp: split_inv_def)
  then show ?case using IH f(2,3,5) acc by auto
qed auto

lemma drained_table_inv:
  assumes inv: "registry_inv U reg" and "bt_wf idx"
    and idx: "\<And>r. index_tables idx r =
      (if r = p then index_tables (sr_region_index reg) r - {t} else index_tables (sr_region_index reg) r)"
  shows "registry_inv U ((update_span (drain_worker p) t reg)\<lparr>sr_region_index := idx\<rparr>)"
proof -
  note wf = registry_invD(1) [OF inv]
  have "span_wf s \<and> (live_region s r \<longrightarrow> (t', r) \<in> U \<or> t' \<in> index_tables idx r)"
    if g: "bt_get (sr_spans (update_span (drain_worker p) t reg)) t' = Some s" for t' s r
  proof -
    obtain s0 where s0: "bt_get (sr_spans reg) t' = Some s0" "s = (if t' = t then drain_worker p s0 else s0)"
      using g by (auto simp: update_span_get [OF wf] split: if_splits)
    note w = registry_invD(3) [OF inv s0(1)]
    have "live_region s0 r \<and> \<not> (t' = t \<and> r = p)" if "live_region s r"
      using that w s0(2) by (auto simp: live_region_workers split: if_splits)
    moreover have "live_region s0 r \<Longrightarrow> (t', r) \<in> U \<or> t' \<in> index_tables (sr_region_index reg) r"
      using registry_invD(4) [OF inv s0(1)] by blast
    ultimately show ?thesis using w s0(2) by (auto simp: idx drain_worker_wf)
  qed
  then show ?thesis using wf assms(2) by (simp add: registry_inv_def)
qed

lemma split_table_inv:
  assumes inv: "registry_inv U reg" and st: "split_table p cs t (reg, acc) = (reg', acc')"
  shows "registry_inv U reg'"
    and "t' \<noteq> t \<Longrightarrow> bt_get (sr_spans reg') t' = bt_get (sr_spans reg) t'"
    and "bt_get (sr_spans reg') t = None \<longleftrightarrow> bt_get (sr_spans reg) t = None"
    and "split_inv t (set cs) reg'"
    and "index_tables (sr_region_index reg') r =
      (if r \<in> set cs then insert t (index_tables (sr_region_index reg) r)
       else if r = p then index_tables (sr_region_index reg) r - {t}
       else index_tables (sr_region_index reg) r)"
    and "\<exists>n. acc' = acc @ n \<and> set n \<subseteq> set cs"
proof -
  note wf = registry_invD(1,2) [OF inv]
  define idx where "idx = (case bt_get (sr_region_index reg) p of None \<Rightarrow> sr_region_index reg
     | Some tids \<Rightarrow> bt_insert p (filter (\<lambda>t'. t' \<noteq> t) tids) (sr_region_index reg))"
  define reg1 where "reg1 = (update_span (drain_worker p) t reg)\<lparr>sr_region_index := idx\<rparr>"
  have idx: "bt_wf idx" "index_tables idx r =
      (if r = p then index_tables (sr_region_index reg) r - {t} else index_tables (sr_region_index reg) r)" for r
    by (auto simp: idx_def wf bt.wf_ins index_tables_def bt.get_ins split: option.splits)
  have fold: "fold (split_child t) cs (reg1, acc) = (reg', acc')"
    using st by (cases "bt_get (sr_region_index reg) p")
      (auto simp: split_table_def reg1_def idx_def Let_def update_span_def split: option.splits)
  have get: "bt_get (sr_spans reg1) t' = (if t' = t then map_option (drain_worker p) (bt_get (sr_spans reg) t')
      else bt_get (sr_spans reg) t')" for t'
    by (simp add: reg1_def update_span_get [OF wf(1)])
  have inv1: "registry_inv U reg1"
    unfolding reg1_def by (rule drained_table_inv [OF inv idx(1)]) (simp add: idx(2))
  have "split_inv t {} reg1" by (simp add: split_inv_def)
  note f = split_children_inv [OF inv1 fold this]
  show "registry_inv U reg'" using f by blast
  show "t' \<noteq> t \<Longrightarrow> bt_get (sr_spans reg') t' = bt_get (sr_spans reg) t'" using f by (simp add: get)
  show "bt_get (sr_spans reg') t = None \<longleftrightarrow> bt_get (sr_spans reg) t = None" using f by (simp add: get)
  show "split_inv t (set cs) reg'" using f by simp
  show "index_tables (sr_region_index reg') r =
      (if r \<in> set cs then insert t (index_tables (sr_region_index reg) r)
       else if r = p then index_tables (sr_region_index reg) r - {t}
       else index_tables (sr_region_index reg) r)"
    using f by (auto simp: reg1_def idx)
  show "\<exists>n. acc' = acc @ n \<and> set n \<subseteq> set cs" using f by blast
qed

lemma split_tables_inv:
  assumes "registry_inv U reg" "fold (split_table p cs) ts (reg, acc) = (reg', acc')"
    "\<forall>t \<in> T. split_inv t (set cs) reg"
  shows "registry_inv U reg'
    \<and> (\<forall>t. t \<notin> set ts \<longrightarrow> bt_get (sr_spans reg') t = bt_get (sr_spans reg) t)
    \<and> (\<forall>t. bt_get (sr_spans reg') t = None \<longleftrightarrow> bt_get (sr_spans reg) t = None)
    \<and> (\<forall>t \<in> T \<union> set ts. split_inv t (set cs) reg')
    \<and> (p \<notin> set cs \<longrightarrow> index_tables (sr_region_index reg') p = index_tables (sr_region_index reg) p - set ts)
    \<and> (\<exists>n. acc' = acc @ n \<and> set n \<subseteq> set cs)"
  using assms
proof (induction ts arbitrary: reg acc T)
  case (Cons t ts)
  obtain reg1 acc1 where 1: "split_table p cs t (reg, acc) = (reg1, acc1)" by (cases "split_table p cs t (reg, acc)")
  note f = split_table_inv [OF Cons.prems(1) 1]
  have fold: "fold (split_table p cs) ts (reg1, acc1) = (reg', acc')" using Cons.prems(2) 1 by simp
  have inv1: "\<forall>t' \<in> insert t T. split_inv t' (set cs) reg1"
  proof
    fix t' assume "t' \<in> insert t T"
    then show "split_inv t' (set cs) reg1"
      using f(4) f(2) [of t'] Cons.prems(3) by (cases "t' = t") (auto simp: split_inv_def)
  qed
  note IH = Cons.IH [OF f(1) fold inv1]
  obtain n where n: "acc1 = acc @ n" "set n \<subseteq> set cs" using f(6) by blast
  obtain n' where n': "acc' = acc1 @ n'" "set n' \<subseteq> set cs" using IH by blast
  have "acc' = acc @ (n @ n')" "set (n @ n') \<subseteq> set cs" using n n' by auto
  then have acc: "\<exists>n. acc' = acc @ n \<and> set n \<subseteq> set cs" by blast
  have none: "bt_get (sr_spans reg1) t' = None \<longleftrightarrow> bt_get (sr_spans reg) t' = None" for t'
    using f(2) [of t'] f(3) by (cases "t' = t") auto
  have "p \<notin> set cs \<longrightarrow> index_tables (sr_region_index reg') p = index_tables (sr_region_index reg) p - set (t # ts)"
    using IH f(5) [of p] by auto
  then show ?case using IH f(2) none acc by simp
qed auto

lemma remove_empty_index:
  assumes "bt_wf idx" "bt_get idx p = None \<or> bt_get idx p = Some []"
  shows "index_tables (bt_remove p idx) r = index_tables idx r"
  using assms by (auto simp: index_tables_def bt.get_rem)

lemma on_region_split_inv:
  assumes inv: "registry_inv U reg" and st: "on_region_split p cs reg = (new, reg')"
  shows "registry_inv U reg'"
    and "t \<notin> index_tables (sr_region_index reg) p \<Longrightarrow> bt_get (sr_spans reg') t = bt_get (sr_spans reg) t"
    and "t \<in> index_tables (sr_region_index reg) p \<Longrightarrow> bt_get (sr_spans reg) t \<noteq> None \<Longrightarrow>
      \<exists>s. bt_get (sr_spans reg') t = Some s \<and> (\<forall>c \<in> set cs. live_region s c)"
    and "p \<notin> set cs \<Longrightarrow> \<not> has_region p reg'"
    and "set new \<subseteq> set cs"
proof -
  define ts where "ts = (case bt_get (sr_region_index reg) p of None \<Rightarrow> [] | Some tids \<Rightarrow> tids)"
  have ts: "set ts = index_tables (sr_region_index reg) p"
    by (simp add: ts_def index_tables_def split: option.splits)
  obtain reg1 acc where fold: "fold (split_table p cs) ts (reg, []) = (reg1, acc)"
    by (cases "fold (split_table p cs) ts (reg, [])")
  note f = split_tables_inv [OF inv fold, of "{}", simplified]
  have inv1: "registry_inv U reg1" using f by blast
  note wf1 = registry_invD(2) [OF inv1]
  define e where "e \<longleftrightarrow> bt_get (sr_region_index reg1) p = None \<or> bt_get (sr_region_index reg1) p = Some []"
  have reg': "new = acc" "reg' = (if e then reg1\<lparr>sr_region_index := bt_remove p (sr_region_index reg1)\<rparr> else reg1)"
    using st fold by (auto simp: on_region_split_def ts_def [symmetric] e_def Let_def split: option.splits if_splits)
  have spans: "sr_spans reg' = sr_spans reg1" by (simp add: reg'(2))
  show "registry_inv U reg'"
  proof (cases e)
    case True
    have "index_tables (bt_remove p (sr_region_index reg1)) r = index_tables (sr_region_index reg1) r" for r
      using remove_empty_index [OF wf1] True by (simp add: e_def)
    then have "registry_inv U (reg1\<lparr>sr_region_index := bt_remove p (sr_region_index reg1)\<rparr>)"
      by (intro registry_inv_index [OF inv1 bt.wf_rem [OF wf1]]) (simp add: registry_invD(4) [OF inv1])
    then show ?thesis using True by (simp add: reg'(2))
  qed (use inv1 in \<open>simp add: reg'(2)\<close>)
  show "t \<notin> index_tables (sr_region_index reg) p \<Longrightarrow> bt_get (sr_spans reg') t = bt_get (sr_spans reg) t"
    using f ts by (auto simp: spans)
  show "\<exists>s. bt_get (sr_spans reg') t = Some s \<and> (\<forall>c \<in> set cs. live_region s c)"
    if "t \<in> index_tables (sr_region_index reg) p" "bt_get (sr_spans reg) t \<noteq> None"
  proof -
    have "bt_get (sr_spans reg1) t \<noteq> None" "split_inv t (set cs) reg1" using f ts that by simp_all
    then show ?thesis by (auto simp: spans split_inv_def)
  qed
  show "p \<notin> set cs \<Longrightarrow> \<not> has_region p reg'"
  proof -
    assume "p \<notin> set cs"
    then have "index_tables (sr_region_index reg1) p = {}" using f ts by auto
    then have e by (auto simp: e_def index_tables_def split: option.splits)
    then show ?thesis by (simp add: has_region_def reg'(2) bt.get_rem [OF wf1])
  qed
  show "set new \<subseteq> set cs" using f by (auto simp: reg'(1))
qed

section \<open>Registries that the operations build\<close>

text \<open>The set \<open>U\<close> holds the pairs of table and region whose worker the program started without entering
  it into the index: \<open>start_worker\<close> on a span it got by \<open>get_mut\<close> (\<open>task.rs\<close>) or when it resolves all spans
  (\<open>resolver.rs\<close>), or \<open>activate_worker\<close> on a worker that is draining.  A pair leaves the set when the worker
  is drained, stopped, indexed, or its span is replaced or removed.\<close>

definition draining_in :: "i64 \<Rightarrow> u64 \<Rightarrow> span_registry \<Rightarrow> bool" where
  "draining_in t rid reg \<longleftrightarrow>
    (\<exists>s w. bt_get (sr_spans reg) t = Some s \<and> bt_get (rs_workers s) rid = Some w \<and> rw_state w = WDraining)"

inductive registry_reachable :: "(i64 \<times> u64) set \<Rightarrow> span_registry \<Rightarrow> bool" where
  RNew: "registry_reachable {} span_registry_new"
| RUpsert: "registry_reachable U reg \<Longrightarrow> span_wf s \<Longrightarrow>
    registry_reachable (U - {rs_table_id s} \<times> UNIV) (upsert_span s reg)"
| RRemove: "registry_reachable U reg \<Longrightarrow> registry_reachable (U - {t} \<times> UNIV) (snd (remove_span t reg))"
| RAdd: "registry_reachable U reg \<Longrightarrow> registry_reachable (U - {(t, rid)}) (add_region_to_span t rid reg)"
| RStart: "registry_reachable U reg \<Longrightarrow> registry_reachable (insert (t, rid) U) (update_span (start_worker rid) t reg)"
| RActivate: "registry_reachable U reg \<Longrightarrow>
    registry_reachable (if draining_in t rid reg then insert (t, rid) U else U)
      (update_span (activate_worker rid) t reg)"
| RDrain: "registry_reachable U reg \<Longrightarrow> registry_reachable (U - {(t, rid)}) (update_span (drain_worker rid) t reg)"
| RStop: "registry_reachable U reg \<Longrightarrow> registry_reachable (U - {(t, rid)}) (update_span (stop_worker rid) t reg)"
| RCheckpoint: "registry_reachable U reg \<Longrightarrow> registry_reachable U (update_span (update_checkpoint f) t reg)"
| RPolled: "registry_reachable U reg \<Longrightarrow>
    registry_reachable U (reg\<lparr>sr_table_cache := c, sr_last_seen_ddl_job_id := j\<rparr>)"
| RSplit: "registry_reachable U reg \<Longrightarrow> registry_reachable U (snd (on_region_split p cs reg))"

lemma activate_worker_inv:
  assumes "registry_inv U reg"
  shows "registry_inv (if draining_in t rid reg then insert (t, rid) U else U)
    (update_span (activate_worker rid) t reg)"
proof (rule update_span_inv [OF assms])
  fix s r assume s: "bt_get (sr_spans reg) t = Some s" and l: "live_region (activate_worker rid s) r"
  have wf: "span_wf s" using registry_invD(3) [OF assms s] .
  have "live_region s r \<or> r = rid \<and> draining_in t rid reg"
    using l s by (auto simp: activate_worker_def live_region_def set_worker_state_get [OF wf] draining_in_def
        split: if_splits)
  then show "(t, r) \<in> (if draining_in t rid reg then insert (t, rid) U else U)
      \<or> t \<in> index_tables (sr_region_index reg) r"
    using registry_invD(4) [OF assms s] by auto
qed (use registry_invD(3) [OF assms] in \<open>auto simp: activate_worker_wf\<close>)

lemma update_checkpoint_workers [simp]: "rs_workers (update_checkpoint f s) = rs_workers s"
  by (simp add: update_checkpoint_def Let_def)

lemma registry_reachable_inv: "registry_reachable U reg \<Longrightarrow> registry_inv U reg"
proof (induction rule: registry_reachable.induct)
  case RNew
  then show ?case by (simp add: registry_inv_def span_registry_new_def)
next
  case (RStart U reg t rid)
  then show ?case
    by (intro update_span_inv) (auto simp: start_worker_wf live_region_workers registry_inv_def)
next
  case (RDrain U reg t rid)
  then show ?case
    by (intro update_span_inv) (auto simp: drain_worker_wf live_region_workers registry_inv_def)
next
  case (RStop U reg t rid)
  then show ?case
    by (intro update_span_inv) (auto simp: stop_worker_wf live_region_workers registry_inv_def)
next
  case (RCheckpoint U reg f t)
  then show ?case
    by (intro update_span_inv) (auto simp: registry_inv_def span_wf_def live_region_def)
next
  case (RPolled U reg c j)
  then show ?case by (simp add: registry_inv_def)
next
  case (RSplit U reg p cs)
  then show ?case using on_region_split_inv(1) by (metis prod.collapse)
qed (rule upsert_span_inv remove_span_inv add_region_to_span_inv activate_worker_inv; assumption)+

section \<open>Properties\<close>

text \<open>C10: the reverse index is complete for every worker that was started through it.  In every registry that
  the operations build, a region with a worker that is not draining in some table's span either is
  indexed under that table, so that a later split of the region reaches the span, or its worker was
  started on the span alone (the pairs of \<open>U\<close>, which \<open>upsert_span\<close>, \<open>add_region_to_span\<close> and
  \<open>on_region_split\<close> never extend).\<close>

theorem region_index_complete:
  assumes "registry_reachable U reg" and "bt_get (sr_spans reg) t = Some s" and "live_region s r"
  shows "(t, r) \<in> U \<or> has_region r reg \<and> s \<in> set (spans_for_region r reg)"
proof (cases "(t, r) \<in> U")
  case False
  have "t \<in> index_tables (sr_region_index reg) r"
    using registry_invD(4) [OF registry_reachable_inv [OF assms(1)] assms(2,3) False] .
  then obtain tids where "bt_get (sr_region_index reg) r = Some tids" "t \<in> set tids"
    by (auto simp: index_tables_def split: option.splits)
  then show ?thesis
    using assms(2) by (force simp: has_region_def spans_for_region_def List.map_filter_def)
qed simp

text \<open>A table with one worker started through the index, on region 20, and one started on the span alone,
  on region 30.\<close>

definition two_table_registry :: span_registry where
  "two_table_registry = update_span (start_worker 30) 7
    (add_region_to_span 7 20 (upsert_span (replication_span_new 7 [1] [2]) span_registry_new))"

definition two_worker_table :: replication_span where
  "two_worker_table = start_worker 30 (start_worker 20 (replication_span_new 7 [1] [2]))"

lemma two_table_registry_reachable: "registry_reachable {(7, 30)} two_table_registry"
proof -
  have "registry_reachable (insert (7, 30) ({} - {7} \<times> UNIV - {(7, 20)})) two_table_registry"
    unfolding two_table_registry_def
    by (intro RStart RAdd) (use RUpsert [OF RNew replication_span_new_wf [of 7 "[1]" "[2]"]]
        in \<open>simp add: replication_span_new_def\<close>)
  then show ?thesis by simp
qed

lemma two_table_registry_eval:
  "bt_get (sr_spans two_table_registry) 7 = Some two_worker_table"
  "sr_region_index two_table_registry = [(20, [7])]"
  by (simp_all add: two_table_registry_def two_worker_table_def add_region_to_span_def upsert_span_def
      span_registry_new_def update_span_def replication_span_new_def span_region_ids_def index_push_def)

lemma two_table_registry_live: "live_region two_worker_table 20"
  by (simp add: two_worker_table_def live_region_workers wf_intros)

theorem region_index_complete_witness:
  "has_region 20 two_table_registry \<and> two_worker_table \<in> set (spans_for_region 20 two_table_registry)"
  using region_index_complete [OF two_table_registry_reachable two_table_registry_eval(1)
      two_table_registry_live] by simp

text \<open>C11: a split loses no coverage of an indexed table.  In every registry that the operations build, after
  the split of a region every table that was indexed under it has a worker that is not draining for
  every child region; a table that was not indexed under it keeps its span as it was, also when the
  span has a worker on the region that was started without the index; the parent leaves the index
  unless it is one of its own children; and only children are returned for subscription.\<close>

theorem split_keeps_coverage:
  assumes "registry_reachable U reg" and "on_region_split p cs reg = (new, reg')"
  shows "(t \<in> index_tables (sr_region_index reg) p \<and> bt_get (sr_spans reg) t \<noteq> None \<longrightarrow>
      (\<exists>s. bt_get (sr_spans reg') t = Some s \<and> (\<forall>c \<in> set cs. live_region s c)))
    \<and> (t \<notin> index_tables (sr_region_index reg) p \<longrightarrow> bt_get (sr_spans reg') t = bt_get (sr_spans reg) t)
    \<and> (p \<notin> set cs \<longrightarrow> \<not> has_region p reg') \<and> set new \<subseteq> set cs"
  using on_region_split_inv(2-5) [OF registry_reachable_inv [OF assms(1)] assms(2)] by blast

theorem split_keeps_coverage_witness:
  "\<exists>s. bt_get (sr_spans (snd (on_region_split 20 [20, 21] two_table_registry))) 7 = Some s
    \<and> (\<forall>c \<in> {20, 21}. live_region s c)"
  using split_keeps_coverage [OF two_table_registry_reachable, of 20 "[20, 21]"
      "fst (on_region_split 20 [20, 21] two_table_registry)"
      "snd (on_region_split 20 [20, 21] two_table_registry)" 7]
  by (simp add: two_table_registry_eval index_tables_def)

end
