(* ===== verification/SpanResolver.thy ===== *)
theory SpanResolver
  imports SpanRegistry
begin

text \<open>
  Finding which tables and regions to replicate (\<open>stream-ingest/src/span_ctl/resolver.rs\<close>): the spans of
  the source's tables, the regions that overlap a span, split and reconcile handling and the discovery
  of created and dropped tables.

  The command line tools are parameters: \<open>mysql\<close> takes host, port and query, \<open>curl\<close> the URL, and a
  command either cannot be started or ends with its success and output.  The JSON parser is a parameter
  \<open>parse_json\<close> into a datatype of JSON values.  The text of a failure is kept only as far as it tells
  the failures apart.  The text the tools print is ASCII.
\<close>

section \<open>Text\<close>

definition str_bytes :: "string \<Rightarrow> bytes" where
  "str_bytes s = map of_char s"

fun dec_digits :: "nat \<Rightarrow> string" where
  "dec_digits n = (if n < 10 then [char_of (48 + n)] else dec_digits (n div 10) @ [char_of (48 + n mod 10)])"

declare dec_digits.simps [simp del]

definition dec_int :: "int \<Rightarrow> string" where
  "dec_int i = (if i < 0 then CHR ''-'' # dec_digits (nat (- i)) else dec_digits (nat i))"

definition is_digit :: "char \<Rightarrow> bool" where
  "is_digit c \<longleftrightarrow> 48 \<le> (of_char c :: nat) \<and> (of_char c :: nat) \<le> 57"

definition digits_value :: "string \<Rightarrow> nat" where
  "digits_value s = foldl (\<lambda>n c. n * 10 + (of_char c - 48)) 0 s"

text \<open>\<open>str::parse\<close> of an \<open>i64\<close>: an optional sign, at least one digit, in range.\<close>

definition parse_i64 :: "string \<Rightarrow> i64 option" where
  "parse_i64 s =
    (let (neg, ds) = (case s of c # cs \<Rightarrow> if c = CHR ''-'' then (True, cs) else if c = CHR ''+'' then (False, cs)
                                           else (False, s) | [] \<Rightarrow> (False, []));
         v = (if neg then - int (digits_value ds) else int (digits_value ds)) in
     if ds \<noteq> [] \<and> list_all is_digit ds \<and> - (2 ^ 63) \<le> v \<and> v < 2 ^ 63 then Some (of_int v) else None)"

definition is_space :: "char \<Rightarrow> bool" where
  "is_space c \<longleftrightarrow> c \<in> {CHR '' '', char_of (9 :: nat), char_of (10 :: nat), char_of (11 :: nat), char_of (12 :: nat), char_of (13 :: nat)}"

definition trim :: "string \<Rightarrow> string" where
  "trim s = rev (dropWhile is_space (rev (dropWhile is_space s)))"

fun split_on :: "char \<Rightarrow> string \<Rightarrow> string list" where
  "split_on d [] = [[]]"
| "split_on d (c # cs) =
    (if c = d then [] # split_on d cs
     else (case split_on d cs of p # ps \<Rightarrow> (c # p) # ps | [] \<Rightarrow> [[c]]))"

definition strip_cr :: "string \<Rightarrow> string" where
  "strip_cr s = (if s \<noteq> [] \<and> last s = char_of (13 :: nat) then butlast s else s)"

definition str_lines :: "string \<Rightarrow> string list" where
  "str_lines s =
    (let ps = split_on (char_of (10 :: nat)) s
     in map strip_cr (butlast ps) @ (if last ps = [] then [] else [last ps]))"

section \<open>Commands and JSON\<close>

datatype cmd_result = CmdError | CmdOutput bool string

type_synonym mysql_cmd = "string \<Rightarrow> string \<Rightarrow> string \<Rightarrow> cmd_result"

definition addr_host :: "string \<Rightarrow> string" where
  "addr_host addr = hd (split_on (CHR '':'') addr)"

definition addr_port :: "string \<Rightarrow> string \<Rightarrow> string" where
  "addr_port dflt addr =
    (let ps = split_on (CHR '':'') addr in if length ps > 1 then ps ! 1 else dflt)"

datatype json =
    JNull
  | JBool bool
  | JInt int
  | JFloat
  | JString string
  | JArray "json list"
  | JObject "(string \<times> json) list"

fun json_get :: "string \<Rightarrow> json \<Rightarrow> json option" where
  "json_get k (JObject kvs) = map_of kvs k"
| "json_get k _ = None"

fun json_array :: "json \<Rightarrow> json list option" where
  "json_array (JArray xs) = Some xs"
| "json_array _ = None"

fun json_u64 :: "json \<Rightarrow> u64 option" where
  "json_u64 (JInt i) = (if 0 \<le> i \<and> i < 2 ^ 64 then Some (of_int i) else None)"
| "json_u64 _ = None"

fun json_str :: "json \<Rightarrow> string option" where
  "json_str (JString s) = Some s"
| "json_str _ = None"

section \<open>Hexadecimal\<close>

definition hex_digit :: "nat \<Rightarrow> char" where
  "hex_digit n = char_of (if n < 10 then 48 + n else 87 + n)"

definition hex_encode :: "bytes \<Rightarrow> string" where
  "hex_encode data = concat (map (\<lambda>b. [hex_digit (unat b div 16), hex_digit (unat b mod 16)]) data)"

definition hex_value :: "char \<Rightarrow> nat option" where
  "hex_value c =
    (let n = of_char c :: nat in
     if 48 \<le> n \<and> n \<le> 57 then Some (n - 48)
     else if 65 \<le> n \<and> n \<le> 70 then Some (n - 55)
     else if 97 \<le> n \<and> n \<le> 102 then Some (n - 87)
     else None)"

text \<open>\<open>u8::from_str_radix\<close> on two characters: it also accepts a plus sign before one digit.\<close>

definition hex_pair :: "char \<Rightarrow> char \<Rightarrow> byte option" where
  "hex_pair a b =
    (case hex_value b of
       None \<Rightarrow> None
     | Some lo \<Rightarrow>
         if a = CHR ''+'' then Some (of_nat lo)
         else map_option (\<lambda>hi. of_nat (hi * 16 + lo)) (hex_value a))"

fun hex_decode_pairs :: "string \<Rightarrow> (string + bytes)" where
  "hex_decode_pairs (a # b # cs) =
    (case hex_pair a b of
       None \<Rightarrow> Inl ''hex decode''
     | Some x \<Rightarrow> rmap (\<lambda>xs. x # xs) (hex_decode_pairs cs))"
| "hex_decode_pairs _ = Inr []"

definition hex_decode :: "string \<Rightarrow> (string + bytes)" where
  "hex_decode hex_str =
    (if hex_str = [] then Inr []
     else if length hex_str mod 2 \<noteq> 0 then Inl ''hex string has odd length''
     else hex_decode_pairs hex_str)"

definition hex_or_default :: "string \<Rightarrow> bytes" where
  "hex_or_default s = (case hex_decode s of Inr d \<Rightarrow> d | Inl _ \<Rightarrow> [])"

section \<open>Spans of tables\<close>

definition format_key_prefix :: "i64 \<Rightarrow> bytes" where
  "format_key_prefix table_id = str_bytes (''t_'' @ dec_int (sint table_id) @ ''_'')"

definition format_key_end :: "i64 \<Rightarrow> bytes" where
  "format_key_end table_id = str_bytes (''t_'' @ dec_int (sint (table_id + 1)) @ ''_'')"

definition make_span_for_table :: "i64 \<Rightarrow> replication_span" where
  "make_span_for_table table_id =
    replication_span_new table_id (format_key_prefix table_id) (format_key_end table_id)"

definition TABLE_IDS_QUERY :: string where
  "TABLE_IDS_QUERY = ''SELECT DISTINCT TIDB_TABLE_ID FROM information_schema.tables WHERE TABLE_SCHEMA NOT IN ('' @ [CHR 0x27] @ ''mysql'' @ [CHR 0x27] @ '', '' @ [CHR 0x27] @ ''information_schema'' @ [CHR 0x27] @ '', '' @ [CHR 0x27] @ ''performance_schema'' @ [CHR 0x27] @ '', '' @ [CHR 0x27] @ ''metrics_schema'' @ [CHR 0x27] @ '')''"

definition query_table_ids :: "mysql_cmd \<Rightarrow> string \<Rightarrow> string + i64 list" where
  "query_table_ids mysql tidb_addr =
    (case mysql (addr_host tidb_addr) (addr_port ''4000'' tidb_addr) TABLE_IDS_QUERY of
       CmdError \<Rightarrow> Inl ''mysql command failed''
     | CmdOutput success out \<Rightarrow>
         if \<not> success then Inl ''mysql exit status''
         else
           let ids = List.map_filter (\<lambda>line. parse_i64 (trim line)) (str_lines out)
           in if ids = [] then Inl ''no tables found'' else Inr ids)"

definition build_initial_spans :: "mysql_cmd \<Rightarrow> string \<Rightarrow> replication_span list" where
  "build_initial_spans mysql addr =
    (case query_table_ids mysql addr of Inl e \<Rightarrow> [] | Inr ids \<Rightarrow> map make_span_for_table ids)"

definition CURRENT_TABLES_QUERY :: string where
  "CURRENT_TABLES_QUERY = ''SELECT TIDB_TABLE_ID, TABLE_NAME FROM information_schema.tables WHERE TABLE_SCHEMA NOT IN ('' @ [CHR 0x27] @ ''mysql'' @ [CHR 0x27] @ '','' @ [CHR 0x27] @ ''information_schema'' @ [CHR 0x27] @ '','' @ [CHR 0x27] @ ''performance_schema'' @ [CHR 0x27] @ '','' @ [CHR 0x27] @ ''metrics_schema'' @ [CHR 0x27] @ '')''"

definition parse_table_line :: "string \<Rightarrow> (i64 \<times> string) option" where
  "parse_table_line line =
    (let parts = split_on (char_of (9 :: nat)) line in
     if length parts \<ge> 2 then map_option (\<lambda>i. (i, trim (parts ! 1))) (parse_i64 (trim (parts ! 0)))
     else None)"

definition query_current_tables :: "mysql_cmd \<Rightarrow> string \<Rightarrow> string + (i64 list \<times> string list)" where
  "query_current_tables mysql tidb_addr =
    (case mysql (addr_host tidb_addr) (addr_port ''4000'' tidb_addr) CURRENT_TABLES_QUERY of
       CmdError \<Rightarrow> Inl ''mysql query failed''
     | CmdOutput success out \<Rightarrow>
         if \<not> success then Inl ''mysql exit''
         else
           let rows = List.map_filter parse_table_line (str_lines out)
           in Inr (map fst rows, map snd rows))"

definition query_max_ddl_job_id :: "mysql_cmd \<Rightarrow> string \<Rightarrow> i64" where
  "query_max_ddl_job_id mysql tidb_addr =
    (case mysql (addr_host tidb_addr) (addr_port ''4100'' tidb_addr)
        ''SELECT COALESCE(MAX(job_id),0) FROM mysql.tidb_ddl_history'' of
       CmdError \<Rightarrow> 0
     | CmdOutput success out \<Rightarrow>
         if \<not> success then 0 else (case parse_i64 (trim out) of None \<Rightarrow> 0 | Some i \<Rightarrow> i))"

section \<open>Regions of a range\<close>

definition overlaps_range :: "bytes \<Rightarrow> bytes \<Rightarrow> bytes \<Rightarrow> bytes \<Rightarrow> bool" where
  "overlaps_range start_key end_key r_start r_end =
    ((r_end = [] \<or> r_end > start_key) \<and> (r_start = [] \<or> r_start < end_key))"

definition region_of_json :: "json \<Rightarrow> u64 \<times> bytes \<times> bytes" where
  "region_of_json r =
    (case Option.bind (json_get ''id'' r) json_u64 of None \<Rightarrow> 0 | Some i \<Rightarrow> i,
     case Option.bind (json_get ''start_key'' r) json_str of None \<Rightarrow> [] | Some s \<Rightarrow> hex_or_default s,
     case Option.bind (json_get ''end_key'' r) json_str of None \<Rightarrow> [] | Some s \<Rightarrow> hex_or_default s)"

definition keep_region :: "bytes \<Rightarrow> bytes \<Rightarrow> u64 \<times> bytes \<times> bytes \<Rightarrow> bool" where
  "keep_region start_key end_key r =
    (case r of (rid, r_start, r_end) \<Rightarrow>
       rid \<noteq> 0 \<and> \<not> (r_start = [] \<and> r_end = []) \<and> overlaps_range start_key end_key r_start r_end)"

definition pd_regions_json ::
  "(string \<Rightarrow> cmd_result) \<Rightarrow> (string \<Rightarrow> json option) \<Rightarrow> string \<Rightarrow> string + json list" where
  "pd_regions_json curl parse_json pd_addr =
    (case curl (''http://'' @ pd_addr @ ''/pd/api/v1/regions'') of
       CmdError \<Rightarrow> Inl ''curl failed''
     | CmdOutput success body \<Rightarrow>
         if \<not> success then Inl ''curl exit''
         else (case parse_json body of
                 None \<Rightarrow> Inl ''PD JSON parse''
               | Some j \<Rightarrow>
                   (case Option.bind (json_get ''regions'' j) json_array of
                      None \<Rightarrow> Inl ''PD missing regions array''
                    | Some regions \<Rightarrow> Inr regions)))"

definition query_regions_for_range_with_keys ::
  "(string \<Rightarrow> cmd_result) \<Rightarrow> (string \<Rightarrow> json option) \<Rightarrow> string \<Rightarrow> bytes \<Rightarrow> bytes
     \<Rightarrow> string + (u64 \<times> bytes \<times> bytes) list" where
  "query_regions_for_range_with_keys curl parse_json pd_addr start_key end_key =
    rmap (\<lambda>regions. filter (keep_region start_key end_key) (map region_of_json regions))
      (pd_regions_json curl parse_json pd_addr)"

definition resolve_span_to_regions ::
  "(string \<Rightarrow> cmd_result) \<Rightarrow> (string \<Rightarrow> json option) \<Rightarrow> bool \<Rightarrow> string \<Rightarrow> bytes \<Rightarrow> bytes
     \<Rightarrow> string + (u64 \<times> bytes \<times> bytes) list" where
  "resolve_span_to_regions curl parse_json joined pd_addr start_key end_key =
    (if joined then query_regions_for_range_with_keys curl parse_json pd_addr start_key end_key
     else Inl ''spawn_blocking failed'')"

definition query_regions_for_range ::
  "(string \<Rightarrow> cmd_result) \<Rightarrow> (string \<Rightarrow> json option) \<Rightarrow> string \<Rightarrow> bytes \<Rightarrow> bytes \<Rightarrow> string + u64 list" where
  "query_regions_for_range curl parse_json pd_addr start_key end_key =
    rmap (\<lambda>regions. map fst (filter (keep_region start_key end_key) (map region_of_json regions)))
      (pd_regions_json curl parse_json pd_addr)"

definition resolve_one_span ::
  "(bytes \<Rightarrow> bytes \<Rightarrow> string + u64 list) \<Rightarrow> replication_span \<Rightarrow> replication_span" where
  "resolve_one_span query s =
    (if rs_state s \<noteq> SInitialized \<and> rs_state s \<noteq> SSubscribing then s
     else (case query (rs_start_key s) (rs_end_key s) of
             Inr region_ids \<Rightarrow> fold start_worker region_ids s
           | Inl e \<Rightarrow> s))"

definition resolve_spans_to_regions ::
  "(string \<Rightarrow> cmd_result) \<Rightarrow> (string \<Rightarrow> json option) \<Rightarrow> string \<Rightarrow> span_registry \<Rightarrow> span_registry" where
  "resolve_spans_to_regions curl parse_json source_pd reg =
    reg\<lparr>sr_spans := map (\<lambda>(t, s). (t, resolve_one_span (query_regions_for_range curl parse_json source_pd) s))
                       (sr_spans reg)\<rparr>"

section \<open>Splits and reconciliation\<close>

record split_action =
  sa_new_regions :: "u64 list"
  sa_drain_parent_region :: "u64 option"
  sa_checkpoint_ts :: timestamp

fun start_new_workers :: "u64 list \<Rightarrow> replication_span \<Rightarrow> u64 list \<times> replication_span" where
  "start_new_workers [] s = ([], s)"
| "start_new_workers (rid # rids) s =
    (if bt_get (rs_workers s) rid = None
     then (let (new, s) = start_new_workers rids (start_worker rid s) in (rid # new, s))
     else start_new_workers rids s)"

definition span_handle_split :: "u64 \<Rightarrow> u64 list \<Rightarrow> replication_span \<Rightarrow> split_action \<times> replication_span" where
  "span_handle_split parent new_region_ids s =
    (let drain_parent = (bt_get (rs_workers s) parent \<noteq> None);
         (new_regions, s) = start_new_workers new_region_ids s;
         s = (if drain_parent then drain_worker parent s else s)
     in (\<lparr>sa_new_regions = new_regions, sa_drain_parent_region = (if drain_parent then Some parent else None),
          sa_checkpoint_ts = rs_checkpoint_ts s\<rparr>, s))"

record reconcile_result =
  rr_to_add :: "(u64 \<times> bytes \<times> bytes) list"
  rr_to_remove :: "u64 list"

definition tracked_regions :: "span_registry \<Rightarrow> u64 list" where
  "tracked_regions reg = remdups (concat (map span_region_ids (bt_values (sr_spans reg))))"

definition reconcile ::
  "(u64 \<times> bytes \<times> bytes) list \<Rightarrow> span_registry \<Rightarrow> reconcile_result \<times> span_registry" where
  "reconcile pd_regions reg =
    (let pd_set = set (map fst pd_regions);
         tracked = tracked_regions reg;
         to_add = filter (\<lambda>(rid, s, e). rid \<notin> set tracked) pd_regions;
         to_remove = filter (\<lambda>rid. rid \<notin> pd_set) tracked
     in (\<lparr>rr_to_add = to_add, rr_to_remove = to_remove\<rparr>,
         reg\<lparr>sr_spans := map (\<lambda>(t, s). (t, fold stop_worker to_remove s)) (sr_spans reg)\<rparr>))"

section \<open>Created and dropped tables\<close>

definition seed_cache :: "(i64 \<times> string) list \<Rightarrow> span_registry \<Rightarrow> span_registry" where
  "seed_cache rows reg = reg\<lparr>sr_table_cache := fold (\<lambda>(t, n). bt_insert t n) rows (sr_table_cache reg)\<rparr>"

definition drop_table :: "i64 \<Rightarrow> span_registry \<Rightarrow> span_registry" where
  "drop_table t reg =
    (let reg = snd (remove_span t reg) in reg\<lparr>sr_table_cache := bt_remove t (sr_table_cache reg)\<rparr>)"

definition create_table :: "i64 \<times> string \<Rightarrow> span_registry \<Rightarrow> span_registry" where
  "create_table row reg =
    (case row of (t, name) \<Rightarrow>
       let reg = upsert_span (make_span_for_table t) reg
       in reg\<lparr>sr_table_cache := bt_insert t name (sr_table_cache reg)\<rparr>)"

definition discover_new_spans ::
  "mysql_cmd \<Rightarrow> string \<Rightarrow> span_registry \<Rightarrow> replication_span list \<times> span_registry" where
  "discover_new_spans mysql addr reg =
    (let current_max = query_max_ddl_job_id mysql addr in
     if sr_last_seen_ddl_job_id reg = 0 then
       (case query_current_tables mysql addr of
          Inl e \<Rightarrow> ([], reg)
        | Inr (current_ids, names) \<Rightarrow>
            let reg = seed_cache (zip current_ids names) reg;
                new_spans = map make_span_for_table current_ids;
                reg = fold upsert_span new_spans reg
            in (new_spans, reg\<lparr>sr_last_seen_ddl_job_id := current_max\<rparr>))
     else if current_max \<le>s sr_last_seen_ddl_job_id reg then ([], reg)
     else
       let reg = reg\<lparr>sr_last_seen_ddl_job_id := current_max\<rparr> in
       (case query_current_tables mysql addr of
          Inl e \<Rightarrow> ([], reg)
        | Inr (current_ids, names) \<Rightarrow>
            let cached = bt_keys (sr_table_cache reg);
                reg = fold drop_table (filter (\<lambda>t. t \<notin> set current_ids) cached) reg;
                created = filter (\<lambda>(t, n). t \<notin> set cached) (zip current_ids names)
            in (map (\<lambda>(t, n). make_span_for_table t) created, fold create_table created reg)))"

section \<open>Hexadecimal round trip\<close>

lemma of_char_char_of_small [simp]: "n < 256 \<Longrightarrow> (of_char (char_of n :: char) :: nat) = n"
  by simp

lemma hex_value_digit [simp]: "n < 16 \<Longrightarrow> hex_value (hex_digit n) = Some n"
  by (auto simp: hex_value_def hex_digit_def Let_def)

lemma hex_digit_not_plus [simp]: "n < 16 \<Longrightarrow> hex_digit n \<noteq> CHR ''+''"
proof
  assume "n < 16" "hex_digit n = CHR ''+''"
  then have "(of_char (hex_digit n) :: nat) = of_char (CHR ''+'')" by simp
  with \<open>n < 16\<close> show False by (simp add: hex_digit_def split: if_splits)
qed

lemma hex_pair_digits: "hex_pair (hex_digit (unat (b :: byte) div 16)) (hex_digit (unat b mod 16)) = Some b"
proof -
  have "unat b < 256" using unsigned_less [of b, where ?'a = nat] by simp
  then have "unat b div 16 < 16" by (simp add: div_less_iff_less_mult)
  then show ?thesis by (simp add: hex_pair_def div_mult_mod_eq del: of_nat_add of_nat_mult)
qed

lemma hex_decode_pairs_encode: "hex_decode_pairs (hex_encode d) = Inr d"
  by (induction d) (simp_all add: hex_encode_def hex_pair_digits)

lemma length_hex_encode: "length (hex_encode d) = 2 * length d"
  by (induction d) (simp_all add: hex_encode_def)

section \<open>Decimal keys\<close>

lemma list_less_diff: "(a :: byte) < b \<Longrightarrow> p @ a # x < p @ b # y"
  by (induction p) simp_all

lemma list_le_append: "(xs :: bytes) \<le> xs @ ys"
  by (induction xs) simp_all

lemma str_bytes_simps [simp]:
  "str_bytes [] = []" "str_bytes (c # s) = of_char c # str_bytes s" "str_bytes (s @ t) = str_bytes s @ str_bytes t"
  by (simp_all add: str_bytes_def)

lemma of_char_word: "n < 256 \<Longrightarrow> (of_char (char_of n :: char) :: byte) = of_nat n"
  using of_nat_of_char [of "char_of n :: char", where ?'a = byte] by simp

definition dec_byte :: "nat \<Rightarrow> byte" where
  "dec_byte d = of_nat (48 + d)"

lemma str_bytes_dec_digits:
  "str_bytes (dec_digits n) =
    (if n < 10 then [dec_byte n] else str_bytes (dec_digits (n div 10)) @ [dec_byte (n mod 10)])"
  by (subst dec_digits.simps) (auto simp: dec_byte_def of_char_word)

lemma dec_byte_less: "d < e \<Longrightarrow> e < 10 \<Longrightarrow> dec_byte d < dec_byte e"
  by (simp add: dec_byte_def word_less_nat_alt unat_of_nat del: of_nat_add)

lemma length_dec_digits: "length (dec_digits n) = length (str_bytes (dec_digits n))"
  by (simp add: str_bytes_def)

text \<open>Counting up by one either changes a digit in place or, from a number that starts with a nine to one
  that starts with a one, adds a digit.\<close>

lemma dec_digits_Suc:
  "(\<exists>p a b x y. str_bytes (dec_digits n) = p @ a # x \<and> str_bytes (dec_digits (Suc n)) = p @ b # y \<and> a < b
      \<and> length y = length x)
   \<or> (\<exists>x y. str_bytes (dec_digits n) = 57 # x \<and> str_bytes (dec_digits (Suc n)) = 49 # y \<and> length y = Suc (length x))"
proof (induction n rule: less_induct)
  case (less n)
  consider "n < 9" | "n = 9" | "n \<ge> 10" "n mod 10 < 9" | "n \<ge> 10" "n mod 10 = 9"
    using mod_less_divisor [of 10 n] by linarith
  then show ?case
  proof cases
    case 1
    then have "str_bytes (dec_digits n) = [] @ dec_byte n # []"
      "str_bytes (dec_digits (Suc n)) = [] @ dec_byte (Suc n) # []" "dec_byte n < dec_byte (Suc n)"
      by (simp_all add: str_bytes_dec_digits dec_byte_less)
    then show ?thesis by blast
  next
    case 2
    then show ?thesis by (simp add: str_bytes_dec_digits dec_byte_def)
  next
    case 3
    then have "Suc n div 10 = n div 10" "Suc n mod 10 = Suc (n mod 10)" by (simp_all add: div_Suc mod_Suc)
    then have "str_bytes (dec_digits n) = str_bytes (dec_digits (n div 10)) @ dec_byte (n mod 10) # []"
      "str_bytes (dec_digits (Suc n)) = str_bytes (dec_digits (n div 10)) @ dec_byte (Suc (n mod 10)) # []"
      using 3 by (simp_all add: str_bytes_dec_digits [of n] str_bytes_dec_digits [of "Suc n"])
    moreover have "dec_byte (n mod 10) < dec_byte (Suc (n mod 10))" using 3 by (simp add: dec_byte_less)
    ultimately show ?thesis by blast
  next
    case 4
    then have "Suc n div 10 = Suc (n div 10)" "Suc n mod 10 = 0" by (simp_all add: div_Suc mod_Suc)
    then have step: "str_bytes (dec_digits n) = str_bytes (dec_digits (n div 10)) @ [dec_byte 9]"
      "str_bytes (dec_digits (Suc n)) = str_bytes (dec_digits (Suc (n div 10))) @ [dec_byte 0]"
      using 4 by (simp_all add: str_bytes_dec_digits [of n] str_bytes_dec_digits [of "Suc n"])
    have "n div 10 < n" using 4 by simp
    from less.IH [OF this] show ?thesis
    proof (elim disjE exE conjE)
      fix p a b x y
      assume "str_bytes (dec_digits (n div 10)) = p @ a # x" "str_bytes (dec_digits (Suc (n div 10))) = p @ b # y"
        "a < b" "length y = length x"
      then have "str_bytes (dec_digits n) = p @ a # (x @ [dec_byte 9])"
        "str_bytes (dec_digits (Suc n)) = p @ b # (y @ [dec_byte 0])" "length (y @ [dec_byte 0]) = length (x @ [dec_byte 9])"
        by (simp_all add: step)
      with \<open>a < b\<close> show ?thesis by blast
    next
      fix x y
      assume "str_bytes (dec_digits (n div 10)) = 57 # x" "str_bytes (dec_digits (Suc (n div 10))) = 49 # y"
        "length y = Suc (length x)"
      then have "str_bytes (dec_digits n) = 57 # (x @ [dec_byte 9])"
        "str_bytes (dec_digits (Suc n)) = 49 # (y @ [dec_byte 0])"
        "length (y @ [dec_byte 0]) = Suc (length (x @ [dec_byte 9]))"
        by (simp_all add: step)
      then show ?thesis by blast
    qed
  qed
qed

text \<open>C40: when a table's span holds the table's rows.  For a table id that is not negative, the span built from
  the decimal keys contains the keys of the table's rows exactly when the id and its successor have
  the same number of digits: the spans of tables 9, 99, 999 and so on hold none of their rows.\<close>

theorem table_span_holds_rows:
  assumes "0 \<le> sint t" "sint t < 2 ^ 63 - 1"
  shows "span_contains_key (format_key_prefix t @ row) (make_span_for_table t) \<longleftrightarrow>
    length (dec_int (sint t)) = length (dec_int (sint t + 1))"
proof -
  obtain n where n: "sint t = int n" using assms(1) nonneg_int_cases by blast
  have "sint (t + 1) = sint t + 1"
    using assms by (simp add: sint_word_ariths signed_take_bit_int_eq_self)
  then have keys: "format_key_prefix t = [116, 95] @ str_bytes (dec_digits n) @ [95]"
    "format_key_end t = [116, 95] @ str_bytes (dec_digits (Suc n)) @ [95]"
    by (simp_all add: format_key_prefix_def format_key_end_def n dec_int_def nat_add_distrib)
  have digits: "length (dec_int (sint t)) = length (str_bytes (dec_digits n))"
    "length (dec_int (sint t + 1)) = length (str_bytes (dec_digits (Suc n)))"
    by (simp_all add: n dec_int_def nat_add_distrib length_dec_digits)
  have start: "format_key_prefix t \<le> format_key_prefix t @ row"
    by (rule list_le_append)
  have "format_key_prefix t @ row < format_key_end t \<longleftrightarrow>
    length (str_bytes (dec_digits n)) = length (str_bytes (dec_digits (Suc n)))"
    using dec_digits_Suc [of n]
  proof (elim disjE exE conjE)
    fix p a b x y
    assume h: "str_bytes (dec_digits n) = p @ a # x" "str_bytes (dec_digits (Suc n)) = p @ b # y" "a < b" "length y = length x"
    then show ?thesis
      using list_less_diff [OF h(3), of "[116, 95] @ p" "x @ [95] @ row" "y @ [95]"] by (simp add: keys)
  next
    fix x y
    assume "str_bytes (dec_digits n) = 57 # x" "str_bytes (dec_digits (Suc n)) = 49 # y" "length y = Suc (length x)"
    then show ?thesis by (simp add: keys)
  qed
  with start digits show ?thesis
    by (simp add: span_contains_key_def make_span_for_table_def replication_span_new_def)
qed

theorem table_span_holds_rows_witness:
  "0 \<le> sint (9 :: i64) \<and> sint (9 :: i64) < 2 ^ 63 - 1
    \<and> \<not> span_contains_key (format_key_prefix 9 @ [1]) (make_span_for_table 9)"
  using table_span_holds_rows [of 9 "[1]"] by (simp add: dec_int_def dec_digits.simps)

lemma hex_decode_encode: "hex_decode (hex_encode d) = Inr d"
proof (cases d)
  case Nil
  then show ?thesis by (simp add: hex_decode_def hex_encode_def)
next
  case (Cons b d')
  then have "hex_encode d \<noteq> []" by (simp add: hex_encode_def)
  then show ?thesis by (simp add: hex_decode_def hex_decode_pairs_encode length_hex_encode)
qed

section \<open>Regions of a span\<close>

text \<open>A region as the placement driver prints it.\<close>

definition region_json :: "u64 \<times> bytes \<times> bytes \<Rightarrow> json" where
  "region_json r =
    (case r of (rid, a, b) \<Rightarrow>
       JObject [(''id'', JInt (uint rid)), (''start_key'', JString (hex_encode a)), (''end_key'', JString (hex_encode b))])"

lemma region_of_json_inverse [simp]: "region_of_json (region_json r) = r"
  using uint_lt2p [of "fst r"]
  by (cases r) (simp add: region_of_json_def region_json_def hex_or_default_def hex_decode_encode)

lemma overlaps_range_iff:
  assumes "b \<noteq> []" "range_ok a b" "range_ok c d"
  shows "overlaps_range a b c d \<longleftrightarrow> (\<exists>k. in_range a b k \<and> in_range c d k)"
proof -
  have "[] < b" using assms(1) by (cases b) simp_all
  then show ?thesis
    using ranges_meet_iff [OF assms(2,3)] assms(1) by (auto simp: overlaps_range_def)
qed

text \<open>The regions of a span.  When the placement driver answers with a list of regions, the regions
  found for a non-empty span are those that share a key with it, except a region that covers the
  whole key space, which is taken for a placeholder and skipped.\<close>

lemma regions_for_span_exact:
  assumes "curl (''http://'' @ pd @ ''/pd/api/v1/regions'') = CmdOutput True body"
    and "parse_json body = Some (JObject [(''regions'', JArray (map region_json regions))])"
    and "a < b" and "\<forall>(rid, c, d) \<in> set regions. rid \<noteq> 0 \<and> range_ok c d"
  shows "\<exists>found. query_regions_for_range_with_keys curl parse_json pd a b = Inr found \<and>
    (\<forall>rid c d. (rid, c, d) \<in> set found \<longleftrightarrow>
       (rid, c, d) \<in> set regions \<and> (c, d) \<noteq> ([], []) \<and> (\<exists>k. in_range a b k \<and> in_range c d k))"
proof -
  have "b \<noteq> []" "range_ok a b" using assms(3) by (auto simp: range_ok_def)
  note ov = overlaps_range_iff [OF this]
  have "keep_region a b (rid, c, d) \<longleftrightarrow> (c, d) \<noteq> ([], []) \<and> (\<exists>k. in_range a b k \<and> in_range c d k)"
    if "(rid, c, d) \<in> set regions" for rid c d
  proof -
    have "rid \<noteq> 0" "range_ok c d" using that assms(4) by auto
    then show ?thesis using ov [of c d] by (auto simp: keep_region_def)
  qed
  moreover have "query_regions_for_range_with_keys curl parse_json pd a b = Inr (filter (keep_region a b) regions)"
    using assms(1,2) by (simp add: query_regions_for_range_with_keys_def pd_regions_json_def o_def)
  ultimately show ?thesis by auto
qed

lemma regions_for_span_exact_witness:
  "\<exists>found. query_regions_for_range_with_keys (\<lambda>_. CmdOutput True [])
      (\<lambda>_. Some (JObject [(''regions'', JArray (map region_json [(7, [1], [3]), (8, [], [])]))])) ''pd'' [2] [4] = Inr found
    \<and> (7, [1], [3]) \<in> set found \<and> (8, [], []) \<notin> set found"
proof -
  have "in_range [2] [4] ([2] :: bytes) \<and> in_range [1] [3] ([2] :: bytes)" by (simp add: in_range_def)
  then have "\<exists>k. in_range [2] [4] k \<and> in_range [1] [3] k" by blast
  then show ?thesis
    using regions_for_span_exact [of "\<lambda>_. CmdOutput True []" "''pd''" "[]"
      "\<lambda>_. Some (JObject [(''regions'', JArray (map region_json [(7, [1], [3]), (8, [], [])]))])"
      "[(7, [1], [3]), (8, [], [])]" "[2]" "[4]"]
    by (auto simp: range_ok_def)
qed

section \<open>Splits of a span\<close>

lemma start_new_workers_facts:
  "span_wf s \<Longrightarrow> span_wf (snd (start_new_workers rids s)) \<and>
    bt_get (rs_workers (snd (start_new_workers rids s))) r =
      (if r \<in> set rids \<and> bt_get (rs_workers s) r = None then Some (region_worker_new r WInitializing)
       else bt_get (rs_workers s) r)"
proof (induction rids arbitrary: s)
  case (Cons a rids)
  then show ?case
    using Cons.IH [OF start_worker_wf [OF Cons.prems, of a]] Cons.IH [OF Cons.prems]
    by (auto simp: start_worker_get case_prod_unfold Let_def)
qed simp

text \<open>A tracked parent is drained even when the split keeps its id for one of the children.\<close>

lemma span_handle_split_live:
  assumes "span_wf s"
  shows "live_region (snd (span_handle_split parent new_ids s)) r \<longleftrightarrow>
    (live_region s r \<or> r \<in> set new_ids \<and> bt_get (rs_workers s) r = None)
    \<and> \<not> (r = parent \<and> bt_get (rs_workers s) parent \<noteq> None)"
proof -
  have "snd (span_handle_split parent new_ids s) =
      (if bt_get (rs_workers s) parent \<noteq> None then drain_worker parent (snd (start_new_workers new_ids s))
       else snd (start_new_workers new_ids s))"
    by (simp add: span_handle_split_def case_prod_unfold Let_def)
  moreover have wf: "span_wf (snd (start_new_workers new_ids s))"
    using start_new_workers_facts [OF assms] by blast
  moreover have "live_region (snd (start_new_workers new_ids s)) r \<longleftrightarrow>
      live_region s r \<or> r \<in> set new_ids \<and> bt_get (rs_workers s) r = None"
    using start_new_workers_facts [OF assms, of new_ids r] by (auto simp: live_region_def region_worker_new_def)
  ultimately show ?thesis by (auto simp: live_region_workers(3) [OF wf])
qed

section \<open>Reconciliation\<close>

lemma fold_stop_worker:
  "span_wf s \<Longrightarrow> span_wf (fold stop_worker rids s) \<and>
    bt_get (rs_workers (fold stop_worker rids s)) r = (if r \<in> set rids then None else bt_get (rs_workers s) r)"
  by (induction rids arbitrary: s) (auto simp: stop_worker_wf stop_worker_get)

lemma span_region_ids_iff: "span_wf s \<Longrightarrow> r \<in> set (span_region_ids s) \<longleftrightarrow> bt_get (rs_workers s) r \<noteq> None"
  by (force simp: span_region_ids_def span_wf_def bt_get_Some_in)

lemma tracked_regions_iff:
  "r \<in> set (tracked_regions reg) \<longleftrightarrow> (\<exists>(t, s) \<in> set (sr_spans reg). r \<in> set (span_region_ids s))"
  by (force simp: tracked_regions_def bt_values_def)

lemma bt_get_map_values:
  "bt_get (map (\<lambda>(k, v). (k, f v)) m) k = map_option f (bt_get m k)"
  by (induction m) auto

lemma bt_wf_map_values: "bt_wf (map (\<lambda>(k, v). (k, f v)) m) = bt_wf m"
  by (simp add: bt_wf_def comp_def case_prod_unfold)

text \<open>C17: reconciliation.  Comparing a well-formed registry with the region list of the placement driver
  reports exactly the listed regions that no span tracks and the tracked regions that are not listed,
  and afterwards every span keeps exactly its workers on listed regions, in the state they had.\<close>

theorem reconcile_exact:
  assumes "bt_wf (sr_spans reg)" "\<forall>(t, s) \<in> set (sr_spans reg). span_wf s"
    and "reconcile pd reg = (res, reg')"
  shows "set (rr_to_add res) = {x \<in> set pd. fst x \<notin> set (tracked_regions reg)}
    \<and> set (rr_to_remove res) = set (tracked_regions reg) - fst ` set pd
    \<and> (\<forall>t s. bt_get (sr_spans reg) t = Some s \<longrightarrow>
        (\<exists>s'. bt_get (sr_spans reg') t = Some s' \<and> span_wf s' \<and>
          (\<forall>r. bt_get (rs_workers s') r = (if r \<in> fst ` set pd then bt_get (rs_workers s) r else None))))"
proof (intro conjI allI impI)
  define gone where "gone = filter (\<lambda>rid. rid \<notin> set (map fst pd)) (tracked_regions reg)"
  have res: "res = \<lparr>rr_to_add = filter (\<lambda>(rid, s, e). rid \<notin> set (tracked_regions reg)) pd, rr_to_remove = gone\<rparr>"
    and reg': "sr_spans reg' = map (\<lambda>(t, s). (t, fold stop_worker gone s)) (sr_spans reg)"
    using assms(3) by (auto simp: reconcile_def Let_def gone_def)
  show "set (rr_to_add res) = {x \<in> set pd. fst x \<notin> set (tracked_regions reg)}"
    by (auto simp: res)
  show "set (rr_to_remove res) = set (tracked_regions reg) - fst ` set pd"
    by (auto simp: res gone_def)
  fix t s assume s: "bt_get (sr_spans reg) t = Some s"
  then have mem: "(t, s) \<in> set (sr_spans reg)" using bt_get_Some_in [OF assms(1)] by blast
  then have wf: "span_wf s" using assms(2) by auto
  have "bt_get (rs_workers s) r = None" if "r \<notin> fst ` set pd" "r \<notin> set gone" for r
    using that mem span_region_ids_iff [OF wf] by (force simp: gone_def tracked_regions_iff)
  moreover have "r \<notin> set gone" if "r \<in> fst ` set pd" for r using that by (auto simp: gone_def)
  ultimately have "bt_get (rs_workers (fold stop_worker gone s)) r =
      (if r \<in> fst ` set pd then bt_get (rs_workers s) r else None)" for r
    using fold_stop_worker [OF wf, of gone r] by auto
  then show "\<exists>s'. bt_get (sr_spans reg') t = Some s' \<and> span_wf s' \<and>
      (\<forall>r. bt_get (rs_workers s') r = (if r \<in> fst ` set pd then bt_get (rs_workers s) r else None))"
    using fold_stop_worker [OF wf] by (simp add: reg' bt_get_map_values s)
qed

definition two_worker_span :: replication_span where
  "two_worker_span = start_worker 2 (start_worker 1 (replication_span_new 5 [1] [2]))"

definition two_region_registry :: span_registry where
  "two_region_registry = span_registry_new\<lparr>sr_spans := [(5, two_worker_span)]\<rparr>"

theorem reconcile_exact_witness:
  "\<exists>res reg'. reconcile [(2, [], [1]), (3, [1], [])] two_region_registry = (res, reg')
    \<and> rr_to_add res = [(3, [1], [])] \<and> rr_to_remove res = [1]
    \<and> (\<exists>s. bt_get (sr_spans reg') 5 = Some s
        \<and> bt_get (rs_workers s) 1 = None \<and> bt_get (rs_workers s) 2 \<noteq> None)"
proof -
  let ?pd = "[(2, [], [1]), (3, [1], [])] :: (u64 \<times> bytes \<times> bytes) list"
  obtain res reg' where rec: "reconcile ?pd two_region_registry = (res, reg')" by fastforce
  have wf: "span_wf two_worker_span" by (simp add: two_worker_span_def start_worker_wf replication_span_new_wf)
  have workers: "rs_workers two_worker_span = [(1, region_worker_new 1 WInitializing), (2, region_worker_new 2 WInitializing)]"
    by (simp add: two_worker_span_def start_worker_def replication_span_new_def)
  have tracked: "tracked_regions two_region_registry = [1, 2]"
    by (simp add: tracked_regions_def two_region_registry_def span_registry_new_def bt_values_def span_region_ids_def
        workers region_worker_new_def)
  have "rr_to_add res = [(3, [1], [])] \<and> rr_to_remove res = [1]"
    using rec by (auto simp: reconcile_def Let_def tracked)
  moreover have "\<exists>s'. bt_get (sr_spans reg') 5 = Some s' \<and> span_wf s' \<and>
      (\<forall>r. bt_get (rs_workers s') r = (if r \<in> fst ` set ?pd then bt_get (rs_workers two_worker_span) r else None))"
  proof -
    have "bt_wf (sr_spans two_region_registry)" "\<forall>(t, s) \<in> set (sr_spans two_region_registry). span_wf s"
      "bt_get (sr_spans two_region_registry) 5 = Some two_worker_span"
      by (simp_all add: two_region_registry_def bt_wf_Cons wf)
    then show ?thesis using reconcile_exact [of two_region_registry ?pd res reg'] rec by blast
  qed
  then have "\<exists>s. bt_get (sr_spans reg') 5 = Some s \<and> bt_get (rs_workers s) 1 = None \<and> bt_get (rs_workers s) 2 \<noteq> None"
    by (force simp: workers)
  ultimately show ?thesis using rec by blast
qed

section \<open>Discovering tables\<close>

text \<open>The registry and the cache of table names agree when they have the same tables.  As for the registry's
  invariant, \<open>U\<close> holds the workers that were started without the index.\<close>

definition cache_agrees :: "(i64 \<times> u64) set \<Rightarrow> span_registry \<Rightarrow> bool" where
  "cache_agrees U reg \<longleftrightarrow> registry_inv U reg \<and> bt_wf (sr_table_cache reg)
     \<and> set (bt_keys (sr_table_cache reg)) = set (table_ids reg)"

lemma set_bt_keys: "k \<in> set (bt_keys m) \<longleftrightarrow> bt_get m k \<noteq> None"
  by (simp add: bt_keys_def bt_get_None_iff del: not_None_eq)

lemma make_span_wf [wf_intros]: "span_wf (make_span_for_table t)"
  by (simp add: make_span_for_table_def replication_span_new_wf)

lemma make_span_table_id [simp]: "rs_table_id (make_span_for_table t) = t"
  by (simp add: make_span_for_table_def replication_span_new_def)

lemma upsert_span_cache [simp]: "sr_table_cache (upsert_span s reg) = sr_table_cache reg"
  by (simp add: upsert_span_def)

lemma remove_span_cache [simp]: "sr_table_cache (snd (remove_span t reg)) = sr_table_cache reg"
  by (simp add: remove_span_def split: option.splits)

lemma upsert_span_get: "bt_get (sr_spans (upsert_span s reg)) t = (if t = rs_table_id s then Some s else bt_get (sr_spans reg) t)"
  by (simp add: upsert_span_def bt_get_insert)

lemma remove_span_get:
  "bt_wf (sr_spans reg) \<Longrightarrow> bt_get (sr_spans (snd (remove_span t reg))) t' =
    (if t' = t then None else bt_get (sr_spans reg) t')"
  by (auto simp: remove_span_def bt.get_rem split: option.splits)

lemma registry_inv_cache [simp]: "registry_inv U (reg\<lparr>sr_table_cache := c\<rparr>) = registry_inv U reg"
  by (simp add: registry_inv_def)

lemma registry_inv_ddl [simp]: "registry_inv U (reg\<lparr>sr_last_seen_ddl_job_id := j\<rparr>) = registry_inv U reg"
  by (simp add: registry_inv_def)

lemma upsert_span_keeps: "registry_inv U reg \<Longrightarrow> span_wf s \<Longrightarrow> registry_inv U (upsert_span s reg)"
  by (rule registry_inv_mono [OF upsert_span_inv]) auto

lemma remove_span_keeps: "registry_inv U reg \<Longrightarrow> registry_inv U (snd (remove_span t reg))"
  by (rule registry_inv_mono [OF remove_span_inv]) auto

lemma drop_tables_facts:
  assumes "registry_inv U reg" "bt_wf (sr_table_cache reg)"
  shows "registry_inv U (fold drop_table ts reg) \<and> bt_wf (sr_table_cache (fold drop_table ts reg))
    \<and> bt_get (sr_spans (fold drop_table ts reg)) t = (if t \<in> set ts then None else bt_get (sr_spans reg) t)
    \<and> bt_get (sr_table_cache (fold drop_table ts reg)) t = (if t \<in> set ts then None else bt_get (sr_table_cache reg) t)"
  using assms
proof (induction ts arbitrary: reg)
  case (Cons a ts)
  have inv: "registry_inv U (drop_table a reg)" "bt_wf (sr_table_cache (drop_table a reg))"
    using Cons.prems by (simp_all add: drop_table_def Let_def remove_span_keeps bt.wf_rem)
  show ?case
    using Cons.IH [OF inv] Cons.prems registry_invD(1) [OF Cons.prems(1)]
    by (auto simp: drop_table_def Let_def remove_span_get bt.get_rem)
qed simp

lemma create_tables_facts:
  assumes "registry_inv U reg" "bt_wf (sr_table_cache reg)"
  shows "registry_inv U (fold create_table rows reg) \<and> bt_wf (sr_table_cache (fold create_table rows reg))
    \<and> bt_get (sr_spans (fold create_table rows reg)) t =
        (if t \<in> fst ` set rows then Some (make_span_for_table t) else bt_get (sr_spans reg) t)
    \<and> (bt_get (sr_table_cache (fold create_table rows reg)) t \<noteq> None \<longleftrightarrow>
        t \<in> fst ` set rows \<or> bt_get (sr_table_cache reg) t \<noteq> None)"
  using assms
proof (induction rows arbitrary: reg)
  case (Cons a rows)
  obtain x n where a: "a = (x, n)" by (cases a)
  have inv: "registry_inv U (create_table a reg)" "bt_wf (sr_table_cache (create_table a reg))"
    using Cons.prems by (simp_all add: a create_table_def Let_def upsert_span_keeps make_span_wf bt.wf_ins)
  show ?case
    using Cons.IH [OF inv] Cons.prems
    by (auto simp: a create_table_def Let_def upsert_span_get bt_get_insert)
qed simp

lemma fold_tables_ddl [simp]:
  "sr_last_seen_ddl_job_id (fold drop_table ts reg) = sr_last_seen_ddl_job_id reg"
  "sr_last_seen_ddl_job_id (fold create_table rows reg) = sr_last_seen_ddl_job_id reg"
proof -
  have "sr_last_seen_ddl_job_id (drop_table t reg) = sr_last_seen_ddl_job_id reg"
    "sr_last_seen_ddl_job_id (create_table x reg) = sr_last_seen_ddl_job_id reg" for t x reg
    by (simp_all add: drop_table_def create_table_def remove_span_def upsert_span_def Let_def
        split: option.splits prod.splits)
  then show "sr_last_seen_ddl_job_id (fold drop_table ts reg) = sr_last_seen_ddl_job_id reg"
    "sr_last_seen_ddl_job_id (fold create_table rows reg) = sr_last_seen_ddl_job_id reg"
    by (induction ts arbitrary: reg; induction rows arbitrary: reg; simp)+
qed

lemma query_current_tables_lengths: "query_current_tables mysql addr = Inr (ids, names) \<Longrightarrow> length names = length ids"
  by (auto simp: query_current_tables_def Let_def split: cmd_result.splits if_splits)

lemma fst_filter_zip:
  "length names = length ids \<Longrightarrow> map fst (filter (\<lambda>(t, n). P t) (zip ids names)) = filter P ids"
  by (induction ids names rule: list_induct2') auto

text \<open>C16: table discovery follows the source.  When the cache agrees with the registry and the DDL history has
  moved on, a poll that can read the source's tables leaves exactly those tables in the registry and
  in the cache, keeps the spans of the tables it knew with their workers, gives each new table a fresh
  span and returns exactly these spans.\<close>

theorem discover_tracks_tables:
  assumes "cache_agrees U reg" "sr_last_seen_ddl_job_id reg \<noteq> 0"
    and "\<not> query_max_ddl_job_id mysql addr \<le>s sr_last_seen_ddl_job_id reg"
    and "query_current_tables mysql addr = Inr (ids, names)"
  shows "\<exists>new_spans reg'. discover_new_spans mysql addr reg = (new_spans, reg')
    \<and> new_spans = map make_span_for_table (filter (\<lambda>t. t \<notin> set (table_ids reg)) ids)
    \<and> cache_agrees U reg' \<and> set (table_ids reg') = set ids
    \<and> sr_last_seen_ddl_job_id reg' = query_max_ddl_job_id mysql addr
    \<and> (\<forall>t \<in> set ids. bt_get (sr_spans reg') t =
         (if t \<in> set (table_ids reg) then bt_get (sr_spans reg) t else Some (make_span_for_table t)))"
proof -
  define j where "j = query_max_ddl_job_id mysql addr"
  define r0 where "r0 = reg\<lparr>sr_last_seen_ddl_job_id := j\<rparr>"
  define cached where "cached = bt_keys (sr_table_cache r0)"
  define r1 where "r1 = fold drop_table (filter (\<lambda>t. t \<notin> set ids) cached) r0"
  define created where "created = filter (\<lambda>(t, n). t \<notin> set cached) (zip ids names)"
  define r2 where "r2 = fold create_table created r1"
  have agree: "registry_inv U r0" "bt_wf (sr_table_cache r0)" "set cached = set (table_ids reg)"
    using assms(1) by (simp_all add: r0_def cached_def cache_agrees_def)
  have disc: "discover_new_spans mysql addr reg = (map (\<lambda>(t, n). make_span_for_table t) created, r2)"
    using assms(2-4) by (simp add: discover_new_spans_def Let_def j_def r0_def cached_def r1_def created_def r2_def)
  have len: "length names = length ids" using assms(4) by (rule query_current_tables_lengths)
  have tabs: "map fst created = filter (\<lambda>t. t \<notin> set cached) ids"
    unfolding created_def by (rule fst_filter_zip [OF len])
  then have "fst ` set created = set (filter (\<lambda>t. t \<notin> set cached) ids)"
    by (metis set_map)
  note made = this
  note d = drop_tables_facts [OF agree(1,2), of "filter (\<lambda>t. t \<notin> set ids) cached", folded r1_def]
  have i1: "registry_inv U r1" "bt_wf (sr_table_cache r1)" using d by blast+
  note c = create_tables_facts [OF i1, of created, folded r2_def]
  have keys: "t \<in> set cached \<longleftrightarrow> bt_get (sr_spans r0) t \<noteq> None" "t \<in> set cached \<longleftrightarrow> bt_get (sr_table_cache r0) t \<noteq> None" for t
    using agree(3) by (simp_all add: cached_def set_bt_keys table_ids_def r0_def set_eq_iff del: not_None_eq)
  have spans: "bt_get (sr_spans r2) t = (if t \<in> set ids then
      (if t \<in> set cached then bt_get (sr_spans r0) t else Some (make_span_for_table t)) else None)" for t
    using c [of t] d [of t] keys(1) [of t] by (auto simp: made)
  have cache: "bt_get (sr_table_cache r2) t \<noteq> None \<longleftrightarrow> t \<in> set ids" for t
    using c [of t] d [of t] keys(2) [of t] by (auto simp: made)
  have ids2: "set (table_ids r2) = set ids"
  proof -
    have "bt_get (sr_spans r2) t \<noteq> None \<longleftrightarrow> t \<in> set ids" for t
      using spans [of t] keys(1) [of t] by (simp split: if_splits)
    then show ?thesis by (simp add: table_ids_def set_eq_iff set_bt_keys del: not_None_eq)
  qed
  have "cache_agrees U r2"
    using c ids2 cache by (simp add: cache_agrees_def set_eq_iff set_bt_keys del: not_None_eq)
  moreover have "map (\<lambda>(t, n). make_span_for_table t) created = map make_span_for_table (map fst created)"
    by (simp add: case_prod_unfold)
  moreover have "sr_last_seen_ddl_job_id r2 = j"
    by (simp add: r2_def r1_def r0_def)
  ultimately show ?thesis
    using disc ids2 spans tabs agree(3) by (simp add: j_def r0_def)
qed

text \<open>a DDL event can be missed.  When the DDL history has moved on but the tables cannot be read, the poll
  still records the new history position; the next poll at that position returns no span and changes
  nothing, whatever the source's tables are by then.\<close>

theorem discover_misses_ddl:
  assumes "sr_last_seen_ddl_job_id reg \<noteq> 0"
    and "\<not> query_max_ddl_job_id mysql addr \<le>s sr_last_seen_ddl_job_id reg" "query_max_ddl_job_id mysql addr \<noteq> 0"
    and "query_current_tables mysql addr = Inl e"
    and "query_max_ddl_job_id mysql' addr = query_max_ddl_job_id mysql addr"
    and "discover_new_spans mysql addr reg = (new_spans, reg')"
  shows "sr_spans reg' = sr_spans reg \<and> discover_new_spans mysql' addr reg' = ([], reg')"
  using assms by (auto simp: discover_new_spans_def Let_def)

definition table_source :: "string \<Rightarrow> bool \<Rightarrow> string \<Rightarrow> mysql_cmd" where
  "table_source job fine tables host port q =
    (if q = CURRENT_TABLES_QUERY then CmdOutput fine tables else CmdOutput True job)"

lemma table_source_example:
  "query_max_ddl_job_id (table_source ''9'' fine tables) ''db'' = 9"
  "query_current_tables (table_source job True (''7'' @ [CHR 0x09] @ ''users'' @ [CHR 0x0A])) ''db'' = Inr ([7], [''users''])"
  "query_current_tables (table_source job False tables) ''db'' = Inl ''mysql exit''"
proof -
  have "parse_i64 (trim ''9'') = Some 9" by code_simp
  then show "query_max_ddl_job_id (table_source ''9'' fine tables) ''db'' = 9"
    by (simp add: query_max_ddl_job_id_def table_source_def CURRENT_TABLES_QUERY_def)
  have "List.map_filter parse_table_line (str_lines (''7'' @ [CHR 0x09] @ ''users'' @ [CHR 0x0A])) = [(7, ''users'')]"
    by code_simp
  then show "query_current_tables (table_source job True (''7'' @ [CHR 0x09] @ ''users'' @ [CHR 0x0A])) ''db'' = Inr ([7], [''users''])"
    by (simp add: query_current_tables_def table_source_def)
  show "query_current_tables (table_source job False tables) ''db'' = Inl ''mysql exit''"
    by (simp add: query_current_tables_def table_source_def)
qed

theorem discover_tracks_tables_witness:
  "\<exists>reg'. discover_new_spans (table_source ''9'' True (''7'' @ [CHR 0x09] @ ''users'' @ [CHR 0x0A])) ''db''
      (span_registry_new\<lparr>sr_last_seen_ddl_job_id := 4\<rparr>) = ([make_span_for_table 7], reg') \<and> set (table_ids reg') = {7}"
proof -
  let ?reg = "span_registry_new\<lparr>sr_last_seen_ddl_job_id := 4\<rparr>"
  have "cache_agrees {} ?reg" "sr_last_seen_ddl_job_id ?reg = 4" "table_ids ?reg = []"
    by (simp_all add: cache_agrees_def span_registry_new_def registry_inv_def bt_keys_def table_ids_def)
  moreover have "\<not> (9 :: i64) \<le>s 4" by (simp add: word_sle_eq)
  ultimately show ?thesis
    using discover_tracks_tables [of "{}" ?reg "table_source ''9'' True (''7'' @ [CHR 0x09] @ ''users'' @ [CHR 0x0A])" "''db''" "[7]" "[''users'']"]
    by (simp add: table_source_example del: append_Cons append_Nil) blast
qed

theorem discover_misses_ddl_witness:
  "let (new_spans, reg') = discover_new_spans (table_source ''9'' False []) ''db''
      (span_registry_new\<lparr>sr_last_seen_ddl_job_id := 4\<rparr>)
   in discover_new_spans (table_source ''9'' True (''7'' @ [CHR 0x09] @ ''users'' @ [CHR 0x0A])) ''db'' reg' = ([], reg')"
proof -
  let ?reg = "span_registry_new\<lparr>sr_last_seen_ddl_job_id := 4\<rparr>"
  obtain new_spans reg' where d: "discover_new_spans (table_source ''9'' False []) ''db'' ?reg = (new_spans, reg')"
    by fastforce
  have "\<not> (9 :: i64) \<le>s 4" by (simp add: word_sle_eq)
  then show ?thesis
    using discover_misses_ddl [OF _ _ _ _ _ d, where mysql' = "table_source ''9'' True (''7'' @ [CHR 0x09] @ ''users'' @ [CHR 0x0A])"]
      d by (simp add: table_source_example del: append_Cons append_Nil)
qed

section \<open>The resolver only makes registry steps\<close>

lemma bt_insert_insert: "bt_insert k v (bt_insert k w m) = bt_insert k v m"
  by (induction k w m rule: bt_insert.induct) auto

lemma bt_insert_same: "bt_wf m \<Longrightarrow> bt_get m k = Some v \<Longrightarrow> bt_insert k v m = m"
  by (induction k v m rule: bt_insert.induct) (force simp: bt_wf_Cons bt_get_Some_in split: if_splits)+

lemma update_span_comp: "update_span f t (update_span g t reg) = update_span (f \<circ> g) t reg"
  by (auto simp: update_span_def bt_get_insert bt_insert_insert split: option.splits)

lemma update_span_fold: "fold (\<lambda>x. update_span (f x) t) xs reg = update_span (fold f xs) t reg"
  if "bt_wf (sr_spans reg)"
  using that
proof (induction xs arbitrary: reg)
  case Nil
  then show ?case by (auto simp: update_span_def bt_insert_same split: option.splits)
next
  case (Cons x xs)
  then show ?case by (simp add: update_span_comp comp_def)
qed

lemma map_update_span: 
  assumes "bt_wf ((t, s) # m)"
  shows "fold (update_span f) (map fst m) (reg\<lparr>sr_spans := (t, s) # n\<rparr>) =
     (fold (update_span f) (map fst m) (reg\<lparr>sr_spans := n\<rparr>))\<lparr>sr_spans := (t, s) # sr_spans (fold (update_span f) (map fst m) (reg\<lparr>sr_spans := n\<rparr>))\<rparr>"
  using assms
proof (induction m arbitrary: n)
  case (Cons x m)
  obtain t' s' where x: "x = (t', s')" by (cases x)
  have "t < t'" "bt_wf ((t, s) # m)" using Cons.prems by (auto simp: x bt_wf_Cons)
  then show ?case
    using Cons.IH
    by (auto simp: x update_span_def split: option.splits)
qed simp

lemma map_spans_fold:
  "bt_wf m \<Longrightarrow> fold (update_span f) (map fst m) (reg\<lparr>sr_spans := m\<rparr>) = reg\<lparr>sr_spans := map (\<lambda>(t, s). (t, f s)) m\<rparr>"
proof (induction m)
  case (Cons x m)
  obtain t s where x: "x = (t, s)" by (cases x)
  have "update_span f t (reg\<lparr>sr_spans := (t, s) # m\<rparr>) = reg\<lparr>sr_spans := (t, f s) # m\<rparr>"
    by (simp add: update_span_def)
  then show ?case
    using map_update_span [where t = t and s = "f s" and m = m and f = f and reg = reg and n = m] Cons by (auto simp: x bt_wf_Cons)
qed simp

text \<open>An operation on every span that is a sequence of the registry's operations on one span keeps the
  registry reachable.\<close>

lemma map_spans_reachable:
  assumes "registry_reachable U reg"
    and step: "\<And>U reg t. registry_reachable U reg \<Longrightarrow> \<exists>V. registry_reachable V (update_span f t reg)"
  shows "\<exists>V. registry_reachable V (reg\<lparr>sr_spans := map (\<lambda>(t, s). (t, f s)) (sr_spans reg)\<rparr>)"
proof -
  have "\<exists>V. registry_reachable V (fold (update_span f) ts reg')" if "\<exists>U. registry_reachable U reg'" for ts reg'
    using that by (induction ts arbitrary: reg') (use step in auto)
  then show ?thesis
    using map_spans_fold [OF registry_invD(1) [OF registry_reachable_inv [OF assms(1)]], of f reg] assms(1)
    by (metis (no_types, lifting) span_registry.surjective span_registry.update_convs(1))
qed

lemma fold_worker_reachable:
  assumes "registry_reachable U reg" and f: "f = start_worker \<or> f = stop_worker"
  shows "\<exists>V. registry_reachable V (update_span (fold f rids) t reg)"
proof -
  have "\<exists>V. registry_reachable V (fold (\<lambda>r. update_span (f r) t) rids reg')" if "\<exists>U. registry_reachable U reg'" for reg'
    using that by (induction rids arbitrary: reg') (use f in \<open>auto intro: RStart RStop\<close>)
  then show ?thesis
    using update_span_fold [OF registry_invD(1) [OF registry_reachable_inv [OF assms(1)]], of f t rids] assms(1)
    by metis
qed

lemma update_span_same:
  "bt_wf (sr_spans reg) \<Longrightarrow> (\<And>s. bt_get (sr_spans reg) t = Some s \<Longrightarrow> f s = g s) \<Longrightarrow>
    update_span f t reg = update_span g t reg"
  by (simp add: update_span_def split: option.splits)

lemma resolve_spans_reachable:
  assumes "registry_reachable U reg"
  shows "\<exists>V. registry_reachable V (resolve_spans_to_regions curl parse_json source_pd reg)"
  unfolding resolve_spans_to_regions_def
proof (rule map_spans_reachable [OF assms])
  fix U reg t
  let ?f = "resolve_one_span (query_regions_for_range curl parse_json source_pd)"
  assume r: "registry_reachable U reg"
  obtain rids where "\<And>s. bt_get (sr_spans reg) t = Some s \<Longrightarrow> ?f s = fold start_worker rids s"
  proof (cases "bt_get (sr_spans reg) t")
    case (Some s)
    have "\<exists>rids. ?f s = fold start_worker rids s"
      unfolding resolve_one_span_def using fold_simps(1) by (auto split: sum.splits) (metis fold_simps(1))+
    then show ?thesis using that Some by auto
  qed (use that in simp)
  then have "update_span ?f t reg = update_span (fold start_worker rids) t reg"
    by (rule update_span_same [OF registry_invD(1) [OF registry_reachable_inv [OF r]]])
  then show "\<exists>V. registry_reachable V (update_span ?f t reg)"
    using fold_worker_reachable [OF r] by auto
qed

lemma reconcile_reachable:
  assumes "registry_reachable U reg"
  shows "\<exists>V. registry_reachable V (snd (reconcile pd_regions reg))"
  unfolding reconcile_def Let_def snd_conv
  by (rule map_spans_reachable [OF assms]) (simp add: fold_worker_reachable)

lemma upsert_reachable:
  "registry_reachable U reg \<Longrightarrow> \<exists>V. registry_reachable V (upsert_span (make_span_for_table t) reg)"
  using RUpsert make_span_wf by blast

lemma cache_reachable: "registry_reachable U reg \<Longrightarrow> registry_reachable U (reg\<lparr>sr_table_cache := c\<rparr>)"
  using RPolled [of U reg "sr_last_seen_ddl_job_id reg" c] by simp

lemma ddl_reachable: "registry_reachable U reg \<Longrightarrow> registry_reachable U (reg\<lparr>sr_last_seen_ddl_job_id := j\<rparr>)"
  using RPolled [of U reg j "sr_table_cache reg"] by simp

lemma fold_reachable:
  assumes "\<And>x U reg. registry_reachable U reg \<Longrightarrow> \<exists>V. registry_reachable V (g x reg)" "\<exists>U. registry_reachable U reg"
  shows "\<exists>V. registry_reachable V (fold g xs reg)"
  using assms(2) by (induction xs arbitrary: reg) (use assms(1) in auto)

lemma table_steps_reachable:
  assumes "registry_reachable U reg"
  shows "\<exists>V. registry_reachable V (drop_table t reg)" "\<exists>V. registry_reachable V (create_table row reg)"
  using RRemove [OF assms] upsert_reachable [OF assms] cache_reachable
  by (auto simp: drop_table_def create_table_def Let_def split: prod.splits) (blast intro: cache_reachable)+

lemma discover_reachable:
  assumes "registry_reachable U reg"
  shows "\<exists>V. registry_reachable V (snd (discover_new_spans mysql addr reg))"
proof -
  note ddl = ddl_reachable [OF assms, of "query_max_ddl_job_id mysql addr"]
  have "\<exists>V. registry_reachable V (fold upsert_span (map make_span_for_table ids) (seed_cache rows reg))" for ids rows
    unfolding fold_map comp_def seed_cache_def
    by (rule fold_reachable [OF upsert_reachable]) (use cache_reachable [OF assms] in blast)+
  then have "\<exists>V. registry_reachable V ((fold upsert_span (map make_span_for_table ids) (seed_cache rows reg))
      \<lparr>sr_last_seen_ddl_job_id := j\<rparr>)" for ids rows j
    using ddl_reachable by meson
  moreover have "\<exists>V. registry_reachable V (fold create_table rows (fold drop_table ts
      (reg\<lparr>sr_last_seen_ddl_job_id := query_max_ddl_job_id mysql addr\<rparr>)))" for rows ts
    by (intro fold_reachable table_steps_reachable exI [of _ U] ddl)
  ultimately show ?thesis
    using assms ddl by (auto simp: discover_new_spans_def Let_def split: sum.splits prod.splits)
qed

end
