(* ===== verification/Checkpoint.thy ===== *)
theory Checkpoint
  imports SpanResolver
begin

text \<open>
  The consumer's progress on disk (\<open>stream-ingest/src/checkpoint.rs\<close>), its configuration (\<open>config.rs\<close>)
  and the propagation of the schema version (\<open>schema_sync.rs\<close>).

  The file system is a record of parameters on an abstract file \<open>'f\<close> holding a text \<open>'j\<close>; its law
  \<open>file_spec\<close> is that a file that was written successfully reads back.  The
  JSON printer and parser of frontiers are parameters, and so are the placement driver's
  \<open>update_service_safe_point\<close> and the shell commands.
\<close>

section \<open>Configuration\<close>

record stream_ingest_config =
  cf_enable :: bool
  cf_max_kv_buffer_size :: nat
  cf_max_range_key_buffer_size :: nat
  cf_min_flush_interval :: nat
  cf_source_address :: string
  cf_target_tidb_address :: string
  cf_checkpoint_interval :: nat
  cf_num_subscription_threads :: nat

definition config_default :: "nat \<Rightarrow> stream_ingest_config" where
  "config_default num_cpus =
    \<lparr>cf_enable = False, cf_max_kv_buffer_size = 64 * 1024 * 1024,
     cf_max_range_key_buffer_size = 32 * 1024 * 1024, cf_min_flush_interval = 200,
     cf_source_address = [], cf_target_tidb_address = [], cf_checkpoint_interval = 10000,
     cf_num_subscription_threads = num_cpus\<rparr>"

section \<open>Files\<close>

datatype 'j file_read = FileData 'j | FileNotFound | FileError

record ('f, 'j) file_ops =
  fo_write :: "'j \<Rightarrow> 'f \<Rightarrow> bool \<times> 'f"
  fo_read :: "'f \<Rightarrow> 'j file_read"
  fo_remove :: "'f \<Rightarrow> 'f"

definition file_spec :: "('f, 'j) file_ops \<Rightarrow> bool" where
  "file_spec fo \<longleftrightarrow> (\<forall>j f f'. fo_write fo j f = (True, f') \<longrightarrow> fo_read fo f' = FileData j)"

section \<open>The checkpoint manager\<close>

type_synonym frontier = "(u64, u64) btree"

definition global_min_ts :: "frontier \<Rightarrow> u64 option" where
  "global_min_ts frontier = (if frontier = [] then None else Some (Min (set (bt_values frontier))))"

record checkpoint_manager =
  cm_task_id :: string
  cm_last_recorded_ts :: "u64 option"

definition checkpoint_manager_new :: "string \<Rightarrow> checkpoint_manager" where
  "checkpoint_manager_new task_id = \<lparr>cm_task_id = task_id, cm_last_recorded_ts = None\<rparr>"

definition checkpoint_label :: "checkpoint_manager \<Rightarrow> string" where
  "checkpoint_label m = ''pcr-'' @ cm_task_id m"

text \<open>The state of the environment of the manager: the checkpoint file and the placement driver.\<close>

record ('f, 'j, 'p) checkpoint_env =
  ce_files :: "('f, 'j) file_ops"
  ce_to_json :: "frontier \<Rightarrow> 'j option"
  ce_from_json :: "'j \<Rightarrow> frontier option"
  ce_update_safe_point :: "string \<Rightarrow> u64 \<Rightarrow> nat \<Rightarrow> 'p \<Rightarrow> (string + unit) \<times> 'p"

definition record_checkpoint ::
  "('f, 'j, 'p) checkpoint_env \<Rightarrow> frontier \<Rightarrow> checkpoint_manager \<times> 'f \<times> 'p
     \<Rightarrow> (si_error + unit) \<times> checkpoint_manager \<times> 'f \<times> 'p" where
  "record_checkpoint env frontier st =
    (let (m, f, p) = st in
     if frontier = [] then (Inr (), st)
     else
       let min_ts = (case global_min_ts frontier of None \<Rightarrow> 0 | Some ts \<Rightarrow> ts) in
       if cm_last_recorded_ts m = Some min_ts then (Inr (), st)
       else
         let m = m\<lparr>cm_last_recorded_ts := Some min_ts\<rparr>;
             f = (case ce_to_json env frontier of
                    Some j \<Rightarrow> snd (fo_write (ce_files env) j f)
                  | None \<Rightarrow> f);
             (r, p) = ce_update_safe_point env (checkpoint_label m) min_ts 3600 p
         in (map_err (\<lambda>e. CheckpointError e) r, m, f, p))"

definition load_checkpoint :: "('f, 'j, 'p) checkpoint_env \<Rightarrow> 'f \<Rightarrow> si_error + frontier" where
  "load_checkpoint env f =
    (case fo_read (ce_files env) f of
       FileData j \<Rightarrow>
         (case ce_from_json env j of
            None \<Rightarrow> Inl (CheckpointError ''failed to parse checkpoint'')
          | Some frontier \<Rightarrow> Inr frontier)
     | FileNotFound \<Rightarrow> Inr []
     | FileError \<Rightarrow> Inr [])"

definition clear_checkpoint ::
  "('f, 'j, 'p) checkpoint_env \<Rightarrow> checkpoint_manager \<Rightarrow> 'f \<times> 'p \<Rightarrow> (si_error + unit) \<times> 'f \<times> 'p" where
  "clear_checkpoint env m st =
    (let (f, p) = st;
         (r, p) = ce_update_safe_point env (checkpoint_label m) 0 0 p in
     case r of
       Inl e \<Rightarrow> (Inl (CheckpointError e), f, p)
     | Inr _ \<Rightarrow> (Inr (), fo_remove (ce_files env) f, p))"

section \<open>The schema version\<close>

text \<open>\<open>str::parse\<close> of a \<open>u64\<close> and \<open>u64::from_str_radix\<close>: an optional plus sign, at least one digit, in range.\<close>

definition parse_radix :: "nat \<Rightarrow> string \<Rightarrow> u64 option" where
  "parse_radix radix s =
    (let ds = (case s of c # cs \<Rightarrow> if c = CHR ''+'' then cs else s | [] \<Rightarrow> []);
         vs = map hex_value ds;
         v = foldl (\<lambda>n d. n * radix + the d) 0 vs in
     if ds \<noteq> [] \<and> list_all (\<lambda>d. d \<noteq> None \<and> the d < radix) vs \<and> v < 2 ^ 64 then Some (of_nat v) else None)"

definition parse_u64 :: "string \<Rightarrow> u64 option" where
  "parse_u64 s = parse_radix 10 s"

fun hex_digits :: "nat \<Rightarrow> nat \<Rightarrow> string" where
  "hex_digits 0 n = []"
| "hex_digits (Suc k) n = hex_digits k (n div 16) @ [hex_digit (n mod 16)]"

definition format_016x :: "u64 \<Rightarrow> string" where
  "format_016x v = hex_digits 16 (unat v)"

definition SCHEMA_KEY :: string where
  "SCHEMA_KEY = ''/tidb/ddl/global_schema_version''"

definition dquote :: string where
  "dquote = [CHR 0x22]"

definition put_body :: "u64 \<Rightarrow> string" where
  "put_body version =
    ''{'' @ dquote @ ''key'' @ dquote @ '':'' @ dquote @ SCHEMA_KEY @ dquote @ '','' @ dquote @ ''value'' @ dquote
      @ '':'' @ dquote @ format_016x version @ dquote @ ''}''"

text \<open>The requests posted to the target, URL and body.\<close>

type_synonym posts = "(string \<times> string) list"

definition put_url :: "string \<Rightarrow> string" where
  "put_url pd = ''http://'' @ pd @ ''/pd/api/v1/kv/put''"

definition read_target_version ::
  "(string \<Rightarrow> cmd_result) \<Rightarrow> (string \<Rightarrow> json option) \<Rightarrow> string \<Rightarrow> u64" where
  "read_target_version curl parse_json target_pd =
    (case curl (''http://'' @ target_pd @ ''/pd/api/v1/kv/key?key='' @ SCHEMA_KEY) of
       CmdError \<Rightarrow> 0
     | CmdOutput _ body \<Rightarrow>
         (case Option.bind (Option.bind (Option.bind (parse_json body) (json_get ''value'')) json_str) (parse_radix 16) of
            None \<Rightarrow> 0 | Some v \<Rightarrow> v))"

definition bump_target_schema_version ::
  "(string \<Rightarrow> cmd_result) \<Rightarrow> (string \<Rightarrow> json option) \<Rightarrow> string \<Rightarrow> posts \<Rightarrow> posts" where
  "bump_target_schema_version curl parse_json target_pd posts =
    (let current = read_target_version curl parse_json target_pd;
         new_version = (if current = - 1 then current else current + 1)
     in posts @ [(put_url target_pd, put_body new_version)])"

record schema_sync =
  ss_target_pd :: string
  ss_source_pd :: string
  ss_last_synced_version :: u64

definition schema_sync_new :: "string \<Rightarrow> string \<Rightarrow> schema_sync" where
  "schema_sync_new target_pd source_pd =
    \<lparr>ss_target_pd = target_pd, ss_source_pd = source_pd, ss_last_synced_version = 0\<rparr>"

definition read_pd_schema_version :: "(string \<Rightarrow> cmd_result) \<Rightarrow> string \<Rightarrow> u64" where
  "read_pd_schema_version script pd_addr =
    (case script pd_addr of
       CmdOutput _ out \<Rightarrow> (case parse_u64 (trim out) of None \<Rightarrow> 0 | Some v \<Rightarrow> v)
     | CmdError \<Rightarrow> 0)"

definition bump_schema :: "(string \<Rightarrow> cmd_result) \<Rightarrow> schema_sync \<times> posts \<Rightarrow> schema_sync \<times> posts" where
  "bump_schema script st =
    (let (s, posts) = st;
         src_version = read_pd_schema_version script (ss_source_pd s) in
     if src_version = 0 \<or> src_version \<le> ss_last_synced_version s then (s, posts)
     else (s\<lparr>ss_last_synced_version := src_version\<rparr>, posts @ [(put_url (ss_target_pd s), put_body src_version)]))"

definition mysql_count :: "mysql_cmd \<Rightarrow> string \<Rightarrow> string \<Rightarrow> u64" where
  "mysql_count mysql port q =
    (case mysql ''127.0.0.1'' port q of
       CmdOutput _ out \<Rightarrow> (case parse_u64 (trim out) of None \<Rightarrow> 0 | Some v \<Rightarrow> v)
     | CmdError \<Rightarrow> 0)"

section \<open>Checkpoints are durable\<close>

lemma global_min_ts_None [simp]: "global_min_ts f = None \<longleftrightarrow> f = []"
  by (simp add: global_min_ts_def)

text \<open>A run of the manager over a sequence of frontiers, together with whether the last write of the file that
  was tried succeeded.  A write that fails may leave anything in the file.\<close>

definition write_succeeds :: "('f, 'j, 'p) checkpoint_env \<Rightarrow> frontier \<Rightarrow> 'f \<Rightarrow> bool" where
  "write_succeeds env frontier f \<longleftrightarrow>
    (case ce_to_json env frontier of None \<Rightarrow> False | Some j \<Rightarrow> fst (fo_write (ce_files env) j f))"

definition record_noting ::
  "('f, 'j, 'p) checkpoint_env \<Rightarrow> frontier \<Rightarrow> (checkpoint_manager \<times> 'f \<times> 'p) \<times> bool
     \<Rightarrow> (checkpoint_manager \<times> 'f \<times> 'p) \<times> bool" where
  "record_noting env frontier stw =
    (let (st, wrote) = stw; (m, f, p) = st in
     (snd (record_checkpoint env frontier st),
      if frontier = [] \<or> cm_last_recorded_ts m = global_min_ts frontier then wrote
      else write_succeeds env frontier f))"

definition record_all ::
  "('f, 'j, 'p) checkpoint_env \<Rightarrow> frontier list \<Rightarrow> (checkpoint_manager \<times> 'f \<times> 'p) \<times> bool
     \<Rightarrow> (checkpoint_manager \<times> 'f \<times> 'p) \<times> bool" where
  "record_all env = fold (record_noting env)"

definition checkpoint_saved :: "('f, 'j, 'p) checkpoint_env \<Rightarrow> (checkpoint_manager \<times> 'f \<times> 'p) \<times> bool \<Rightarrow> bool" where
  "checkpoint_saved env st \<longleftrightarrow>
     (case st of ((m, f, p), wrote) \<Rightarrow> \<forall>ts. wrote \<and> cm_last_recorded_ts m = Some ts \<longrightarrow>
        (\<exists>frontier. load_checkpoint env f = Inr frontier \<and> global_min_ts frontier = Some ts))"

text \<open>What the environment promises: a text that was written successfully reads back and a printed frontier
  parses back.\<close>

definition readable_env :: "('f, 'j, 'p) checkpoint_env \<Rightarrow> bool" where
  "readable_env env \<longleftrightarrow> file_spec (ce_files env)
     \<and> (\<forall>frontier j. bt_wf frontier \<longrightarrow> ce_to_json env frontier = Some j \<longrightarrow> ce_from_json env j = Some frontier)"

text \<open>An environment whose writes always succeed.\<close>

definition durable_env :: "('f, 'j, 'p) checkpoint_env \<Rightarrow> bool" where
  "durable_env env \<longleftrightarrow> file_spec (ce_files env) \<and> (\<forall>j f. fst (fo_write (ce_files env) j f))
     \<and> (\<forall>frontier. bt_wf frontier \<longrightarrow> (\<exists>j. ce_to_json env frontier = Some j \<and> ce_from_json env j = Some frontier))"

lemma record_noting_saved:
  assumes env: "readable_env env" and saved: "checkpoint_saved env st" and wf: "bt_wf frontier"
  shows "checkpoint_saved env (record_noting env frontier st)
    \<and> cm_last_recorded_ts (fst (fst (record_noting env frontier st))) =
      (if frontier = [] then cm_last_recorded_ts (fst (fst st)) else global_min_ts frontier)"
proof -
  obtain m f p wrote where st: "st = ((m, f, p), wrote)" by (cases st) auto
  show ?thesis
  proof (cases "frontier = [] \<or> cm_last_recorded_ts m = global_min_ts frontier")
    case True
    then have "record_checkpoint env frontier (m, f, p) = (Inr (), m, f, p)"
      by (cases "global_min_ts frontier") (auto simp: record_checkpoint_def)
    then show ?thesis using True saved by (auto simp: st record_noting_def)
  next
    case False
    then obtain ts where ts: "global_min_ts frontier = Some ts" by (cases "global_min_ts frontier") auto
    have rec: "record_noting env frontier st = ((m\<lparr>cm_last_recorded_ts := Some ts\<rparr>,
        case ce_to_json env frontier of Some j \<Rightarrow> snd (fo_write (ce_files env) j f) | None \<Rightarrow> f,
        snd (ce_update_safe_point env (checkpoint_label m) ts 3600 p)), write_succeeds env frontier f)"
      using False ts by (auto simp: record_noting_def record_checkpoint_def st checkpoint_label_def Let_def split: prod.splits)
    have "load_checkpoint env (snd (fo_write (ce_files env) j f)) = Inr frontier"
      if j: "ce_to_json env frontier = Some j" "fst (fo_write (ce_files env) j f)" for j
    proof -
      obtain f' where f': "fo_write (ce_files env) j f = (True, f')"
        using j(2) by (cases "fo_write (ce_files env) j f") simp
      then have "fo_read (ce_files env) f' = FileData j" "ce_from_json env j = Some frontier"
        using env wf j(1) by (simp_all add: readable_env_def file_spec_def)
      then show ?thesis by (simp add: f' load_checkpoint_def)
    qed
    then show ?thesis
      using False ts by (auto simp: rec checkpoint_saved_def write_succeeds_def split: option.splits)
  qed
qed

lemma record_all_saved:
  assumes env: "readable_env env"
  shows "checkpoint_saved env st \<Longrightarrow> \<forall>f \<in> set frontiers. bt_wf f \<Longrightarrow>
    checkpoint_saved env (record_all env frontiers st)
    \<and> cm_last_recorded_ts (fst (fst (record_all env frontiers st))) =
      (let fs = filter (\<lambda>f. f \<noteq> []) frontiers
       in if fs = [] then cm_last_recorded_ts (fst (fst st)) else global_min_ts (last fs))"
proof (induction frontiers arbitrary: st)
  case (Cons frontier frontiers)
  have wf: "bt_wf frontier" "\<forall>f \<in> set frontiers. bt_wf f" using Cons.prems(2) by auto
  note one = record_noting_saved [OF env Cons.prems(1) wf(1)]
  have step: "record_all env (frontier # frontiers) st = record_all env frontiers (record_noting env frontier st)"
    by (simp add: record_all_def)
  show ?case
    using Cons.IH [OF one [THEN conjunct1] wf(2)] one by (simp add: step Let_def)
qed (simp add: record_all_def)

text \<open>C8: a checkpoint can be resumed from.  After any sequence of frontiers was recorded, some of them empty,
  whatever the placement driver answered and whichever earlier writes of the file failed: when the last
  write that was tried succeeded, loading the checkpoint gives a frontier with the same smallest
  timestamp as the last frontier that was not empty.\<close>

theorem checkpoint_resumes:
  assumes "readable_env env" "\<forall>frontier \<in> set frontiers. bt_wf frontier"
    and "filter (\<lambda>frontier. frontier \<noteq> []) frontiers \<noteq> []"
    and "record_all env frontiers ((checkpoint_manager_new task_id, f, p), True) = ((m', f', p'), True)"
  shows "\<exists>loaded. load_checkpoint env f' = Inr loaded
    \<and> global_min_ts loaded = global_min_ts (last (filter (\<lambda>frontier. frontier \<noteq> []) frontiers))"
proof -
  let ?last = "last (filter (\<lambda>frontier. frontier \<noteq> []) frontiers)"
  have "checkpoint_saved env ((checkpoint_manager_new task_id, f, p), True)"
    by (simp add: checkpoint_saved_def checkpoint_manager_new_def)
  from record_all_saved [OF assms(1) this assms(2)]
  have saved: "checkpoint_saved env ((m', f', p'), True)" and ts: "cm_last_recorded_ts m' = global_min_ts ?last"
    using assms(3) by (simp_all add: assms(4) Let_def)
  have "?last \<noteq> []" using last_in_set [OF assms(3)] by auto
  then obtain t where "global_min_ts ?last = Some t" by (cases "global_min_ts ?last") auto
  with saved ts show ?thesis by (auto simp: checkpoint_saved_def)
qed

text \<open>A file whose first write fails and loses its content.\<close>

definition flaky_env :: "(bool \<times> frontier option, frontier, unit) checkpoint_env" where
  "flaky_env =
    \<lparr>ce_files = \<lparr>fo_write = \<lambda>j (up, x). (up, True, if up then Some j else None),
       fo_read = \<lambda>(up, x). case x of None \<Rightarrow> FileNotFound | Some j \<Rightarrow> FileData j, fo_remove = \<lambda>(up, x). (up, None)\<rparr>,
     ce_to_json = Some, ce_from_json = Some, ce_update_safe_point = \<lambda>l ts ttl p. (Inl ''unreachable'', p)\<rparr>"

theorem checkpoint_resumes_witness:
  "\<exists>loaded. load_checkpoint flaky_env
      (fst (snd (fst (record_all flaky_env [[(1, 5), (2, 7)], [], [(1, 9), (2, 8)]]
        ((checkpoint_manager_new ''t'', (False, None), ()), True))))) = Inr loaded \<and> global_min_ts loaded = Some 8"
proof -
  let ?fs = "[[(1, 5), (2, 7)], [], [(1, 9), (2, 8)]] :: frontier list"
  let ?st = "record_all flaky_env ?fs ((checkpoint_manager_new ''t'', (False, None), ()), True)"
  have env: "readable_env flaky_env" by (simp add: readable_env_def flaky_env_def file_spec_def)
  have wf: "\<forall>frontier \<in> set ?fs. bt_wf frontier" by (simp add: bt_wf_Cons)
  have "snd ?st" by (simp add: record_all_def record_noting_def record_checkpoint_def flaky_env_def
      write_succeeds_def global_min_ts_def bt_values_def checkpoint_manager_new_def Let_def)
  then obtain m f p where st: "?st = ((m, f, p), True)" by (cases ?st) (auto split: prod.splits)
  show ?thesis
    using checkpoint_resumes [OF env wf _ st] by (simp add: st global_min_ts_def bt_values_def)
qed

definition memory_env :: "bool \<Rightarrow> (frontier option, frontier, unit) checkpoint_env" where
  "memory_env works =
    \<lparr>ce_files = \<lparr>fo_write = \<lambda>j f. (works, if works then Some j else f),
       fo_read = \<lambda>f. case f of None \<Rightarrow> FileNotFound | Some j \<Rightarrow> FileData j, fo_remove = \<lambda>f. None\<rparr>,
     ce_to_json = Some, ce_from_json = Some, ce_update_safe_point = \<lambda>l ts ttl p. (Inl ''unreachable'', p)\<rparr>"

text \<open>a failed write is not retried.  The manager notes the smallest timestamp before it writes, so when the
  write fails the next frontier with the same smallest timestamp is skipped, and the file keeps the old
  checkpoint although the call reports success.\<close>

theorem failed_checkpoint_not_retried:
  assumes "frontier \<noteq> []" "ce_to_json env frontier = Some j" "fo_write (ce_files env) j f = (False, f)"
    and "record_checkpoint env frontier (m, f, p) = (r, m', f', p')"
    and "global_min_ts frontier' = global_min_ts frontier"
  shows "f' = f \<and> record_checkpoint env' frontier' (m', f', p') = (Inr (), m', f', p')"
proof -
  obtain ts where ts: "global_min_ts frontier = Some ts" using assms(1) by (cases "global_min_ts frontier") auto
  have "f' = f \<and> cm_last_recorded_ts m' = Some ts"
    using assms(1-4) ts by (auto simp: record_checkpoint_def Let_def split: if_splits prod.splits)
  then show ?thesis using assms(5) ts by (simp add: record_checkpoint_def)
qed

theorem failed_checkpoint_not_retried_witness:
  "let (r, st) = record_checkpoint (memory_env False) [(1, 5)] (checkpoint_manager_new ''t'', None, ())
   in fst (snd st) = None \<and> record_checkpoint (memory_env True) [(1, 5)] st = (Inr (), st)"
proof -
  obtain r m f p where st: "record_checkpoint (memory_env False) [(1, 5)] (checkpoint_manager_new ''t'', None, ()) = (r, m, f, p)"
    by (rule prod_cases4)
  have "ce_to_json (memory_env False) [(1, 5)] = Some [(1, 5)]"
    "fo_write (ce_files (memory_env False)) [(1, 5)] None = (False, None)"
    by (simp_all add: memory_env_def)
  then show ?thesis
    using failed_checkpoint_not_retried [OF _ _ _ st, where env' = "memory_env True" and frontier' = "[(1, 5)]"]
    by (auto simp: st)
qed

section \<open>Schema versions only grow\<close>

fun bump_all :: "(string \<Rightarrow> cmd_result) list \<Rightarrow> schema_sync \<times> posts \<Rightarrow> schema_sync \<times> posts" where
  "bump_all [] st = st"
| "bump_all (script # scripts) st = bump_all scripts (bump_schema script st)"

text \<open>The schema versions posted to the target grow strictly, whatever the source answers over time, and the
  last one is the version the synchroniser remembers.\<close>

lemma schema_versions_grow:
  "\<exists>vs. snd (bump_all scripts (s, posts)) = posts @ map (\<lambda>v. (put_url (ss_target_pd s), put_body v)) vs
    \<and> sorted_wrt (<) (ss_last_synced_version s # vs)
    \<and> ss_last_synced_version (fst (bump_all scripts (s, posts))) = last (ss_last_synced_version s # vs)"
proof (induction scripts arbitrary: s posts)
  case (Cons script scripts)
  define v where "v = read_pd_schema_version script (ss_source_pd s)"
  show ?case
  proof (cases "v = 0 \<or> v \<le> ss_last_synced_version s")
    case True
    then have "bump_schema script (s, posts) = (s, posts)" by (auto simp: bump_schema_def v_def Let_def)
    then show ?thesis using Cons.IH [of s posts] by simp
  next
    case False
    then have b: "bump_schema script (s, posts) =
        (s\<lparr>ss_last_synced_version := v\<rparr>, posts @ [(put_url (ss_target_pd s), put_body v)])"
      by (simp add: bump_schema_def v_def Let_def)
    obtain vs where vs: "snd (bump_all scripts (bump_schema script (s, posts))) =
        posts @ map (\<lambda>v. (put_url (ss_target_pd s), put_body v)) (v # vs)" "sorted_wrt (<) (v # vs)"
      "ss_last_synced_version (fst (bump_all scripts (bump_schema script (s, posts)))) = last (v # vs)"
      using Cons.IH [of "s\<lparr>ss_last_synced_version := v\<rparr>" "posts @ [(put_url (ss_target_pd s), put_body v)]"]
      by (auto simp: b)
    show ?thesis using vs False by (intro exI [of _ "v # vs"]) (auto intro: less_trans)
  qed
qed (auto intro: exI [of _ "[]"])

end
