(* ===== verification/Subscriber.thy ===== *)
theory Subscriber
  imports Checkpoint
begin

text \<open>
  The consumer's subscriptions (\<open>stream-ingest/src/subscriber.rs\<close>): the streams it opens, how a stream
  forwards events into the merged channel, the retry policy and the resolution of a span again after a
  region changed.

  A gRPC call is a parameter: what the \<open>n\<close>-th call of a stream answers, either a failure or the items
  the source sends until the stream ends.  The merged channel is the list of messages sent so far
  with the number of messages after which the receiver is dropped.  Background tasks are spawned as
  values; waiting is recorded as the seconds slept.
\<close>

section \<open>State\<close>

record partition_subscription =
  ps_region_id :: u64
  ps_start_ts :: u64
  ps_source_addr :: string
  ps_start_key :: bytes
  ps_end_key :: bytes

datatype stream_error_kind = Disconnect | EpochChanged | Fatal

datatype subscription_state = Connected | Reconnecting nat | SubFailed

record 'e merged_channel =
  mc_sent :: "('e \<times> u64) list"
  mc_closes_at :: "nat option"

definition channel_closed :: "'e merged_channel \<Rightarrow> bool" where
  "channel_closed c = (case mc_closes_at c of None \<Rightarrow> False | Some n \<Rightarrow> length (mc_sent c) \<ge> n)"

section \<open>Classifying errors\<close>

definition to_lower :: "char \<Rightarrow> char" where
  "to_lower c = (let n = of_char c :: nat in if 65 \<le> n \<and> n \<le> 90 then char_of (n + 32) else c)"

fun str_contains :: "string \<Rightarrow> string \<Rightarrow> bool" where
  "str_contains needle [] = (needle = [])"
| "str_contains needle (c # cs) = (take (length needle) (c # cs) = needle \<or> str_contains needle cs)"

definition escape_char :: "char \<Rightarrow> string" where
  "escape_char c =
    (let n = of_char c :: nat in
     if n = 34 \<or> n = 92 then [CHR 0x5C, c]
     else if n = 9 then [CHR 0x5C, CHR ''t'']
     else if n = 10 then [CHR 0x5C, CHR ''n'']
     else if n = 13 then [CHR 0x5C, CHR ''r'']
     else [c])"

text \<open>The debug text of an error; the source only classifies subscription errors, the text of the other
  variants is a parameter.\<close>

definition err_debug :: "(si_error \<Rightarrow> string) \<Rightarrow> si_error \<Rightarrow> string" where
  "err_debug other e =
    (case e of
       SubscriptionError s \<Rightarrow> ''SubscriptionError('' @ dquote @ concat (map escape_char s) @ dquote @ '')''
     | _ \<Rightarrow> other e)"

definition EPOCH_WORDS :: "string list" where
  "EPOCH_WORDS = [''epoch'', ''region not found'', ''stale command'', ''stale_epoch'']"

definition DISCONNECT_WORDS :: "string list" where
  "DISCONNECT_WORDS =
    [''rpc failure'', ''unavailable'', ''connection'', ''timeout'', ''transport'', ''disconnect'', ''broken pipe'']"

definition classify_error :: "(si_error \<Rightarrow> string) \<Rightarrow> si_error \<Rightarrow> stream_error_kind" where
  "classify_error other e =
    (let msg_lower = map to_lower (err_debug other e) in
     if \<exists>w \<in> set EPOCH_WORDS. str_contains w msg_lower then EpochChanged
     else if \<exists>w \<in> set DISCONNECT_WORDS. str_contains w msg_lower then Disconnect
     else Fatal)"

section \<open>One stream\<close>

text \<open>The items a stream delivers before it ends: an event, or the error that ends it.\<close>

fun forward_items ::
  "u64 \<Rightarrow> (string + 'e) list \<Rightarrow> 'e merged_channel \<Rightarrow> (si_error + unit) \<times> 'e merged_channel" where
  "forward_items region_id [] c = (Inr (), c)"
| "forward_items region_id (Inl e # items) c = (Inl (SubscriptionError (''Stream error: '' @ e)), c)"
| "forward_items region_id (Inr ev # items) c =
    (if channel_closed c then (Inr (), c)
     else forward_items region_id items (c\<lparr>mc_sent := mc_sent c @ [(ev, region_id)]\<rparr>))"

type_synonym 'e grpc_reply = "string + (string + 'e) list"

definition connect_and_stream ::
  "'e grpc_reply \<Rightarrow> u64 \<Rightarrow> 'e merged_channel \<Rightarrow> (si_error + unit) \<times> 'e merged_channel" where
  "connect_and_stream reply region_id c =
    (case reply of
       Inl e \<Rightarrow> (Inl (SubscriptionError (''Subscribe RPC failed: '' @ e)), c)
     | Inr items \<Rightarrow> forward_items region_id items c)"

text \<open>A replacement stream: at most three retries of a disconnect.  The result is the seconds slept.\<close>

function run_single_stream ::
  "(si_error \<Rightarrow> string) \<Rightarrow> (nat \<Rightarrow> 'e grpc_reply) \<Rightarrow> u64 \<Rightarrow> nat \<Rightarrow> 'e merged_channel
     \<Rightarrow> nat list \<times> 'e merged_channel" where
  "run_single_stream other rpc region_id retry c =
    (if channel_closed c then ([], c)
     else
       (case connect_and_stream (rpc retry) region_id c of
          (Inr _, c) \<Rightarrow> ([], c)
        | (Inl e, c) \<Rightarrow>
            if classify_error other e \<noteq> Disconnect \<or> retry \<ge> 3 then ([], c)
            else
              let (slept, c) = run_single_stream other rpc region_id (Suc retry) c
              in (2 ^ Suc retry # slept, c)))"
  by pat_completeness auto
termination by (relation "measure (\<lambda>(other, rpc, region_id, retry, c). 3 - retry)") auto

declare run_single_stream.simps [simp del]

text \<open>The stream of a span is opened once; its error is dropped.\<close>

definition run_span_stream :: "'e grpc_reply \<Rightarrow> 'e merged_channel \<Rightarrow> 'e merged_channel" where
  "run_span_stream reply c = snd (connect_and_stream reply 0 c)"

section \<open>The regions of a span, again\<close>

definition task_hex_decode :: "string \<Rightarrow> (unit + bytes)" where
  "task_hex_decode s =
    (if length s mod 2 \<noteq> 0 then Inl ()
     else (case hex_decode_pairs s of Inl _ \<Rightarrow> Inl () | Inr d \<Rightarrow> Inr d))"

definition decode_key :: "string \<Rightarrow> json \<Rightarrow> bytes" where
  "decode_key field obj =
    (case Option.bind (json_get field obj) json_str of
       None \<Rightarrow> []
     | Some s \<Rightarrow> (case task_hex_decode s of Inr d \<Rightarrow> d | Inl _ \<Rightarrow> []))"

definition resolve_overlaps :: "bytes \<Rightarrow> bytes \<Rightarrow> bytes \<Rightarrow> bytes \<Rightarrow> bool" where
  "resolve_overlaps start_key end_key r_start r_end =
    (if start_key = [] \<and> end_key = [] then True
     else if r_start = [] \<and> r_end = [] then True
     else
       let before_end = (r_end = [] \<or> r_start < end_key);
           after_start = (start_key = [] \<or> start_key < r_end)
       in before_end \<and> after_start)"

definition resolve_regions :: "bytes \<Rightarrow> bytes \<Rightarrow> json list \<Rightarrow> (u64 \<times> bytes \<times> bytes) list" where
  "resolve_regions start_key end_key regions =
    filter (\<lambda>(rid, r_start, r_end). rid \<noteq> 0 \<and> resolve_overlaps start_key end_key r_start r_end)
      (map (\<lambda>r. (case Option.bind (json_get ''id'' r) json_u64 of None \<Rightarrow> 0 | Some i \<Rightarrow> i,
                decode_key ''start_key'' r, decode_key ''end_key'' r)) regions)"

definition resolve_span ::
  "(string \<Rightarrow> cmd_result) \<Rightarrow> (string \<Rightarrow> json option) \<Rightarrow> bool \<Rightarrow> string \<Rightarrow> bytes \<Rightarrow> bytes
     \<Rightarrow> si_error + (u64 \<times> bytes \<times> bytes) list" where
  "resolve_span curl parse_json joined source_pd start_key end_key =
    (if \<not> joined then Inl (SubscriptionError ''spawn_blocking failed'')
     else
       (case curl (''http://'' @ source_pd @ ''/pd/api/v1/regions'') of
          CmdError \<Rightarrow> Inl (SubscriptionError ''curl failed'')
        | CmdOutput success body \<Rightarrow>
            if \<not> success then Inl (SubscriptionError ''PD API returned non-zero'')
            else (case parse_json body of
                    None \<Rightarrow> Inl (SubscriptionError ''PD JSON parse error'')
                  | Some parsed \<Rightarrow>
                      (case Option.bind (json_get ''regions'' parsed) json_array of
                         None \<Rightarrow> Inl (SubscriptionError ''PD response missing regions'')
                       | Some regions \<Rightarrow> Inr (resolve_regions start_key end_key regions)))))"

section \<open>The stream of a partition\<close>

text \<open>A stream ends with the state it reports, the replacement subscriptions it spawns and the seconds it
  slept.  The replacements carry the start timestamp of the stream they replace.\<close>

record 'e stream_end =
  se_state :: subscription_state
  se_replacements :: "partition_subscription list"
  se_slept :: "nat list"
  se_channel :: "'e merged_channel"

definition replacements ::
  "u64 \<Rightarrow> u64 \<Rightarrow> (u64 \<times> bytes \<times> bytes) list \<Rightarrow> partition_subscription list" where
  "replacements current_region_id start_ts new_regions =
    map (\<lambda>(rid, s, e). \<lparr>ps_region_id = rid, ps_start_ts = start_ts, ps_source_addr = [], ps_start_key = s, ps_end_key = e\<rparr>)
      (filter (\<lambda>(rid, s, e). rid \<noteq> current_region_id) new_regions)"

function run_stream ::
  "(si_error \<Rightarrow> string) \<Rightarrow> (nat \<Rightarrow> 'e grpc_reply) \<Rightarrow> (bytes \<Rightarrow> bytes \<Rightarrow> si_error + (u64 \<times> bytes \<times> bytes) list) option
     \<Rightarrow> partition_subscription \<Rightarrow> nat \<Rightarrow> subscription_state \<Rightarrow> 'e merged_channel \<Rightarrow> 'e stream_end" where
  "run_stream other rpc resolve p retry_count state c =
    (if channel_closed c
     then \<lparr>se_state = state, se_replacements = [], se_slept = [], se_channel = c\<rparr>
     else
       (case connect_and_stream (rpc retry_count) (ps_region_id p) c of
          (Inr _, c) \<Rightarrow> \<lparr>se_state = state, se_replacements = [], se_slept = [], se_channel = c\<rparr>
        | (Inl e, c) \<Rightarrow>
            (case classify_error other e of
               Disconnect \<Rightarrow>
                 if retry_count \<ge> 5
                 then \<lparr>se_state = SubFailed, se_replacements = [], se_slept = [], se_channel = c\<rparr>
                 else
                   let r = run_stream other rpc resolve p (Suc retry_count) (Reconnecting (Suc retry_count)) c
                   in r\<lparr>se_slept := 2 ^ min (Suc retry_count) 5 # se_slept r\<rparr>
             | EpochChanged \<Rightarrow>
                 \<lparr>se_state = Connected,
                  se_replacements =
                    (case resolve of
                       None \<Rightarrow> []
                     | Some res \<Rightarrow>
                         (case res (ps_start_key p) (ps_end_key p) of
                            Inl _ \<Rightarrow> []
                          | Inr new_regions \<Rightarrow> replacements (ps_region_id p) (ps_start_ts p) new_regions)),
                  se_slept = [], se_channel = c\<rparr>
             | Fatal \<Rightarrow> \<lparr>se_state = SubFailed, se_replacements = [], se_slept = [], se_channel = c\<rparr>)))"
  by pat_completeness auto
termination by (relation "measure (\<lambda>(other, rpc, resolve, p, retry_count, state, c). 5 - retry_count)") auto

declare run_stream.simps [simp del]

section \<open>The subscriber\<close>

text \<open>The subscriber's bookkeeping; \<open>sub_next_stream_id\<close> is the process-wide counter of stream ids, and
  \<open>sub_spawned\<close> lists the streams started so far: a partition, or a span with its bounds and start.\<close>

datatype spawned = PartitionStream u64 partition_subscription | SpanStream u64 bytes bytes u64

record subscriber =
  sub_has_client :: bool
  sub_active_count :: nat
  sub_source_pd :: "string option"
  sub_subscribed_regions :: "u64 set"
  sub_next_stream_id :: u64
  sub_spawned :: "spawned list"

definition subscriber_new :: "u64 \<Rightarrow> subscriber" where
  "subscriber_new next_id =
    \<lparr>sub_has_client = False, sub_active_count = 0, sub_source_pd = None, sub_subscribed_regions = {},
     sub_next_stream_id = next_id, sub_spawned = []\<rparr>"

definition set_shared_client :: "subscriber \<Rightarrow> subscriber" where
  "set_shared_client s = s\<lparr>sub_has_client := True\<rparr>"

definition set_source_pd :: "string \<Rightarrow> subscriber \<Rightarrow> subscriber" where
  "set_source_pd pd_addr s = s\<lparr>sub_source_pd := Some pd_addr\<rparr>"

definition subscribe :: "partition_subscription \<Rightarrow> subscriber \<Rightarrow> (si_error + unit) \<times> subscriber" where
  "subscribe p s =
    (if ps_region_id p \<in> sub_subscribed_regions s then (Inr (), s)
     else
       let stream_id = sub_next_stream_id s;
           s = s\<lparr>sub_next_stream_id := stream_id + 1\<rparr> in
       if \<not> sub_has_client s then (Inl (SubscriptionError ''shared gRPC client not set''), s)
       else (Inr (), s\<lparr>sub_spawned := sub_spawned s @ [PartitionStream stream_id p],
                       sub_subscribed_regions := insert (ps_region_id p) (sub_subscribed_regions s),
                       sub_active_count := sub_active_count s + 1\<rparr>))"

definition subscribe_span :: "bytes \<Rightarrow> bytes \<Rightarrow> u64 \<Rightarrow> subscriber \<Rightarrow> (si_error + u64) \<times> subscriber" where
  "subscribe_span span_key span_end start_ts s =
    (let stream_id = sub_next_stream_id s;
         s = s\<lparr>sub_next_stream_id := stream_id + 1\<rparr> in
     if \<not> sub_has_client s then (Inl (SubscriptionError ''shared gRPC client not set''), s)
     else (Inr stream_id, s\<lparr>sub_spawned := sub_spawned s @ [SpanStream stream_id span_key span_end start_ts],
                           sub_active_count := sub_active_count s + 1\<rparr>))"

fun subscribe_all_spans ::
  "replication_span list \<Rightarrow> u64 \<Rightarrow> subscriber \<Rightarrow> (si_error + u64 list) \<times> subscriber" where
  "subscribe_all_spans [] start_ts s = (Inr [], s)"
| "subscribe_all_spans (span # spans) start_ts s =
    (let (r, s) = subscribe_span (rs_start_key span) (rs_end_key span) start_ts s;
         (rs, s) = subscribe_all_spans spans start_ts s
     in (rmap (\<lambda>ids. (case r of Inr i \<Rightarrow> [i] | Inl _ \<Rightarrow> []) @ ids) rs, s))"

definition remove_subscribed :: "u64 \<Rightarrow> subscriber \<Rightarrow> subscriber" where
  "remove_subscribed region_id s = s\<lparr>sub_subscribed_regions := sub_subscribed_regions s - {region_id}\<rparr>"

definition subscriber_shutdown :: "subscriber \<Rightarrow> subscriber" where
  "subscriber_shutdown s = s\<lparr>sub_active_count := 0, sub_subscribed_regions := {}\<rparr>"

section \<open>Forwarding\<close>

text \<open>The events an answer delivers before its first error.\<close>

fun item_events :: "(string + 'e) list \<Rightarrow> 'e list" where
  "item_events (Inr ev # items) = ev # item_events items"
| "item_events _ = []"

definition reply_events :: "'e grpc_reply \<Rightarrow> 'e list" where
  "reply_events reply = (case reply of Inl _ \<Rightarrow> [] | Inr items \<Rightarrow> item_events items)"

lemma channel_open [simp]: "mc_closes_at c = None \<Longrightarrow> \<not> channel_closed c"
  by (simp add: channel_closed_def)

lemma forward_items_sent:
  "mc_closes_at c = None \<Longrightarrow> mc_closes_at (snd (forward_items rid items c)) = None
    \<and> mc_sent (snd (forward_items rid items c)) = mc_sent c @ map (\<lambda>e. (e, rid)) (item_events items)"
  by (induction rid items c rule: forward_items.induct) auto

lemma connect_and_stream_sent:
  "mc_closes_at c = None \<Longrightarrow> mc_closes_at (snd (connect_and_stream reply rid c)) = None
    \<and> mc_sent (snd (connect_and_stream reply rid c)) = mc_sent c @ map (\<lambda>e. (e, rid)) (reply_events reply)"
  by (simp add: connect_and_stream_def reply_events_def forward_items_sent split: sum.splits)

lemma upt_step: "k \<le> n \<Longrightarrow> [k..<Suc n] = k # [Suc k..<Suc n]"
  by (simp add: upt_conv_Cons)

definition attempts_events :: "(nat \<Rightarrow> 'e grpc_reply) \<Rightarrow> u64 \<Rightarrow> nat \<Rightarrow> nat \<Rightarrow> ('e \<times> u64) list" where
  "attempts_events rpc rid k n = concat (map (\<lambda>i. map (\<lambda>e. (e, rid)) (reply_events (rpc i))) [k..<Suc n])"

lemma attempts_events_step:
  "attempts_events rpc rid k k = map (\<lambda>e. (e, rid)) (reply_events (rpc k))"
  "Suc k \<le> n \<Longrightarrow> attempts_events rpc rid k n =
     map (\<lambda>e. (e, rid)) (reply_events (rpc k)) @ attempts_events rpc rid (Suc k) n"
  by (simp_all add: attempts_events_def upt_step [of k n] del: upt_Suc) (simp add: upt_rec)

lemma run_stream_sent:
  assumes "mc_closes_at c = None" "k \<le> 5"
  shows "\<exists>n. k \<le> n \<and> n \<le> 5 \<and>
    mc_sent (se_channel (run_stream other rpc resolve p k state c)) =
      mc_sent c @ attempts_events rpc (ps_region_id p) k n
    \<and> se_slept (run_stream other rpc resolve p k state c) = map (\<lambda>i. 2 ^ min (Suc i) 5) [k..<n]"
  using assms
proof (induction other rpc resolve p k state c rule: run_stream.induct)
  case (1 other rpc resolve p k state c)
  obtain r c' where conn: "connect_and_stream (rpc k) (ps_region_id p) c = (r, c')" by fastforce
  have c': "mc_closes_at c' = None"
    "mc_sent c' = mc_sent c @ map (\<lambda>e. (e, ps_region_id p)) (reply_events (rpc k))"
    using connect_and_stream_sent [OF 1(2), of "rpc k" "ps_region_id p"] by (simp_all add: conn)
  show ?case
  proof (cases "\<exists>e. r = Inl e \<and> classify_error other e = Disconnect \<and> k < 5")
    case True
    then obtain e where e: "r = Inl e" "classify_error other e = Disconnect" "k < 5" by blast
    have step: "run_stream other rpc resolve p k state c =
        (let r = run_stream other rpc resolve p (Suc k) (Reconnecting (Suc k)) c'
         in r\<lparr>se_slept := 2 ^ min (Suc k) 5 # se_slept r\<rparr>)"
      using 1(2) e by (subst run_stream.simps) (simp add: conn)
    obtain n where n: "Suc k \<le> n" "n \<le> 5"
      "mc_sent (se_channel (run_stream other rpc resolve p (Suc k) (Reconnecting (Suc k)) c')) =
        mc_sent c' @ attempts_events rpc (ps_region_id p) (Suc k) n"
      "se_slept (run_stream other rpc resolve p (Suc k) (Reconnecting (Suc k)) c') = map (\<lambda>i. 2 ^ min (Suc i) 5) [Suc k..<n]"
      using 1(1) [OF _ conn [symmetric] e(1,2)] 1(2) e(3) c'(1) by auto
    have "[k..<n] = k # [Suc k..<n]" using n(1) by (simp add: upt_rec)
    then show ?thesis
      using n step c'(2) by (intro exI [of _ n]) (simp add: attempts_events_step(2) Let_def)
  next
    case False
    then have "se_channel (run_stream other rpc resolve p k state c) = c' \<and> se_slept (run_stream other rpc resolve p k state c) = []"
      using 1(2) by (subst (1 2) run_stream.simps)
        (auto simp: conn split: sum.splits stream_error_kind.splits)
    then show ?thesis
      using c'(2) 1(3) by (intro exI [of _ k]) (simp add: attempts_events_step(1))
  qed
qed

text \<open>C18: a subscribed stream forwards everything it receives and gives up after a bounded time.  On an open
  channel the stream makes at most six calls, forwards the events of each of them in order and tagged
  with its region, and sleeps two, four, eight, sixteen and thirty-two seconds between them.\<close>

theorem stream_forwards_all:
  assumes "mc_closes_at c = None"
  shows "\<exists>n \<le> 5. mc_sent (se_channel (run_stream other rpc resolve p 0 Connected c)) =
      mc_sent c @ concat (map (\<lambda>i. map (\<lambda>e. (e, ps_region_id p)) (reply_events (rpc i))) [0..<Suc n])
    \<and> se_slept (run_stream other rpc resolve p 0 Connected c) = take n [2, 4, 8, 16, 32]"
proof -
  obtain n where n: "n \<le> 5" "mc_sent (se_channel (run_stream other rpc resolve p 0 Connected c)) =
      mc_sent c @ attempts_events rpc (ps_region_id p) 0 n"
    "se_slept (run_stream other rpc resolve p 0 Connected c) = map (\<lambda>i. 2 ^ min (Suc i) 5) [0..<n]"
    using run_stream_sent [OF assms le0, of other rpc resolve p Connected] by blast
  have "map (\<lambda>i. 2 ^ min (Suc i) 5) [0..<n] = take n [2, 4, 8, 16, 32 :: nat]"
  proof -
    have "n \<in> {0, 1, 2, 3, 4, 5}" using n(1) by auto
    then show ?thesis by (auto simp: upt_rec numeral_eq_Suc)
  qed
  with n show ?thesis by (auto simp: attempts_events_def)
qed

theorem stream_forwards_all_witness:
  "\<exists>n \<le> 5. mc_sent (se_channel (run_stream (\<lambda>_. []) (\<lambda>i. Inr [Inr i, Inl ''connection reset'']) None
      \<lparr>ps_region_id = 7, ps_start_ts = 0, ps_source_addr = [], ps_start_key = [], ps_end_key = []\<rparr> 0 Connected
      \<lparr>mc_sent = [], mc_closes_at = None\<rparr>)) = map (\<lambda>i. (i, 7)) [0..<Suc n]"
  using stream_forwards_all [of "\<lparr>mc_sent = [], mc_closes_at = None\<rparr>" "\<lambda>_. []" "\<lambda>i. Inr [Inr i, Inl ''connection reset'']" None
      "\<lparr>ps_region_id = 7, ps_start_ts = 0, ps_source_addr = [], ps_start_key = [], ps_end_key = []\<rparr>"]
  by (auto simp: reply_events_def concat_map_singleton simp del: upt_Suc)

section \<open>Resolving a span again\<close>

lemma decode_key_region_json:
  "decode_key ''start_key'' (region_json (rid, a, b)) = a" "decode_key ''end_key'' (region_json (rid, a, b)) = b"
  by (simp_all add: decode_key_def region_json_def task_hex_decode_def hex_decode_pairs_encode length_hex_encode)

text \<open>What the overlap test accepts: everything for the whole key space; otherwise nothing but the whole key
  space for a span that is open at its end; otherwise the last region of the key space exactly when the
  span is open at its start; and any other region exactly when it shares a key with the span.\<close>

definition region_found :: "bytes \<Rightarrow> bytes \<Rightarrow> bytes \<Rightarrow> bytes \<Rightarrow> bool" where
  "region_found a b c d \<longleftrightarrow>
    (if a = [] \<and> b = [] \<or> c = [] \<and> d = [] then True
     else if b = [] then False
     else if d = [] then a = []
     else \<exists>k. in_range a b k \<and> in_range c d k)"

text \<open>C19: the regions found again for a span, exactly.  The whole key space finds every region, and a region
  that is the whole key space is always found.  Otherwise, for a span with an end, a region with an end
  is found exactly when it shares a key with the span, and the last region of the key space, whose end
  is empty, exactly when the span has no start, whether or not it holds keys of the span.  A span with a
  start and no end finds none of these regions, although it shares keys with some.\<close>

theorem resolve_span_regions:
  assumes "curl (''http://'' @ pd @ ''/pd/api/v1/regions'') = CmdOutput True body"
    and "parse_json body = Some (JObject [(''regions'', JArray (map region_json regions))])"
    and "range_ok a b" "\<forall>(rid, c, d) \<in> set regions. rid \<noteq> 0 \<and> range_ok c d"
  shows "\<exists>found. resolve_span curl parse_json True pd a b = Inr found \<and>
    (\<forall>rid c d. (rid, c, d) \<in> set found \<longleftrightarrow> (rid, c, d) \<in> set regions \<and> region_found a b c d)"
proof -
  have ov: "resolve_overlaps a b c d \<longleftrightarrow> region_found a b c d" if "range_ok c d" for c d
    using ranges_meet_iff [of a b c d] that assms(3)
    by (auto simp: resolve_overlaps_def range_ok_def region_found_def Let_def)
  have iff: "rid \<noteq> 0 \<and> resolve_overlaps a b c d \<longleftrightarrow> region_found a b c d"
    if "(rid, c, d) \<in> set regions" for rid c d
  proof -
    have "rid \<noteq> 0" "range_ok c d" using assms(4) that by auto
    then show ?thesis using ov by simp
  qed
  have "resolve_span curl parse_json True pd a b =
      Inr (filter (\<lambda>(rid, c, d). rid \<noteq> 0 \<and> resolve_overlaps a b c d) regions)"
  proof -
    have "map (\<lambda>r. (case Option.bind (json_get ''id'' r) json_u64 of None \<Rightarrow> 0 | Some i \<Rightarrow> i,
        decode_key ''start_key'' r, decode_key ''end_key'' r)) (map region_json regions) = regions"
    proof (induction regions)
      case (Cons x xs)
      obtain rid c d where x: "x = (rid, c, d)" by (cases x)
      have "json_u64 (JInt (uint rid)) = Some rid" using uint_lt2p [of rid] by simp
      then show ?case using Cons decode_key_region_json [of rid c d] by (simp add: x) (simp add: region_json_def)
    qed simp
    then show ?thesis using assms(1,2) by (simp add: resolve_span_def resolve_regions_def)
  qed
  then show ?thesis using iff by (simp cong: conj_cong)
qed

theorem resolve_span_regions_witness:
  "\<exists>found. resolve_span (\<lambda>_. CmdOutput True [])
      (\<lambda>_. Some (JObject [(''regions'', JArray (map region_json [(7, [1], [3]), (8, [3], [])]))])) True ''pd'' [2] [4] = Inr found
    \<and> (7, [1], [3]) \<in> set found \<and> (8, [3], []) \<notin> set found"
proof -
  have "in_range [2] [4] ([2] :: bytes) \<and> in_range [1] [3] ([2] :: bytes)" by (simp add: in_range_def)
  then have "\<exists>k. in_range [2] [4] k \<and> in_range [1] [3] k" by blast
  then show ?thesis
    using resolve_span_regions [of "\<lambda>_. CmdOutput True []" "''pd''" "[]"
      "\<lambda>_. Some (JObject [(''regions'', JArray (map region_json [(7, [1], [3]), (8, [3], [])]))])"
      "[(7, [1], [3]), (8, [3], [])]" "[2]" "[4]"]
    by (auto simp: range_ok_def region_found_def)
qed

end
