(* ===== verification/EventLoop.thy ===== *)
theory EventLoop
  imports Subscriber
begin

text \<open>
  The consumer's event loop and ingest workers (the first half of \<open>stream-ingest/src/task.rs\<close>): the
  components the loop owns, the dispatch of data events to four workers, the handling of checkpoints
  and splits, topology synchronisation, cutover, and the workers that buffer pairs and ingest them.

  One iteration of the loop's \<open>select\<close> is a \<open>loop_input\<close>; what the outside world answers in that
  iteration is the environment \<open>loop_env\<close>.  The workers run concurrently with the loop: the system
  \<open>pcr_system\<close> takes steps of the loop and of any worker in any order.  Gauges and log lines are not
  modelled.
\<close>

section \<open>State\<close>

type_synonym pcr_msg = "pcr_event \<times> u64"

definition INGEST_WORKERS :: nat where
  "INGEST_WORKERS = 4"

record pcr_worker =
  pw_queue :: "pcr_msg list"
  pw_has_rx :: bool

record ('f, 'p) pcr_components =
  pc_subscriber :: subscriber
  pc_batcher :: sst_batcher
  pc_workers :: "pcr_worker list"
  pc_checkpoint_mgr :: checkpoint_manager
  pc_frontier :: frontier
  pc_source_addr :: string
  pc_source_pd :: string
  pc_initial_subscriptions :: "partition_subscription list"
  pc_flush_interval_ms :: nat
  pc_cutover_ts :: u64
  pc_resume_ts :: u64
  pc_span_registry :: span_registry
  pc_target_tidb_addr :: string
  pc_source_tidb_addr :: string
  pc_span_mode :: bool
  pc_schema_sync :: schema_sync
  pc_next :: u64
  pc_file :: 'f
  pc_pd :: 'p
  pc_posts :: posts

text \<open>Fresh components for the loop; the process-wide counters, the files, the placement driver and the
  posted requests live on from the previous ones.\<close>

definition create_components ::
  "nat \<Rightarrow> stream_ingest_config \<Rightarrow> string option \<Rightarrow> u64 \<Rightarrow> partition_subscription list
     \<Rightarrow> u64 \<Rightarrow> u64 \<Rightarrow> 'f \<Rightarrow> 'p \<Rightarrow> posts \<Rightarrow> ('f, 'p) pcr_components" where
  "create_components now cfg source_pd cutover_ts subscriptions next_stream_id next f p posts =
    \<lparr>pc_subscriber = subscriber_new next_stream_id,
     pc_batcher = sst_batcher_new now (cf_max_kv_buffer_size cfg) (cf_max_range_key_buffer_size cfg),
     pc_workers = replicate INGEST_WORKERS \<lparr>pw_queue = [], pw_has_rx = True\<rparr>,
     pc_checkpoint_mgr = checkpoint_manager_new ''pcr_default'',
     pc_frontier = [],
     pc_source_addr = cf_source_address cfg,
     pc_source_pd = (case source_pd of None \<Rightarrow> [] | Some pd \<Rightarrow> pd),
     pc_initial_subscriptions = subscriptions,
     pc_flush_interval_ms = cf_min_flush_interval cfg,
     pc_cutover_ts = cutover_ts,
     pc_resume_ts = 0,
     pc_span_registry = span_registry_new,
     pc_target_tidb_addr = cf_target_tidb_address cfg,
     pc_source_tidb_addr = ''127.0.0.1:4100'',
     pc_span_mode = False,
     pc_schema_sync = schema_sync_new ''127.0.0.1:3380'' ''127.0.0.1:3379'',
     pc_next = next, pc_file = f, pc_pd = p, pc_posts = posts\<rparr>"

record ('f, 'j, 'p) loop_env =
  le_checkpoint :: "('f, 'j, 'p) checkpoint_env"
  le_mysql :: mysql_cmd
  le_curl :: "string \<Rightarrow> cmd_result"
  le_parse_json :: "string \<Rightarrow> json option"
  le_joined :: bool
  le_schema_script :: "string \<Rightarrow> cmd_result"
  le_batch_get_tso :: "nat \<Rightarrow> 'p \<Rightarrow> 'p"

section \<open>Ingest workers\<close>

datatype worker_input = WorkerEvent pcr_msg | WorkerClosed | WorkerIdle

type_synonym flush_log = "(si_error + flush_result) list"

definition kv_of_event :: "pcr_kv \<Rightarrow> mvcc_kv" where
  "kv_of_event kv =
    \<lparr>mkv_key = kv_key kv, mkv_value = kv_value kv, mkv_cf = (if kv_cf kv = [] then ''default'' else kv_cf kv)\<rparr>"

text \<open>A flush whose result is dropped, kept here in a log.\<close>

definition try_flush ::
  "'e engine_ops \<Rightarrow> ((string \<times> mvcc_kv list) list \<Rightarrow> (string \<times> mvcc_kv list) list) \<Rightarrow> nat
     \<Rightarrow> bool \<Rightarrow> sst_batcher \<times> 'e ingest_ctx \<Rightarrow> flush_log \<times> sst_batcher \<times> 'e ingest_ctx" where
  "try_flush ops order now cond st =
    (let (b, c) = st in
     if cond then (let (r, b, c) = sb_flush ops order now b c in ([r], b, c)) else ([], b, c))"

definition worker_step ::
  "'e engine_ops \<Rightarrow> ((string \<times> mvcc_kv list) list \<Rightarrow> (string \<times> mvcc_kv list) list) \<Rightarrow> nat \<Rightarrow> nat
     \<Rightarrow> worker_input \<Rightarrow> sst_batcher \<times> 'e ingest_ctx \<Rightarrow> flush_log \<times> sst_batcher \<times> 'e ingest_ctx" where
  "worker_step ops order now flush_interval_ms input st =
    (let (b, c) = st in
     case input of
       WorkerEvent (ev, region_id) \<Rightarrow>
         (case ev_payload ev of
            Some (KvBatch kvs) \<Rightarrow>
              let (l1, b, c) = try_flush ops order now
                    (sb_current_region_id b \<noteq> region_id \<and> sb_should_flush RangeBoundary b) (b, c);
                  b = b\<lparr>sb_current_region_id := region_id\<rparr>;
                  b = fold (\<lambda>kv b. snd (sb_add_kv (kv_of_event kv) b)) kvs b;
                  (l2, b, c) = try_flush ops order now
                    (sb_should_flush BufferFull b
                     \<or> flush_interval_ms > 0 \<and> elapsed_since_last_flush now b \<ge> flush_interval_ms) (b, c)
              in (l1 @ l2, b, c)
          | Some (DeleteRange start_key end_key ts) \<Rightarrow>
              let b = b\<lparr>sb_current_region_id := region_id\<rparr>;
                  b = add_delete_range start_key end_key ts b
              in try_flush ops order now (sb_range_buffer_size b \<ge> sb_max_range_buffer_size b) (b, c)
          | _ \<Rightarrow> ([], b, c))
     | WorkerClosed \<Rightarrow> try_flush ops order now (pending_kvs b > 0) (b, c)
     | WorkerIdle \<Rightarrow> try_flush ops order now (pending_kvs b > 0) (b, c))"

section \<open>Events\<close>

definition handle_data_event :: "pcr_msg \<Rightarrow> ('f, 'p) pcr_components \<Rightarrow> ('f, 'p) pcr_components" where
  "handle_data_event msg pc =
    (let n = length (pc_workers pc);
         (idx, pc) = (if snd msg \<noteq> 0 then (unat (snd msg) mod n, pc)
                      else (unat (pc_next pc) mod n, pc\<lparr>pc_next := pc_next pc + 1\<rparr>));
         w = pc_workers pc ! idx
     in pc\<lparr>pc_workers := (pc_workers pc)[idx := w\<lparr>pw_queue := pw_queue w @ [msg]\<rparr>]\<rparr>)"

definition compute_lag :: "u64 \<Rightarrow> u64 \<Rightarrow> u64" where
  "compute_lag now_secs resolved_ts =
    (if resolved_ts = 0 then 0
     else
       let resolved_secs = drop_bit 18 resolved_ts div 1000
       in if now_secs \<ge> resolved_secs then now_secs - resolved_secs else 0)"

definition is_cutover_ready :: "('f, 'p) pcr_components \<Rightarrow> bool" where
  "is_cutover_ready pc =
    (let target = pc_cutover_ts pc in
     if target = 0 then False
     else
       let global_min = (case global_min_ts (pc_frontier pc) of None \<Rightarrow> 0 | Some ts \<Rightarrow> ts) in
       if global_min = 0 then False
       else if target = - 1 then True
       else global_min \<ge> target)"

definition is_sst_within_region :: "bytes \<Rightarrow> bytes \<Rightarrow> bool" where
  "is_sst_within_region chunk_start chunk_end = (chunk_start \<noteq> [] \<and> chunk_end \<noteq> [])"

definition record_progress ::
  "('f, 'j, 'p) checkpoint_env \<Rightarrow> ('f, 'p) pcr_components \<Rightarrow> (si_error + unit) \<times> ('f, 'p) pcr_components" where
  "record_progress env pc =
    (let (r, m, f, p) = record_checkpoint env (pc_frontier pc) (pc_checkpoint_mgr pc, pc_file pc, pc_pd pc)
     in (r, pc\<lparr>pc_checkpoint_mgr := m, pc_file := f, pc_pd := p\<rparr>))"

definition subscribe_child ::
  "u64 \<Rightarrow> u64 \<Rightarrow> ('f, 'p) pcr_components \<Rightarrow> ('f, 'p) pcr_components" where
  "subscribe_child resume_ts new_rid pc =
    (if bt_get (pc_frontier pc) new_rid \<noteq> None then pc
     else
       let sub = \<lparr>ps_region_id = new_rid, ps_start_ts = resume_ts, ps_source_addr = pc_source_addr pc,
                  ps_start_key = [], ps_end_key = []\<rparr>;
           (r, s) = subscribe sub (pc_subscriber pc)
       in pc\<lparr>pc_subscriber := s, pc_frontier := bt_insert new_rid resume_ts (pc_frontier pc)\<rparr>)"

definition forget_region :: "u64 \<Rightarrow> ('f, 'p) pcr_components \<Rightarrow> ('f, 'p) pcr_components" where
  "forget_region rid pc =
    pc\<lparr>pc_subscriber := remove_subscribed rid (pc_subscriber pc), pc_frontier := bt_remove rid (pc_frontier pc)\<rparr>"

definition CUTOVER_COMPLETE :: si_error where
  "CUTOVER_COMPLETE = OtherError ''cutover complete''"

definition handle_control_event ::
  "('f, 'j, 'p) checkpoint_env \<Rightarrow> pcr_msg \<Rightarrow> ('f, 'p) pcr_components
     \<Rightarrow> (si_error + unit) \<times> ('f, 'p) pcr_components" where
  "handle_control_event env msg pc =
    (case ev_payload (fst msg) of
       Some (Checkpoint checkpoint_ts region_ids) \<Rightarrow>
         let pc = pc\<lparr>pc_frontier := fold (\<lambda>rid f. bt_insert rid checkpoint_ts f) region_ids (pc_frontier pc)\<rparr>;
             (r, pc) = record_progress env pc in
         (case r of
            Inl e \<Rightarrow> (Inl e, pc)
          | Inr _ \<Rightarrow> if is_cutover_ready pc then (Inl CUTOVER_COMPLETE, pc) else (Inr (), pc))
     | Some (DeleteRange s e ts) \<Rightarrow> (Inr (), handle_data_event msg pc)
     | Some (KvBatch kvs) \<Rightarrow> (Inr (), handle_data_event msg pc)
     | Some (SstChunk d s e ts) \<Rightarrow> (Inr (), handle_data_event msg pc)
     | Some (SplitNotice split_key new_region_ids) \<Rightarrow>
         let parent = snd msg;
             (new_regions, reg) = on_region_split parent new_region_ids (pc_span_registry pc);
             pc = pc\<lparr>pc_span_registry := reg\<rparr>;
             resume_ts = (case bt_get (pc_frontier pc) parent of None \<Rightarrow> 0 | Some ts \<Rightarrow> ts);
             pc = forget_region parent pc;
             pc = fold forget_region new_region_ids pc;
             pc = (if pc_span_mode pc then pc else fold (subscribe_child resume_ts) new_regions pc)
         in (Inr (), pc)
     | None \<Rightarrow> (Inr (), pc))"

section \<open>Topology\<close>

definition discover_region_ids_from_source ::
  "(string \<Rightarrow> cmd_result) \<Rightarrow> (string \<Rightarrow> json option) \<Rightarrow> string \<Rightarrow> (u64 \<times> bytes \<times> bytes) list" where
  "discover_region_ids_from_source curl parse_json source_pd =
    (case curl (''http://'' @ source_pd @ ''/pd/api/v1/regions'') of
       CmdError \<Rightarrow> []
     | CmdOutput success body \<Rightarrow>
         if \<not> success then []
         else
           (case Option.bind (Option.bind (parse_json body) (json_get ''regions'')) json_array of
              None \<Rightarrow> []
            | Some regions \<Rightarrow>
                List.map_filter (\<lambda>r. map_option (\<lambda>i. (i, decode_key ''start_key'' r, decode_key ''end_key'' r))
                    (Option.bind (json_get ''id'' r) json_u64)) regions))"

datatype topology_change = NewRegion u64 | RemovedRegion u64

record topology_diff =
  td_new_regions :: "topology_change list"
  td_removed_regions :: "topology_change list"
  td_total_in_pd :: nat
  td_total_in_frontier :: nat

definition diff_topology :: "(u64 \<times> bytes \<times> bytes) list \<Rightarrow> frontier \<Rightarrow> topology_diff" where
  "diff_topology pd_regions frontier =
    (let pd_set = set (map fst pd_regions) in
     \<lparr>td_new_regions = map NewRegion (filter (\<lambda>rid. bt_get frontier rid = None) (map fst pd_regions)),
      td_removed_regions = map RemovedRegion (filter (\<lambda>rid. rid \<notin> pd_set) (bt_keys frontier)),
      td_total_in_pd = length pd_regions, td_total_in_frontier = length frontier\<rparr>)"

definition rediscover_new :: "u64 \<Rightarrow> topology_change \<Rightarrow> ('f, 'p) pcr_components \<Rightarrow> ('f, 'p) pcr_components" where
  "rediscover_new resume_ts change pc =
    (case change of
       NewRegion region_id \<Rightarrow>
         let sub = \<lparr>ps_region_id = region_id, ps_start_ts = resume_ts, ps_source_addr = pc_source_addr pc,
                    ps_start_key = [], ps_end_key = []\<rparr>;
             (r, s) = subscribe sub (pc_subscriber pc);
             pc = pc\<lparr>pc_subscriber := s\<rparr>
         in if is_ok r \<and> resume_ts > 0
            then pc\<lparr>pc_frontier := bt_insert region_id resume_ts (pc_frontier pc)\<rparr> else pc
     | RemovedRegion _ \<Rightarrow> pc)"

definition rediscover_removed :: "topology_change \<Rightarrow> ('f, 'p) pcr_components \<Rightarrow> ('f, 'p) pcr_components" where
  "rediscover_removed change pc =
    (case change of
       RemovedRegion region_id \<Rightarrow> pc\<lparr>pc_frontier := bt_remove region_id (pc_frontier pc)\<rparr>
     | NewRegion _ \<Rightarrow> pc)"

definition rediscover :: "('f, 'j, 'p) loop_env \<Rightarrow> ('f, 'p) pcr_components \<Rightarrow> ('f, 'p) pcr_components" where
  "rediscover env pc =
    (let resume_ts = (case global_min_ts (pc_frontier pc) of None \<Rightarrow> 0 | Some ts \<Rightarrow> ts);
         pd_regions = discover_region_ids_from_source (le_curl env) (le_parse_json env) (pc_source_pd pc) in
     if pd_regions = [] then pc
     else
       let diff = diff_topology pd_regions (pc_frontier pc);
           pc = (if pc_span_mode pc then pc else fold (rediscover_new resume_ts) (td_new_regions diff) pc)
       in fold rediscover_removed (td_removed_regions diff) pc)"

section \<open>New tables\<close>

definition subscribe_span_region ::
  "i64 \<Rightarrow> u64 \<times> bytes \<times> bytes \<Rightarrow> ('f, 'p) pcr_components \<Rightarrow> ('f, 'p) pcr_components" where
  "subscribe_span_region table_id r pc =
    (case r of (rid, r_start, r_end) \<Rightarrow>
       if bt_get (pc_frontier pc) rid \<noteq> None then pc
       else
         let sub = \<lparr>ps_region_id = rid, ps_start_ts = 0, ps_source_addr = pc_source_addr pc,
                    ps_start_key = r_start, ps_end_key = r_end\<rparr>;
             (res, s) = subscribe sub (pc_subscriber pc);
             pc = pc\<lparr>pc_subscriber := s\<rparr> in
         (case res of
            Inl e \<Rightarrow> pc
          | Inr _ \<Rightarrow>
              pc\<lparr>pc_frontier := bt_insert rid 0 (pc_frontier pc),
                 pc_span_registry :=
                   update_span (\<lambda>s. activate_worker rid (start_worker rid s)) table_id (pc_span_registry pc)\<rparr>))"

definition discover_span ::
  "('f, 'j, 'p) loop_env \<Rightarrow> replication_span \<Rightarrow> ('f, 'p) pcr_components \<Rightarrow> ('f, 'p) pcr_components" where
  "discover_span env span pc =
    (case resolve_span_to_regions (le_curl env) (le_parse_json env) (le_joined env) (pc_source_pd pc)
        (rs_start_key span) (rs_end_key span) of
       Inl e \<Rightarrow> pc
     | Inr pd_regions \<Rightarrow>
         if pc_span_mode pc then pc
         else fold (subscribe_span_region (rs_table_id span)) pd_regions pc)"

definition ddl_discover :: "('f, 'j, 'p) loop_env \<Rightarrow> ('f, 'p) pcr_components \<Rightarrow> ('f, 'p) pcr_components" where
  "ddl_discover env pc =
    (let (new_spans, reg) = discover_new_spans (le_mysql env) (pc_source_tidb_addr pc) (pc_span_registry pc);
         pc = pc\<lparr>pc_span_registry := reg\<rparr>;
         pc = fold (discover_span env) new_spans pc;
         (sync, posts) = bump_schema (le_schema_script env) (pc_schema_sync pc, pc_posts pc)
     in pc\<lparr>pc_schema_sync := sync, pc_posts := posts\<rparr>)"

section \<open>The loop\<close>

datatype loop_input = CancelChanged bool | DdlTick | TsoTick | CutoverTick | RediscoverTick | EventIn "pcr_msg option"

text \<open>Starting the loop fails when the span subscription does; a worker queue that was already taken is a
  panic, \<open>None\<close>.  The value tells whether the loop runs.\<close>

definition start_event_loop :: "('f, 'p) pcr_components \<Rightarrow> (bool \<times> ('f, 'p) pcr_components) option" where
  "start_event_loop pc =
    (let s = set_source_pd (pc_source_pd pc) (set_shared_client (pc_subscriber pc));
         (r, s) = subscribe_span [] [] (pc_resume_ts pc) s;
         pc = pc\<lparr>pc_subscriber := s\<rparr> in
     case r of
       Inl e \<Rightarrow> Some (False, pc)
     | Inr _ \<Rightarrow>
         if list_all pw_has_rx (pc_workers pc)
         then Some (True, pc\<lparr>pc_span_mode := True, pc_workers := map (\<lambda>w. w\<lparr>pw_has_rx := False\<rparr>) (pc_workers pc)\<rparr>)
         else None)"

definition is_control :: "pcr_event \<Rightarrow> bool" where
  "is_control ev = (case ev_payload ev of Some (Checkpoint _ _) \<Rightarrow> True | Some (SplitNotice _ _) \<Rightarrow> True | _ \<Rightarrow> False)"

definition is_cutover_error :: "(si_error \<Rightarrow> string) \<Rightarrow> si_error \<Rightarrow> bool" where
  "is_cutover_error dbg e =
    (case e of OtherError s \<Rightarrow> str_contains ''cutover complete'' s
     | _ \<Rightarrow> str_contains ''cutover complete'' (dbg e))"

text \<open>One iteration; the value tells whether the loop leaves.\<close>

definition loop_step ::
  "(si_error \<Rightarrow> string) \<Rightarrow> ('f, 'j, 'p) loop_env \<Rightarrow> loop_input \<Rightarrow> ('f, 'p) pcr_components
     \<Rightarrow> bool \<times> ('f, 'p) pcr_components" where
  "loop_step dbg env input pc =
    (case input of
       CancelChanged cancelled \<Rightarrow> (cancelled, pc)
     | DdlTick \<Rightarrow> (False, ddl_discover env pc)
     | TsoTick \<Rightarrow> (False, pc\<lparr>pc_pd := le_batch_get_tso env 500000 (pc_pd pc)\<rparr>)
     | CutoverTick \<Rightarrow> (is_cutover_ready pc, pc)
     | RediscoverTick \<Rightarrow> (False, rediscover env pc)
     | EventIn None \<Rightarrow> (True, pc)
     | EventIn (Some msg) \<Rightarrow>
         if is_control (fst msg)
         then (let (r, pc) = handle_control_event (le_checkpoint env) msg pc
               in (case r of Inl e \<Rightarrow> is_cutover_error dbg e | Inr _ \<Rightarrow> False, pc))
         else (False, handle_data_event msg pc))"

definition finish_event_loop :: "('f, 'j, 'p) loop_env \<Rightarrow> ('f, 'p) pcr_components \<Rightarrow> ('f, 'p) pcr_components" where
  "finish_event_loop env pc =
    (if pc_frontier pc = [] then pc else snd (record_progress (le_checkpoint env) pc))"

section \<open>The system\<close>

record ('e, 'f, 'p) pcr_system =
  sy_components :: "('f, 'p) pcr_components"
  sy_batchers :: "sst_batcher list"
  sy_ctx :: "'e ingest_ctx"
  sy_running :: bool
  sy_log :: flush_log

definition start_system ::
  "nat \<Rightarrow> ('f, 'p) pcr_components \<Rightarrow> 'e ingest_ctx \<Rightarrow> ('e, 'f, 'p) pcr_system option" where
  "start_system now pc c =
    map_option (\<lambda>(run, pc).
      \<lparr>sy_components = pc,
       sy_batchers = (if run then map (\<lambda>w. sst_batcher_new now (sb_max_kv_buffer_size (pc_batcher pc))
                          (sb_max_range_buffer_size (pc_batcher pc))) (pc_workers pc) else []),
       sy_ctx = c, sy_running = run, sy_log = []\<rparr>) (start_event_loop pc)"

text \<open>Running one worker on an input.\<close>

definition run_worker ::
  "'e engine_ops \<Rightarrow> ((string \<times> mvcc_kv list) list \<Rightarrow> (string \<times> mvcc_kv list) list) \<Rightarrow> nat \<Rightarrow> nat
     \<Rightarrow> nat \<Rightarrow> worker_input \<Rightarrow> ('e, 'f, 'p) pcr_system \<Rightarrow> ('e, 'f, 'p) pcr_system" where
  "run_worker ops order now ms i w s =
    (let (l, b, c) = worker_step ops order now ms w (sy_batchers s ! i, sy_ctx s)
     in s\<lparr>sy_batchers := (sy_batchers s)[i := b], sy_ctx := c, sy_log := sy_log s @ l\<rparr>)"

text \<open>Taking the head of a queue.\<close>

definition take_msg :: "nat \<Rightarrow> ('e, 'f, 'p) pcr_system \<Rightarrow> ('e, 'f, 'p) pcr_system" where
  "take_msg i s =
    (let pc = sy_components s; w = pc_workers pc ! i
     in s\<lparr>sy_components := pc\<lparr>pc_workers := (pc_workers pc)[i := w\<lparr>pw_queue := tl (pw_queue w)\<rparr>]\<rparr>\<rparr>)"

datatype sys_input = LoopStep loop_input | SetCutover u64 | WorkerTake nat | WorkerTimeout nat | WorkerClose nat

text \<open>The cutover timestamp is shared with the control task, which may store it at any time.  A worker takes
  the head of its queue, times out, or, when the loop is gone and its queue is empty, sees its channel
  closed.\<close>

definition sys_step ::
  "(si_error \<Rightarrow> string) \<Rightarrow> ('f, 'j, 'p) loop_env \<Rightarrow> 'e engine_ops
     \<Rightarrow> ((string \<times> mvcc_kv list) list \<Rightarrow> (string \<times> mvcc_kv list) list) \<Rightarrow> nat
     \<Rightarrow> sys_input \<Rightarrow> ('e, 'f, 'p) pcr_system \<Rightarrow> ('e, 'f, 'p) pcr_system" where
  "sys_step dbg env ops order now input s =
    (let pc = sy_components s;
         run = run_worker ops order now (pc_flush_interval_ms pc) in
     case input of
       LoopStep inp \<Rightarrow>
         if \<not> sy_running s then s
         else
           let (leave, pc) = loop_step dbg env inp pc in
           if leave then s\<lparr>sy_components := finish_event_loop env pc, sy_running := False\<rparr>
           else s\<lparr>sy_components := pc\<rparr>
     | SetCutover ts \<Rightarrow> s\<lparr>sy_components := pc\<lparr>pc_cutover_ts := ts\<rparr>\<rparr>
     | WorkerTake i \<Rightarrow>
         if i < length (sy_batchers s) \<and> i < length (pc_workers pc) \<and> pw_queue (pc_workers pc ! i) \<noteq> []
         then run i (WorkerEvent (hd (pw_queue (pc_workers pc ! i)))) (take_msg i s)
         else s
     | WorkerTimeout i \<Rightarrow> if i < length (sy_batchers s) then run i WorkerIdle s else s
     | WorkerClose i \<Rightarrow>
         if i < length (sy_batchers s) \<and> i < length (pc_workers pc) \<and> \<not> sy_running s
            \<and> pw_queue (pc_workers pc ! i) = []
         then run i WorkerClosed s else s)"

section \<open>Cutover\<close>

lemma global_min_ts_le: "global_min_ts f = Some m \<Longrightarrow> (r, ts) \<in> set f \<Longrightarrow> m \<le> ts"
  by (auto simp: global_min_ts_def bt_values_def split: if_splits intro!: Min_le image_eqI [of _ snd "(r, ts)"])

lemma cutover_ready_frontier:
  assumes "is_cutover_ready pc"
  shows "pc_cutover_ts pc \<noteq> 0" "pc_frontier pc \<noteq> []"
    "\<forall>(r, ts) \<in> set (pc_frontier pc). 0 < ts \<and> (pc_cutover_ts pc = - 1 \<or> pc_cutover_ts pc \<le> ts)"
proof -
  obtain m where m: "global_min_ts (pc_frontier pc) = Some m" "m \<noteq> 0"
    "pc_cutover_ts pc \<noteq> 0" "pc_cutover_ts pc = - 1 \<or> pc_cutover_ts pc \<le> m"
    using assms by (auto simp: is_cutover_ready_def Let_def split: option.splits if_splits)
  show "pc_cutover_ts pc \<noteq> 0" "pc_frontier pc \<noteq> []" using m by (auto simp: global_min_ts_def)
  have "0 < ts \<and> (pc_cutover_ts pc = - 1 \<or> pc_cutover_ts pc \<le> ts)" if "(r, ts) \<in> set (pc_frontier pc)" for r ts
    using global_min_ts_le [OF m(1) that] m(2,4) by (auto simp: word_gt_0 intro: order_trans)
  then show "\<forall>(r, ts) \<in> set (pc_frontier pc). 0 < ts \<and> (pc_cutover_ts pc = - 1 \<or> pc_cutover_ts pc \<le> ts)" by auto
qed

lemma record_progress_fields [simp]:
  "pc_workers (snd (record_progress env pc)) = pc_workers pc"
  "pc_frontier (snd (record_progress env pc)) = pc_frontier pc"
  "pc_cutover_ts (snd (record_progress env pc)) = pc_cutover_ts pc"
  by (simp_all add: record_progress_def case_prod_unfold Let_def)

lemma record_checkpoint_error: "fst (record_checkpoint env f st) = Inl e \<Longrightarrow> \<exists>m. e = CheckpointError m"
  by (auto simp: record_checkpoint_def Let_def split: prod.splits if_splits) (metis sum.exhaust map_err.simps sum.inject(1) sum.distinct(1))

lemma record_progress_error:
  "record_progress env pc = (Inl e, pc') \<Longrightarrow> \<exists>m. e = CheckpointError m"
  using record_checkpoint_error
  by (fastforce simp: record_progress_def case_prod_unfold Let_def)

lemma handle_control_event_error:
  assumes "handle_control_event env msg pc = (Inl e, pc')"
  shows "(\<exists>m. e = CheckpointError m) \<or> is_cutover_ready pc'"
proof -
  obtain ts rids where "ev_payload (fst msg) = Some (Checkpoint ts rids)"
    using assms by (auto simp: handle_control_event_def Let_def split: option.splits pcr_payload.splits prod.splits)
  then show ?thesis
    using assms record_progress_error
    by (auto simp: handle_control_event_def Let_def split: prod.splits sum.splits if_splits)
qed

text \<open>C6: the loop leaves for a cutover only when every region has caught up.  Unless it was cancelled or its
  channel closed, the loop leaves only with a cutover requested, a frontier that is not empty, and every
  region of the frontier beyond zero and, unless the cutover is to the latest point, at or beyond the
  cutover timestamp.\<close>

theorem cutover_exit_safe:
  assumes "loop_step dbg env input pc = (True, pc')"
    and "input \<noteq> CancelChanged True" "input \<noteq> EventIn None"
    and "\<forall>m. \<not> str_contains ''cutover complete'' (dbg (CheckpointError m))"
  shows "pc_cutover_ts pc' \<noteq> 0 \<and> pc_frontier pc' \<noteq> []
    \<and> (\<forall>(r, ts) \<in> set (pc_frontier pc'). 0 < ts \<and> (pc_cutover_ts pc' = - 1 \<or> pc_cutover_ts pc' \<le> ts))"
proof -
  have "is_cutover_ready pc'"
  proof (cases input)
    case (EventIn m)
    then obtain msg where m: "input = EventIn (Some msg)" using assms(3) by (cases m) auto
    then obtain e where e: "handle_control_event (le_checkpoint env) msg pc = (Inl e, pc')" "is_cutover_error dbg e"
      using assms(1) by (auto simp: loop_step_def Let_def split: if_splits prod.splits sum.splits)
    then show ?thesis
      using handle_control_event_error [OF e(1)] assms(4) by (auto simp: is_cutover_error_def)
  qed (use assms in \<open>auto simp: loop_step_def split: if_splits\<close>)
  then show ?thesis using cutover_ready_frontier by blast
qed

definition example_env :: "(frontier option, frontier, unit) loop_env" where
  "example_env =
    \<lparr>le_checkpoint = memory_env True, le_mysql = \<lambda>h p q. CmdError, le_curl = \<lambda>u. CmdError,
     le_parse_json = \<lambda>t. None, le_joined = True, le_schema_script = \<lambda>u. CmdError,
     le_batch_get_tso = \<lambda>n p. p\<rparr>"

definition example_components :: "(frontier option, unit) pcr_components" where
  "example_components = create_components 0 (config_default 1) None 5 [] 1 0 None () []"

theorem cutover_exit_safe_witness:
  "loop_step (\<lambda>_. []) example_env CutoverTick (example_components\<lparr>pc_frontier := [(1, 7)]\<rparr>) =
    (True, example_components\<lparr>pc_frontier := [(1, 7)]\<rparr>)
   \<and> pc_cutover_ts example_components \<le> 7"
proof -
  let ?pc = "example_components\<lparr>pc_frontier := [(1, 7)]\<rparr>"
  have "loop_step (\<lambda>_. []) example_env CutoverTick ?pc = (True, ?pc)"
    by (simp add: loop_step_def is_cutover_ready_def global_min_ts_def bt_values_def example_components_def
        create_components_def)
  then show ?thesis
    using cutover_exit_safe [of "\<lambda>_. []" example_env CutoverTick ?pc ?pc]
    by (simp add: example_components_def create_components_def)
qed

section \<open>No pair is lost\<close>

definition msg_kvs :: "pcr_msg \<Rightarrow> mvcc_kv list" where
  "msg_kvs msg = map kv_of_event (event_kvs (fst msg))"

definition is_delete_range :: "pcr_msg \<Rightarrow> bool" where
  "is_delete_range msg = (case ev_payload (fst msg) of Some (DeleteRange _ _ _) \<Rightarrow> True | _ \<Rightarrow> False)"

text \<open>Pairs agree when the same key of the same column family always has the same value, as versioned keys do.\<close>

definition kvs_agree :: "mvcc_kv set \<Rightarrow> bool" where
  "kvs_agree P \<longleftrightarrow> (\<forall>kv \<in> P. \<forall>kv' \<in> P. mkv_cf kv = mkv_cf kv' \<and> mkv_key kv = mkv_key kv' \<longrightarrow> mkv_value kv = mkv_value kv')"

definition stored :: "('e \<Rightarrow> string \<Rightarrow> bytes \<Rightarrow> bytes option) \<Rightarrow> 'e ingest_ctx \<Rightarrow> mvcc_kv \<Rightarrow> bool" where
  "stored get c kv \<longleftrightarrow> get (ic_engine c) (mkv_cf kv) (mkv_key kv) = Some (mkv_value kv)"

definition log_ok :: "flush_log \<Rightarrow> bool" where
  "log_ok l \<longleftrightarrow> (\<forall>r \<in> set l. is_ok r)"

lemma log_ok_simps [simp]: "log_ok []" "log_ok (l @ l') \<longleftrightarrow> log_ok l \<and> log_ok l'"
  by (auto simp: log_ok_def)

lemma last_value_agree:
  assumes "kvs_agree P" "set kvs \<subseteq> P" "kv \<in> P" "last_value kvs (mkv_cf kv) (mkv_key kv) = Some v"
  shows "v = mkv_value kv"
proof -
  obtain kv' where kv': "kv' \<in> set kvs" "mkv_cf kv = mkv_cf kv'" "mkv_key kv = mkv_key kv'" "mkv_value kv' = v"
    using map_of_SomeD [OF assms(4) [unfolded last_value_def]] by (auto simp: kv_pair_def)
  moreover have "kv' \<in> P" using kv'(1) assms(2) by blast
  ultimately show ?thesis using assms(1,3) unfolding kvs_agree_def by metis
qed

lemma last_value_in: "kv \<in> set kvs \<Longrightarrow> last_value kvs (mkv_cf kv) (mkv_key kv) \<noteq> None"
proof -
  assume "kv \<in> set kvs"
  then have "mkv_key kv \<in> fst ` set (rev (map kv_pair (filter (\<lambda>x. mkv_cf x = mkv_cf kv) kvs)))"
    by (auto simp: kv_pair_def image_iff intro!: bexI [of _ kv])
  then show ?thesis by (simp add: last_value_def map_of_eq_None_iff del: not_None_eq)
qed

text \<open>The worker's part of the invariant: only pairs of \<open>P\<close> are buffered and no range deletion is.\<close>

definition buffer_ok :: "mvcc_kv set \<Rightarrow> sst_batcher \<Rightarrow> bool" where
  "buffer_ok P b \<longleftrightarrow> set (sb_kv_buffer b) \<subseteq> P \<and> sb_range_buffer b = []"

lemma try_flush_keeps:
  assumes spec: "engine_spec ops get" and order: "\<And>gs. mset (order gs) = mset gs" and agree: "kvs_agree P"
    and b: "buffer_ok P b" and fl: "try_flush ops order now cond (b, c) = (l, b', c')" and l: "log_ok l"
  shows "buffer_ok P b' \<and> (\<forall>kv \<in> P. kv \<in> set (sb_kv_buffer b) \<or> stored get c kv \<longrightarrow>
    kv \<in> set (sb_kv_buffer b') \<or> stored get c' kv)"
proof (cases cond)
  case True
  obtain x where x: "sb_flush ops order now b c = (x, b', c')" "l = [x]"
    using fl True by (auto simp: try_flush_def split: prod.splits)
  then obtain r where r: "sb_flush ops order now b c = (Inr r, b', c')"
    using l by (cases x) (auto simp: log_ok_def)
  have empty: "sb_kv_buffer b' = []" "sb_range_buffer b' = []"
    using r b by (auto simp: sb_flush_def buffer_ok_def Let_def split: if_splits prod.splits sum.splits)
  have "stored get c' kv" if kv: "kv \<in> P" "kv \<in> set (sb_kv_buffer b) \<or> stored get c kv" for kv
  proof (cases "last_value (sb_kv_buffer b) (mkv_cf kv) (mkv_key kv)")
    case None
    then have "stored get c kv" using kv last_value_in by blast
    then show ?thesis using sb_flush_get_kvs [OF spec order _ r] b None by (simp add: stored_def buffer_ok_def)
  next
    case (Some v)
    then have "v = mkv_value kv" using last_value_agree [OF agree _ kv(1) Some] b by (simp add: buffer_ok_def)
    then show ?thesis using sb_flush_get_kvs [OF spec order _ r] b Some by (simp add: stored_def buffer_ok_def)
  qed
  with empty show ?thesis by (simp add: buffer_ok_def)
next
  case False
  then show ?thesis using fl b by (simp add: try_flush_def)
qed

lemma add_kvs_buffer:
  "sb_kv_buffer (fold (\<lambda>kv b. snd (sb_add_kv (kv_of_event kv) b)) kvs b) = sb_kv_buffer b @ map kv_of_event kvs"
  "sb_range_buffer (fold (\<lambda>kv b. snd (sb_add_kv (kv_of_event kv) b)) kvs b) = sb_range_buffer b"
  by (induction kvs arbitrary: b) (simp_all add: sb_add_kv_def Let_def)

definition input_kvs :: "worker_input \<Rightarrow> mvcc_kv list" where
  "input_kvs inp = (case inp of WorkerEvent msg \<Rightarrow> msg_kvs msg | _ \<Rightarrow> [])"

definition input_ok :: "mvcc_kv set \<Rightarrow> worker_input \<Rightarrow> bool" where
  "input_ok P inp \<longleftrightarrow> set (input_kvs inp) \<subseteq> P \<and> (\<forall>msg. inp = WorkerEvent msg \<longrightarrow> \<not> is_delete_range msg)"

lemma worker_step_keeps:
  assumes spec: "engine_spec ops get" and order: "\<And>gs. mset (order gs) = mset gs" and agree: "kvs_agree P"
    and b: "buffer_ok P b" and inp: "input_ok P inp"
    and st: "worker_step ops order now ms inp (b, c) = (l, b', c')" and l: "log_ok l"
  shows "buffer_ok P b' \<and> (\<forall>kv \<in> P. kv \<in> set (input_kvs inp) \<or> kv \<in> set (sb_kv_buffer b) \<or> stored get c kv \<longrightarrow>
    kv \<in> set (sb_kv_buffer b') \<or> stored get c' kv)"
proof -
  note tf = try_flush_keeps [OF spec order agree]
  consider (kvs) ev rid kvs where "inp = WorkerEvent (ev, rid)" "ev_payload ev = Some (KvBatch kvs)"
    | (nop) "worker_step ops order now ms inp (b, c) = ([], b, c)" "input_kvs inp = []"
    | (flush) "worker_step ops order now ms inp (b, c) = try_flush ops order now (pending_kvs b > 0) (b, c)" "input_kvs inp = []"
  proof (cases inp)
    case (WorkerEvent msg)
    obtain ev rid where msg: "msg = (ev, rid)" by (cases msg)
    show ?thesis
      using that inp WorkerEvent
      by (cases "ev_payload ev")
        (auto simp: msg worker_step_def input_kvs_def msg_kvs_def event_kvs_def input_ok_def is_delete_range_def
          split: pcr_payload.splits)
  qed (auto simp: worker_step_def input_kvs_def intro: that)
  then show ?thesis
  proof cases
    case kvs
    obtain l1 b1 c1 where 1: "try_flush ops order now
        (sb_current_region_id b \<noteq> rid \<and> sb_should_flush RangeBoundary b) (b, c) = (l1, b1, c1)"
      by (rule prod_cases3)
    define b2 where "b2 = fold (\<lambda>kv b. snd (sb_add_kv (kv_of_event kv) b)) kvs (b1\<lparr>sb_current_region_id := rid\<rparr>)"
    obtain l2 where 2: "try_flush ops order now
        (sb_should_flush BufferFull b2 \<or> ms > 0 \<and> elapsed_since_last_flush now b2 \<ge> ms) (b2, c1) = (l2, b', c')"
      and ll: "l = l1 @ l2"
      using st kvs 1 by (auto simp: worker_step_def b2_def Let_def split: prod.splits)
    have new: "input_kvs inp = map kv_of_event kvs" by (simp add: kvs input_kvs_def msg_kvs_def event_kvs_def)
    have f1: "buffer_ok P b1 \<and> (\<forall>kv \<in> P. kv \<in> set (sb_kv_buffer b) \<or> stored get c kv \<longrightarrow>
        kv \<in> set (sb_kv_buffer b1) \<or> stored get c1 kv)"
      using tf [OF b 1] l ll by simp
    have "buffer_ok P b2" using f1 inp new by (simp add: buffer_ok_def b2_def add_kvs_buffer input_ok_def)
    from tf [OF this 2] l ll f1 show ?thesis by (auto simp: b2_def add_kvs_buffer new)
  next
    case nop
    then show ?thesis using st b by simp
  next
    case flush
    then show ?thesis using tf [OF b, of now "pending_kvs b > 0" c l b' c'] st l by simp
  qed
qed

lemma set_list_update_old: "x \<in> set xs \<Longrightarrow> i < length xs \<Longrightarrow> x = xs ! i \<or> x \<in> set (xs[i := y])"
  by (metis in_set_conv_nth length_list_update nth_list_update_neq)

definition queued :: "('f, 'p) pcr_components \<Rightarrow> mvcc_kv \<Rightarrow> bool" where
  "queued pc kv \<longleftrightarrow> (\<exists>w \<in> set (pc_workers pc). \<exists>msg \<in> set (pw_queue w). kv \<in> set (msg_kvs msg))"

definition buffered :: "('e, 'f, 'p) pcr_system \<Rightarrow> mvcc_kv \<Rightarrow> bool" where
  "buffered s kv \<longleftrightarrow> (\<exists>b \<in> set (sy_batchers s). kv \<in> set (sb_kv_buffer b))"

definition msg_ok :: "mvcc_kv set \<Rightarrow> pcr_msg \<Rightarrow> bool" where
  "msg_ok P msg \<longleftrightarrow> set (msg_kvs msg) \<subseteq> P \<and> \<not> is_delete_range msg"

definition queues_ok :: "mvcc_kv set \<Rightarrow> ('f, 'p) pcr_components \<Rightarrow> bool" where
  "queues_ok P pc \<longleftrightarrow> pc_workers pc \<noteq> [] \<and> (\<forall>w \<in> set (pc_workers pc). \<forall>msg \<in> set (pw_queue w). msg_ok P msg)"

definition sys_inv :: "mvcc_kv set \<Rightarrow> ('e, 'f, 'p) pcr_system \<Rightarrow> bool" where
  "sys_inv P s \<longleftrightarrow> queues_ok P (sy_components s) \<and> (\<forall>b \<in> set (sy_batchers s). buffer_ok P b)"

lemma handle_data_event_workers:
  assumes "pc_workers pc \<noteq> []"
  obtains i where "i < length (pc_workers pc)" "pc_workers (handle_data_event msg pc) =
    (pc_workers pc)[i := (pc_workers pc ! i)\<lparr>pw_queue := pw_queue (pc_workers pc ! i) @ [msg]\<rparr>]"
proof (cases "snd msg = 0")
  case True
  then show ?thesis
    using that [of "unat (pc_next pc) mod length (pc_workers pc)"] assms by (simp add: handle_data_event_def Let_def)
next
  case False
  then show ?thesis
    using that [of "unat (snd msg) mod length (pc_workers pc)"] assms by (simp add: handle_data_event_def Let_def)
qed

lemma handle_data_event_queues:
  assumes "queues_ok P pc" "msg_ok P msg"
  shows "queues_ok P (handle_data_event msg pc)"
    and "queued pc kv \<or> kv \<in> set (msg_kvs msg) \<Longrightarrow> queued (handle_data_event msg pc) kv"
proof -
  have ne: "pc_workers pc \<noteq> []" using assms(1) by (simp add: queues_ok_def)
  obtain i where i: "i < length (pc_workers pc)" "pc_workers (handle_data_event msg pc) =
    (pc_workers pc)[i := (pc_workers pc ! i)\<lparr>pw_queue := pw_queue (pc_workers pc ! i) @ [msg]\<rparr>]"
    using handle_data_event_workers [OF ne] .
  let ?w = "(pc_workers pc ! i)\<lparr>pw_queue := pw_queue (pc_workers pc ! i) @ [msg]\<rparr>"
  have old: "pc_workers pc ! i \<in> set (pc_workers pc)" using i(1) by simp
  have "msg_ok P m" if "w \<in> set (pc_workers (handle_data_event msg pc))" "m \<in> set (pw_queue w)" for w m
  proof -
    have "w = ?w \<or> w \<in> set (pc_workers pc)"
      using that(1) set_update_subset_insert [of "pc_workers pc" i ?w] unfolding i(2) by blast
    then show ?thesis using that(2) assms old by (auto simp: queues_ok_def)
  qed
  then show "queues_ok P (handle_data_event msg pc)" using ne by (auto simp: queues_ok_def i(2))
  have new: "?w \<in> set (pc_workers (handle_data_event msg pc))"
    using i by (simp add: set_update_memI)
  show "queued (handle_data_event msg pc) kv" if "queued pc kv \<or> kv \<in> set (msg_kvs msg)"
    using that
  proof
    assume "kv \<in> set (msg_kvs msg)"
    with new show ?thesis unfolding queued_def by (intro bexI [of _ ?w]) auto
  next
    assume "queued pc kv"
    then obtain w m where w: "w \<in> set (pc_workers pc)" "m \<in> set (pw_queue w)" "kv \<in> set (msg_kvs m)"
      unfolding queued_def by blast
    then have "w = pc_workers pc ! i \<or> w \<in> set (pc_workers (handle_data_event msg pc))"
      using set_list_update_old [OF w(1) i(1)] i(2) by metis
    then show ?thesis
    proof
      assume "w = pc_workers pc ! i"
      then show ?thesis using w new unfolding queued_def by (intro bexI [of _ ?w] bexI [of _ m]) auto
    qed (use w in \<open>auto simp: queued_def\<close>)
  qed
qed

lemma fold_keeps: "(\<And>x st. f (g x st) = f st) \<Longrightarrow> f (fold g xs st) = f st"
  by (induction xs arbitrary: st) simp_all

lemma subscribe_steps_workers [simp]:
  "pc_workers (subscribe_child ts rid pc) = pc_workers pc"
  "pc_workers (forget_region rid pc) = pc_workers pc"
  "pc_workers (rediscover_new ts ch pc) = pc_workers pc"
  "pc_workers (rediscover_removed ch pc) = pc_workers pc"
  "pc_workers (subscribe_span_region t r pc) = pc_workers pc"
  by (simp_all add: subscribe_child_def forget_region_def rediscover_new_def rediscover_removed_def
      subscribe_span_region_def Let_def split: topology_change.splits prod.splits sum.splits)

lemma fold_steps_workers [simp]:
  "pc_workers (fold (subscribe_child ts) rids pc) = pc_workers pc"
  "pc_workers (fold forget_region rids pc) = pc_workers pc"
  "pc_workers (fold (rediscover_new ts) chs pc) = pc_workers pc"
  "pc_workers (fold rediscover_removed chs pc) = pc_workers pc"
  "pc_workers (fold (subscribe_span_region t) rs pc) = pc_workers pc"
  by (simp_all add: fold_keeps [where f = pc_workers])

lemma discover_span_workers [simp]: "pc_workers (discover_span env span pc) = pc_workers pc"
  by (simp add: discover_span_def split: sum.splits)

lemma loop_ticks_workers [simp]:
  "pc_workers (rediscover env pc) = pc_workers pc"
  "pc_workers (ddl_discover env pc) = pc_workers pc"
  "pc_workers (finish_event_loop env pc) = pc_workers pc"
  by (simp_all add: rediscover_def ddl_discover_def finish_event_loop_def Let_def case_prod_unfold
      fold_keeps [where f = pc_workers])

lemma handle_control_event_workers:
  "is_control (fst msg) \<Longrightarrow> pc_workers (snd (handle_control_event env msg pc)) = pc_workers pc"
  by (auto simp: handle_control_event_def is_control_def Let_def case_prod_unfold
      split: option.splits pcr_payload.splits sum.splits)

lemma loop_step_workers:
  "pc_workers (snd (loop_step dbg env inp pc)) =
    (case inp of EventIn (Some msg) \<Rightarrow> if is_control (fst msg) then pc_workers pc else pc_workers (handle_data_event msg pc)
     | _ \<Rightarrow> pc_workers pc)"
  by (simp add: loop_step_def handle_control_event_workers case_prod_unfold Let_def split: loop_input.splits option.splits)

definition covered ::
  "('e \<Rightarrow> string \<Rightarrow> bytes \<Rightarrow> bytes option) \<Rightarrow> ('e, 'f, 'p) pcr_system \<Rightarrow> mvcc_kv \<Rightarrow> bool" where
  "covered get s kv \<longleftrightarrow> queued (sy_components s) kv \<or> buffered s kv \<or> stored get (sy_ctx s) kv"

lemma run_worker_keeps:
  assumes spec: "engine_spec ops get" and order: "\<And>gs. mset (order gs) = mset gs" and agree: "kvs_agree P"
    and b: "\<forall>b \<in> set (sy_batchers s). buffer_ok P b" and i: "i < length (sy_batchers s)" and inp: "input_ok P w"
    and l: "log_ok (sy_log (run_worker ops order now ms i w s))"
  shows "(\<forall>b \<in> set (sy_batchers (run_worker ops order now ms i w s)). buffer_ok P b)"
    and "kv \<in> P \<Longrightarrow> kv \<in> set (input_kvs w) \<or> buffered s kv \<or> stored get (sy_ctx s) kv \<Longrightarrow>
      buffered (run_worker ops order now ms i w s) kv \<or> stored get (sy_ctx (run_worker ops order now ms i w s)) kv"
    and "sy_components (run_worker ops order now ms i w s) = sy_components s"
proof -
  let ?b = "sy_batchers s ! i"
  obtain l' b' c' where st: "worker_step ops order now ms w (?b, sy_ctx s) = (l', b', c')" by (rule prod_cases3)
  have s': "run_worker ops order now ms i w s = s\<lparr>sy_batchers := (sy_batchers s)[i := b'], sy_ctx := c', sy_log := sy_log s @ l'\<rparr>"
    by (simp add: run_worker_def st)
  have bi: "buffer_ok P ?b" using b i by simp
  have "log_ok l'" using l by (simp add: s')
  note k = worker_step_keeps [OF spec order agree bi inp st this]
  have mem: "b' \<in> set ((sy_batchers s)[i := b'])" using i by (simp add: set_update_memI)
  show "\<forall>b \<in> set (sy_batchers (run_worker ops order now ms i w s)). buffer_ok P b"
    using set_update_subset_insert [of "sy_batchers s" i b'] b k by (auto simp: s')
  show "sy_components (run_worker ops order now ms i w s) = sy_components s" by (simp add: s')
  assume P: "kv \<in> P" and h: "kv \<in> set (input_kvs w) \<or> buffered s kv \<or> stored get (sy_ctx s) kv"
  show "buffered (run_worker ops order now ms i w s) kv \<or> stored get (sy_ctx (run_worker ops order now ms i w s)) kv"
  proof (cases "kv \<in> set (input_kvs w) \<or> kv \<in> set (sb_kv_buffer ?b) \<or> stored get (sy_ctx s) kv")
    case True
    then have "kv \<in> set (sb_kv_buffer b') \<or> stored get c' kv" using k P by blast
    then show ?thesis using mem by (auto simp: s' buffered_def)
  next
    case False
    then obtain b where "b \<in> set (sy_batchers s)" "kv \<in> set (sb_kv_buffer b)" "b \<noteq> ?b"
      using h by (auto simp: buffered_def)
    then show ?thesis using set_list_update_old [OF _ i, of b b'] by (auto simp: s' buffered_def)
  qed
qed

lemma take_msg_keeps:
  assumes "queues_ok P (sy_components s)" "i < length (pc_workers (sy_components s))"
    and "pw_queue (pc_workers (sy_components s) ! i) = m # ms"
  shows "queues_ok P (sy_components (take_msg i s))" "msg_ok P m"
    and "queued (sy_components s) kv \<Longrightarrow> kv \<in> set (msg_kvs m) \<or> queued (sy_components (take_msg i s)) kv"
proof -
  let ?ws = "pc_workers (sy_components s)"
  let ?w = "(?ws ! i)\<lparr>pw_queue := ms\<rparr>"
  have ws: "pc_workers (sy_components (take_msg i s)) = ?ws[i := ?w]" by (simp add: take_msg_def Let_def assms(3))
  have old: "?ws ! i \<in> set ?ws" using assms(2) by simp
  have new: "?w \<in> set (?ws[i := ?w])" using assms(2) by (simp add: set_update_memI)
  show "msg_ok P m" using assms(1,3) old unfolding queues_ok_def by (metis list.set_intros(1))
  have "msg_ok P x" if "w \<in> set (?ws[i := ?w])" "x \<in> set (pw_queue w)" for w x
  proof -
    have "w = ?w \<or> w \<in> set ?ws" using that(1) set_update_subset_insert [of ?ws i ?w] by blast
    moreover have "\<forall>x \<in> set ms. msg_ok P x" using assms(1,3) old by (auto simp: queues_ok_def)
    ultimately show ?thesis using that(2) assms(1) by (auto simp: queues_ok_def)
  qed
  then show "queues_ok P (sy_components (take_msg i s))" using assms(1) by (auto simp: queues_ok_def ws)
  assume "queued (sy_components s) kv"
  then obtain w x where w: "w \<in> set ?ws" "x \<in> set (pw_queue w)" "kv \<in> set (msg_kvs x)" unfolding queued_def by blast
  then show "kv \<in> set (msg_kvs m) \<or> queued (sy_components (take_msg i s)) kv"
    using set_list_update_old [OF w(1) assms(2), of ?w] new assms(3) unfolding queued_def ws by fastforce
qed

lemma take_msg_fields [simp]:
  "sy_batchers (take_msg i s) = sy_batchers s" "sy_ctx (take_msg i s) = sy_ctx s"
  "sy_running (take_msg i s) = sy_running s" "sy_log (take_msg i s) = sy_log s"
  by (simp_all add: take_msg_def Let_def)

lemma run_worker_log: "\<exists>l. sy_log (run_worker ops order now ms i w s) = sy_log s @ l"
  by (simp add: run_worker_def case_prod_unfold Let_def)

lemma run_worker_running [simp]: "sy_running (run_worker ops order now ms i w s) = sy_running s"
  by (simp add: run_worker_def case_prod_unfold Let_def)

lemma sys_step_log: "\<exists>l. sy_log (sys_step dbg env ops order now input s) = sy_log s @ l"
proof -
  have "\<exists>l. sy_log (run_worker ops order now ms i w (take_msg j s)) = sy_log s @ l" for ms i w j
    using run_worker_log [of ops order now ms i w "take_msg j s"] by simp
  then show ?thesis
    using run_worker_log [of ops order now] by (cases input) (auto simp: sys_step_def Let_def split: prod.splits)
qed

definition sys_input_ok :: "mvcc_kv set \<Rightarrow> sys_input \<Rightarrow> bool" where
  "sys_input_ok P input \<longleftrightarrow> (\<forall>msg. input = LoopStep (EventIn (Some msg)) \<longrightarrow> msg_ok P msg)"

lemma control_no_kvs: "is_control (fst msg) \<Longrightarrow> msg_kvs msg = []"
  by (auto simp: is_control_def msg_kvs_def event_kvs_def split: option.splits pcr_payload.splits)

lemma queued_workers: "pc_workers pc = pc_workers pc' \<Longrightarrow> queued pc kv = queued pc' kv"
  by (simp add: queued_def)

lemma queues_ok_workers: "pc_workers pc = pc_workers pc' \<Longrightarrow> queues_ok P pc = queues_ok P pc'"
  by (simp add: queues_ok_def)

lemma loop_step_keeps:
  assumes "queues_ok P pc" "sys_input_ok P (LoopStep inp)"
  shows "queues_ok P (snd (loop_step dbg env inp pc))"
    and "queued pc kv \<Longrightarrow> queued (snd (loop_step dbg env inp pc)) kv"
    and "inp = EventIn (Some msg) \<Longrightarrow> kv \<in> set (msg_kvs msg) \<Longrightarrow> queued (snd (loop_step dbg env inp pc)) kv"
proof -
  have *: "queues_ok P (snd (loop_step dbg env inp pc))
    \<and> (queued pc kv \<longrightarrow> queued (snd (loop_step dbg env inp pc)) kv)
    \<and> (inp = EventIn (Some msg) \<longrightarrow> kv \<in> set (msg_kvs msg) \<longrightarrow> queued (snd (loop_step dbg env inp pc)) kv)"
  proof (cases "\<exists>m. inp = EventIn (Some m) \<and> \<not> is_control (fst m)")
    case True
    then obtain m where m: "inp = EventIn (Some m)" "\<not> is_control (fst m)" by blast
    then have "pc_workers (snd (loop_step dbg env inp pc)) = pc_workers (handle_data_event m pc)"
      by (simp add: loop_step_workers)
    note w = queued_workers [OF this] queues_ok_workers [OF this]
    have "msg_ok P m" using assms(2) m by (simp add: sys_input_ok_def)
    from handle_data_event_queues [OF assms(1) this] show ?thesis unfolding w using m(1) by auto
  next
    case False
    then have "pc_workers (snd (loop_step dbg env inp pc)) = pc_workers pc"
      by (auto simp: loop_step_workers split: loop_input.splits option.splits)
    note w = queued_workers [OF this] queues_ok_workers [OF this]
    have "inp = EventIn (Some msg) \<Longrightarrow> msg_kvs msg = []" using False control_no_kvs [of msg] by auto
    then show ?thesis unfolding w using assms(1) by auto
  qed
  show "queues_ok P (snd (loop_step dbg env inp pc))" using * by blast
  show "queued pc kv \<Longrightarrow> queued (snd (loop_step dbg env inp pc)) kv" using * by blast
  show "inp = EventIn (Some msg) \<Longrightarrow> kv \<in> set (msg_kvs msg) \<Longrightarrow> queued (snd (loop_step dbg env inp pc)) kv" using * by blast
qed

lemma worker_inputs_ok [simp]: "input_ok P WorkerIdle" "input_ok P WorkerClosed" "msg_ok P m \<Longrightarrow> input_ok P (WorkerEvent m)"
  by (simp_all add: input_ok_def input_kvs_def msg_ok_def)

lemma sys_step_keeps:
  assumes spec: "engine_spec ops get" and order: "\<And>gs. mset (order gs) = mset gs" and agree: "kvs_agree P"
    and inv: "sys_inv P s" and inp: "sys_input_ok P input"
    and l: "log_ok (sy_log (sys_step dbg env ops order now input s))"
  shows "sys_inv P (sys_step dbg env ops order now input s)
    \<and> (kv \<in> P \<longrightarrow> covered get s kv \<or>
        (sy_running s \<and> (\<exists>msg. input = LoopStep (EventIn (Some msg)) \<and> kv \<in> set (msg_kvs msg)))
      \<longrightarrow> covered get (sys_step dbg env ops order now input s) kv)"
proof -
  note run = run_worker_keeps [OF spec order agree]
  have q: "queues_ok P (sy_components s)" and b: "\<forall>b \<in> set (sy_batchers s). buffer_ok P b"
    using inv by (simp_all add: sys_inv_def)
  have idle: "sys_inv P (run_worker ops order now ms i w s)
      \<and> (kv \<in> P \<longrightarrow> covered get s kv \<longrightarrow> covered get (run_worker ops order now ms i w s) kv)"
    if h: "i < length (sy_batchers s)" "w = WorkerIdle \<or> w = WorkerClosed"
      "log_ok (sy_log (run_worker ops order now ms i w s))" for i w ms
  proof -
    have w: "input_ok P w" using h(2) by auto
    show ?thesis
      using run(1,3) [OF b h(1) w h(3)] run(2) [OF b h(1) w h(3), of kv] q by (auto simp: sys_inv_def covered_def)
  qed
  show ?thesis
  proof (cases input)
    case (LoopStep inp')
    show ?thesis
    proof (cases "sy_running s")
      case True
      obtain leave pc where ls: "loop_step dbg env inp' (sy_components s) = (leave, pc)" by fastforce
      have s': "sys_step dbg env ops order now input s =
          (if leave then s\<lparr>sy_components := finish_event_loop env pc, sy_running := False\<rparr> else s\<lparr>sy_components := pc\<rparr>)"
        using True by (simp add: sys_step_def LoopStep ls)
      have ws: "queued (finish_event_loop env pc) x = queued pc x" "queues_ok P (finish_event_loop env pc) = queues_ok P pc" for x
        by (rule queued_workers, simp) (rule queues_ok_workers, simp)
      note k = loop_step_keeps [OF q inp [unfolded LoopStep], where dbg = dbg and env = env, unfolded ls snd_conv]
      have "sys_inv P (sys_step dbg env ops order now input s)" using b k(1) by (auto simp: s' sys_inv_def ws)
      moreover have "covered get (sys_step dbg env ops order now input s) kv"
        if "covered get s kv \<or> (\<exists>msg. inp' = EventIn (Some msg) \<and> kv \<in> set (msg_kvs msg))"
        using that k(2) [of kv] k(3) [of _ kv] by (auto simp: s' covered_def ws buffered_def)
      ultimately show ?thesis by (auto simp: LoopStep)
    qed (use inv in \<open>simp add: sys_step_def LoopStep\<close>)
  next
    case (SetCutover ts)
    have "queued (sy_components s\<lparr>pc_cutover_ts := ts\<rparr>) x = queued (sy_components s) x"
      "queues_ok P (sy_components s\<lparr>pc_cutover_ts := ts\<rparr>) = queues_ok P (sy_components s)" for x
      by (rule queued_workers, simp) (rule queues_ok_workers, simp)
    then show ?thesis using inv by (auto simp: sys_step_def SetCutover sys_inv_def covered_def buffered_def)
  next
    case (WorkerTake i)
    show ?thesis
    proof (cases "i < length (sy_batchers s) \<and> i < length (pc_workers (sy_components s))
        \<and> pw_queue (pc_workers (sy_components s) ! i) \<noteq> []")
      case True
      then obtain m ms where m: "pw_queue (pc_workers (sy_components s) ! i) = m # ms"
        by (cases "pw_queue (pc_workers (sy_components s) ! i)") auto
      note t = take_msg_keeps(1,2) [OF q _ m] take_msg_keeps(3) [OF q _ m, of kv]
      have s': "sys_step dbg env ops order now input s =
          run_worker ops order now (pc_flush_interval_ms (sy_components s)) i (WorkerEvent m) (take_msg i s)"
        using True by (simp add: sys_step_def WorkerTake m)
      have "buffered (take_msg i s) kv = buffered s kv" by (simp add: buffered_def)
      moreover have "\<forall>b \<in> set (sy_batchers (take_msg i s)). buffer_ok P b" using b by simp
      note r = run(1,3) [OF this _ worker_inputs_ok(3) [OF t(2)] l [unfolded s']]
        run(2) [OF this _ worker_inputs_ok(3) [OF t(2)] l [unfolded s'], of kv]
      ultimately show ?thesis
        unfolding s' using True t r by (auto simp: WorkerTake sys_inv_def covered_def input_kvs_def)
    qed (use inv in \<open>auto simp: sys_step_def WorkerTake\<close>)
  next
    case (WorkerTimeout i)
    then show ?thesis
      using idle [of i WorkerIdle "pc_flush_interval_ms (sy_components s)"] l inv
      by (auto simp: sys_step_def Let_def split: if_splits)
  next
    case (WorkerClose i)
    then show ?thesis
      using idle [of i WorkerClosed "pc_flush_interval_ms (sy_components s)"] l inv
      by (auto simp: sys_step_def Let_def split: if_splits)
  qed
qed

text \<open>A run: at every step the environment and the time the step happens.\<close>

fun run_system ::
  "(si_error \<Rightarrow> string) \<Rightarrow> 'e engine_ops \<Rightarrow> ((string \<times> mvcc_kv list) list \<Rightarrow> (string \<times> mvcc_kv list) list)
     \<Rightarrow> (('f, 'j, 'p) loop_env \<times> nat \<times> sys_input) list \<Rightarrow> ('e, 'f, 'p) pcr_system \<Rightarrow> ('e, 'f, 'p) pcr_system" where
  "run_system dbg ops order [] s = s"
| "run_system dbg ops order ((env, now, input) # steps) s =
    run_system dbg ops order steps (sys_step dbg env ops order now input s)"

lemma run_system_append:
  "run_system dbg ops order (steps @ steps') s = run_system dbg ops order steps' (run_system dbg ops order steps s)"
  by (induction steps arbitrary: s) auto

lemma run_system_log: "\<exists>l. sy_log (run_system dbg ops order steps s) = sy_log s @ l"
proof (induction steps arbitrary: s)
  case (Cons x steps)
  obtain env now input where x: "x = (env, now, input)" by (cases x)
  show ?case
    using Cons [of "sys_step dbg env ops order now input s"] sys_step_log [of dbg env ops order now input s]
    by (auto simp: x)
qed simp

lemma run_system_keeps:
  assumes spec: "engine_spec ops get" and order: "\<And>gs. mset (order gs) = mset gs" and agree: "kvs_agree P"
  shows "sys_inv P s \<Longrightarrow> \<forall>(env, now, input) \<in> set steps. sys_input_ok P input \<Longrightarrow>
    log_ok (sy_log (run_system dbg ops order steps s)) \<Longrightarrow>
    sys_inv P (run_system dbg ops order steps s)
    \<and> (kv \<in> P \<longrightarrow> covered get s kv \<longrightarrow> covered get (run_system dbg ops order steps s) kv)"
proof (induction steps arbitrary: s)
  case (Cons x steps)
  obtain env now input where x: "x = (env, now, input)" by (cases x)
  let ?s = "sys_step dbg env ops order now input s"
  have "log_ok (sy_log ?s)" using Cons.prems(3) run_system_log [of dbg ops order steps ?s] by (auto simp: x)
  then have "sys_inv P ?s \<and> (kv \<in> P \<longrightarrow> covered get s kv \<longrightarrow> covered get ?s kv)"
    using sys_step_keeps [OF spec order agree Cons.prems(1), of input dbg env now kv] Cons.prems(2) by (auto simp: x)
  then show ?case using Cons.IH [of ?s] Cons.prems by (auto simp: x)
qed simp

text \<open>The messages the loop receives in a run.\<close>

definition received :: "('n \<times> nat \<times> sys_input) list \<Rightarrow> pcr_msg set" where
  "received steps = {msg. \<exists>env now. (env, now, LoopStep (EventIn (Some msg))) \<in> set steps}"

lemma start_system_inv:
  assumes "start_system now pc c = Some s" "pc_workers pc \<noteq> []" "\<forall>w \<in> set (pc_workers pc). pw_queue w = []"
  shows "sys_inv P s" "sy_log s = []"
  using assms
  by (auto simp: start_system_def start_event_loop_def subscribe_span_def Let_def sys_inv_def queues_ok_def
      buffer_ok_def sst_batcher_new_def split: sum.splits prod.splits if_splits)

lemma pipeline_covers:
  assumes "engine_spec ops get" "\<And>gs. mset (order gs) = mset gs"
    and "start_system now0 pc c = Some s0" "pc_workers pc \<noteq> []" "\<forall>w \<in> set (pc_workers pc). pw_queue w = []"
    and "steps = before @ (env, now, LoopStep (EventIn (Some msg))) # after"
    and "sy_running (run_system dbg ops order before s0)"
    and "kvs_agree (\<Union>m \<in> received steps. set (msg_kvs m))" "\<forall>m \<in> received steps. \<not> is_delete_range m"
    and "log_ok (sy_log (run_system dbg ops order steps s0))"
    and "kv \<in> set (msg_kvs msg)"
  shows "covered get (run_system dbg ops order steps s0) kv"
proof -
  define P where "P = (\<Union>m \<in> received steps. set (msg_kvs m))"
  note keeps = run_system_keeps [OF assms(1,2), of P, OF assms(8) [folded P_def]]
  have ok: "sys_input_ok P input" if "(e, n, input) \<in> set steps" for e n input
    using that assms(9) by (fastforce simp: sys_input_ok_def msg_ok_def P_def received_def)
  have msg: "msg \<in> received steps" by (auto simp: received_def assms(6))
  then have kv: "kv \<in> P" using assms(11) by (auto simp: P_def)
  let ?s1 = "run_system dbg ops order before s0"
  let ?s2 = "sys_step dbg env ops order now (LoopStep (EventIn (Some msg))) ?s1"
  have all: "run_system dbg ops order steps s0 = run_system dbg ops order after ?s2"
    by (simp add: assms(6) run_system_append)
  then have l2: "log_ok (sy_log ?s2)" using assms(10) run_system_log [of dbg ops order after ?s2] by auto
  then have l1: "log_ok (sy_log ?s1)"
    using sys_step_log [of dbg env ops order now "LoopStep (EventIn (Some msg))" ?s1] by auto
  have inv0: "sys_inv P s0" using start_system_inv(1) [OF assms(3-5)] .
  have inv1: "sys_inv P ?s1" using keeps [OF inv0 _ l1] ok by (auto simp: assms(6))
  have inv2: "sys_inv P ?s2 \<and> covered get ?s2 kv"
    using sys_step_keeps [OF assms(1,2) assms(8) [folded P_def] inv1 _ l2] ok [of env now] assms(6,7,11) kv by auto
  have "\<forall>(env, now, input) \<in> set after. sys_input_ok P input" using ok by (auto simp: assms(6))
  then show ?thesis
    using keeps [of ?s2 after dbg kv] inv2 assms(10) kv unfolding all by blast
qed

text \<open>C3: no pair is lost on the way to the engine.  Start the loop and its workers on empty queues and let them
  run in any interleaving, with any mixture of events, ticks, cancellation and cutover, but without range
  deletions.  Provided that every flush succeeds and that a key always comes with the same value, every
  pair of a message received while the loop runs is, at any later moment, waiting in a worker's queue,
  buffered in a worker, or stored in the engine.\<close>

theorem ingest_pipeline_complete:
  assumes "engine_spec ops get" "\<And>gs. mset (order gs) = mset gs"
    and "start_system now0 pc c = Some s0" "pc_workers pc \<noteq> []" "\<forall>w \<in> set (pc_workers pc). pw_queue w = []"
    and "steps = before @ (env, now, LoopStep (EventIn (Some msg))) # after"
    and "sy_running (run_system dbg ops order before s0)"
    and "kvs_agree (\<Union>m \<in> received steps. set (msg_kvs m))" "\<forall>m \<in> received steps. \<not> is_delete_range m"
    and "log_ok (sy_log (run_system dbg ops order steps s0))"
    and "kv \<in> set (msg_kvs msg)"
  shows "covered get (run_system dbg ops order steps s0) kv"
  by (rule pipeline_covers [OF assms])

lemma start_fresh_system:
  "start_system now (create_components now cfg spd cts subs nid nxt f p posts) c = Some
    \<lparr>sy_components = (create_components now cfg spd cts subs nid nxt f p posts)
        \<lparr>pc_subscriber := snd (subscribe_span [] [] 0 (set_source_pd (case spd of None \<Rightarrow> [] | Some pd \<Rightarrow> pd)
            (set_shared_client (subscriber_new nid)))),
         pc_span_mode := True, pc_workers := replicate INGEST_WORKERS \<lparr>pw_queue = [], pw_has_rx = False\<rparr>\<rparr>,
     sy_batchers = replicate INGEST_WORKERS (sst_batcher_new now (cf_max_kv_buffer_size cfg) (cf_max_range_key_buffer_size cfg)),
     sy_ctx = c, sy_running = True, sy_log = []\<rparr>"
  by (simp add: start_system_def start_event_loop_def create_components_def subscribe_span_def set_source_pd_def
      set_shared_client_def sst_batcher_new_def list_all_iff map_replicate Let_def)

theorem ingest_pipeline_complete_witness:
  "\<exists>s0. start_system 0 example_components (ingest_ctx_new (\<lambda>_ _. None)) = Some s0
    \<and> covered (\<lambda>e. e) (run_system (\<lambda>_. []) one_pair_ops (\<lambda>gs. gs)
        [(example_env, 3, LoopStep (EventIn (Some (mk_event (KvBatch [mk_kv [1] [2] OpPut ''write'']), 0))))] s0)
      (kv_of_event (mk_kv [1] [2] OpPut ''write''))"
proof -
  let ?msg = "(mk_event (KvBatch [mk_kv [1] [2] OpPut ''write'']), 0) :: pcr_msg"
  let ?steps = "[(example_env, 3 :: nat, LoopStep (EventIn (Some ?msg)))]"
  obtain s0 where s0: "start_system 0 example_components (ingest_ctx_new (\<lambda>(_ :: string) (_ :: bytes). None :: bytes option)) = Some s0"
    "sy_running s0" "sy_log s0 = []"
    by (simp add: example_components_def start_fresh_system)
  have rec: "received ?steps = {?msg}" by (auto simp: received_def)
  have kvs: "msg_kvs ?msg = [kv_of_event (mk_kv [1] [2] OpPut ''write'')]" by (simp add: msg_kvs_def)
  have "pc_workers example_components \<noteq> []" "\<forall>w \<in> set (pc_workers example_components). pw_queue w = []"
    by (simp_all add: example_components_def create_components_def INGEST_WORKERS_def)
  moreover have "kvs_agree (\<Union>m \<in> received ?steps. set (msg_kvs m))"
    unfolding rec by (simp add: kvs kvs_agree_def)
  moreover have "\<forall>m \<in> received ?steps. \<not> is_delete_range m"
    unfolding rec by (simp add: is_delete_range_def mk_event_def)
  moreover have "log_ok (sy_log (run_system (\<lambda>_. []) one_pair_ops (\<lambda>gs. gs) ?steps s0))"
    using s0(2,3) by (simp add: sys_step_def loop_step_def is_control_def mk_event_def)
  ultimately have "covered (\<lambda>e. e) (run_system (\<lambda>_. []) one_pair_ops (\<lambda>gs. gs) ?steps s0)
      (kv_of_event (mk_kv [1] [2] OpPut ''write''))"
    using ingest_pipeline_complete [OF one_pair_spec _ s0(1), of "\<lambda>gs. gs" ?steps "[]" example_env 3 ?msg "[]"
        "\<lambda>_. []" "kv_of_event (mk_kv [1] [2] OpPut ''write'')"] s0(2) by (simp add: kvs)
  with s0(1) show ?thesis by blast
qed

section \<open>Checkpoints and data\<close>

lemma add_kvs_fields:
  "sb_kv_buffer_size (fold (\<lambda>kv b. snd (sb_add_kv (kv_of_event kv) b)) kvs b) =
    sb_kv_buffer_size b + sum_list (map kv_bytes kvs)"
  "sb_max_kv_buffer_size (fold (\<lambda>kv b. snd (sb_add_kv (kv_of_event kv) b)) kvs b) = sb_max_kv_buffer_size b"
  "sb_last_flush_time (fold (\<lambda>kv b. snd (sb_add_kv (kv_of_event kv) b)) kvs b) = sb_last_flush_time b"
  by (induction kvs arbitrary: b)
    (simp_all add: sb_add_kv_def Let_def kv_bytes_def kv_of_event_def update_current_range_def)

lemma small_batch_not_flushed:
  assumes "sb_kv_buffer b = []" "ev_payload ev = Some (KvBatch kvs)"
    and "sb_kv_buffer_size b + sum_list (map kv_bytes kvs) < sb_max_kv_buffer_size b"
    and "ms = 0 \<or> now - sb_last_flush_time b < ms"
  shows "\<exists>b'. worker_step ops order now ms (WorkerEvent (ev, rid)) (b, c) = ([], b', c)"
  using assms
  by (auto simp: worker_step_def try_flush_def add_kvs_fields elapsed_since_last_flush_def Let_def)

lemma record_progress_single:
  assumes "durable_env env" "cm_last_recorded_ts (pc_checkpoint_mgr pc) \<noteq> Some ts" "pc_frontier pc = [(r, ts)]"
  shows "load_checkpoint env (pc_file (snd (record_progress env pc))) = Inr [(r, ts)]
    \<and> cm_last_recorded_ts (pc_checkpoint_mgr (snd (record_progress env pc))) = Some ts"
proof -
  have "bt_wf [(r, ts)]" by (simp add: bt_wf_Cons)
  then obtain j where j: "ce_to_json env [(r, ts)] = Some j" "ce_from_json env j = Some [(r, ts)]"
    using assms(1) unfolding durable_env_def by blast
  have "fst (fo_write (ce_files env) j (pc_file pc))" using assms(1) by (simp add: durable_env_def)
  then obtain f' where f': "fo_write (ce_files env) j (pc_file pc) = (True, f')"
    by (cases "fo_write (ce_files env) j (pc_file pc)") simp
  then have "fo_read (ce_files env) f' = FileData j"
    using assms(1) by (auto simp: durable_env_def file_spec_def)
  then show ?thesis
    using assms(2,3) j f'
    by (simp add: record_progress_def record_checkpoint_def global_min_ts_def bt_values_def load_checkpoint_def
        case_prod_unfold Let_def)
qed

lemma record_progress_again:
  "pc_frontier pc = [(r, ts)] \<Longrightarrow> cm_last_recorded_ts (pc_checkpoint_mgr pc) = Some ts \<Longrightarrow>
    record_progress env pc = (Inr (), pc)"
  by (simp add: record_progress_def record_checkpoint_def global_min_ts_def bt_values_def)

text \<open>C7: a checkpoint can overtake the data it covers.  A fresh loop receives a small batch of pairs, a worker
  takes and buffers it, then the loop receives a checkpoint.  The checkpoint is already on disk, and a
  restart would resume from it, but the engine holds none of the pairs: the loop records progress without
  waiting for the workers to flush.\<close>

theorem checkpoint_overtakes_data:
  assumes "durable_env (le_checkpoint env)"
    and "start_system now (create_components now cfg spd cts subs nid nxt f p posts) c = Some s0"
    and "ev_payload ev = Some (KvBatch kvs)" "sum_list (map kv_bytes kvs) < cf_max_kv_buffer_size cfg"
    and "cf_min_flush_interval cfg = 0 \<or> later - now < cf_min_flush_interval cfg"
    and "ev_payload cp = Some (Checkpoint ts [r])"
    and "s = run_system dbg ops order
      [(env, later, LoopStep (EventIn (Some (ev, 0)))), (env, later, WorkerTake (unat nxt mod INGEST_WORKERS)),
       (env, later, LoopStep (EventIn (Some (cp, 0))))] s0"
  shows "load_checkpoint (le_checkpoint env) (pc_file (sy_components s)) = Inr [(r, ts)] \<and> sy_ctx s = c"
proof -
  let ?i = "unat nxt mod INGEST_WORKERS"
  have i: "?i < INGEST_WORKERS" by (simp add: INGEST_WORKERS_def)
  define b0 where "b0 = sst_batcher_new now (cf_max_kv_buffer_size cfg) (cf_max_range_key_buffer_size cfg)"
  define s1 where "s1 = sys_step dbg env ops order later (LoopStep (EventIn (Some (ev, 0)))) s0"
  define s2 where "s2 = sys_step dbg env ops order later (WorkerTake ?i) s1"
  note s0 = assms(2) [unfolded start_fresh_system, symmetric]
  have f0: "sy_running s0" "sy_ctx s0 = c" "sy_batchers s0 = replicate INGEST_WORKERS b0"
    "pc_workers (sy_components s0) = replicate INGEST_WORKERS \<lparr>pw_queue = [], pw_has_rx = False\<rparr>"
    "pc_next (sy_components s0) = nxt" "pc_frontier (sy_components s0) = []"
    "cm_last_recorded_ts (pc_checkpoint_mgr (sy_components s0)) = None"
    "pc_flush_interval_ms (sy_components s0) = cf_min_flush_interval cfg"
    using s0 by (simp_all add: b0_def create_components_def checkpoint_manager_new_def)
  have s1: "s1 = s0\<lparr>sy_components := handle_data_event (ev, 0) (sy_components s0)\<rparr>"
    using f0(1) assms(3) by (simp add: s1_def sys_step_def loop_step_def is_control_def)
  have hd: "handle_data_event (ev, 0) (sy_components s0) = (sy_components s0)\<lparr>pc_next := nxt + 1,
      pc_workers := (replicate INGEST_WORKERS \<lparr>pw_queue = [], pw_has_rx = False\<rparr>)[?i := \<lparr>pw_queue = [(ev, 0)], pw_has_rx = False\<rparr>]\<rparr>"
    using i by (simp add: handle_data_event_def f0 Let_def)
  have q: "pw_queue (pc_workers (sy_components s1) ! ?i) = [(ev, 0)]"
    "length (pc_workers (sy_components s1)) = INGEST_WORKERS"
    using i by (simp_all add: s1 hd)
  obtain b' where b': "worker_step ops order later (cf_min_flush_interval cfg) (WorkerEvent (ev, 0)) (b0, c) = ([], b', c)"
    using small_batch_not_flushed [of b0 ev kvs "cf_min_flush_interval cfg" later ops order 0 c] assms(3-5)
    by (auto simp: b0_def sst_batcher_new_def)
  have "s2 = run_worker ops order later (cf_min_flush_interval cfg) ?i (WorkerEvent (ev, 0)) (take_msg ?i s1)"
    using i q by (simp add: s2_def sys_step_def s1 f0 hd)
  then have s2: "sy_ctx s2 = c" "sy_running s2" "pc_frontier (sy_components s2) = []"
    "cm_last_recorded_ts (pc_checkpoint_mgr (sy_components s2)) = None"
    using i b' f0 by (simp_all add: run_worker_def s1 hd take_msg_def Let_def)
  have s: "s = sys_step dbg env ops order later (LoopStep (EventIn (Some (cp, 0)))) s2"
    by (simp add: assms(7) s1_def s2_def)
  define pc where "pc = (sy_components s2)\<lparr>pc_frontier := [(r, ts)]\<rparr>"
  note rec = record_progress_single [OF assms(1), of pc ts r]
  obtain res pc' where pc': "record_progress (le_checkpoint env) pc = (res, pc')" by fastforce
  have saved: "load_checkpoint (le_checkpoint env) (pc_file pc') = Inr [(r, ts)]"
    "cm_last_recorded_ts (pc_checkpoint_mgr pc') = Some ts" "pc_frontier pc' = [(r, ts)]"
    using rec pc' record_progress_fields(2) [of "le_checkpoint env" pc] by (simp_all add: pc_def s2)
  obtain res' where h: "handle_control_event (le_checkpoint env) (cp, 0) (sy_components s2) = (res', pc')"
    using assms(6) pc'
    by (cases res; cases "is_cutover_ready pc'") (auto simp: handle_control_event_def s2 pc_def Let_def)
  obtain leave where "loop_step dbg env (EventIn (Some (cp, 0))) (sy_components s2) = (leave, pc')"
    using assms(6) by (simp add: loop_step_def is_control_def h)
  then show ?thesis
    using saved s2 record_progress_again [OF saved(3,2), of "le_checkpoint env"]
    by (auto simp: s sys_step_def finish_event_loop_def)
qed

theorem checkpoint_overtakes_data_witness:
  "\<exists>s0. start_system 0 example_components (ingest_ctx_new ()) = Some s0 \<and>
    (let s = run_system (\<lambda>_. []) \<lparr>eo_build_sst = \<lambda>cf kvs. Inr [], eo_ingest_external_file_cf = \<lambda>cf sst e. (Inr (), e),
          eo_delete_ranges_cf = \<lambda>cf st a b e. (Inr False, e), eo_get_region_info = \<lambda>k. Inr 2, eo_write_tmp = \<lambda>d. True\<rparr> (\<lambda>gs. gs)
        [(example_env, 100, LoopStep (EventIn (Some (mk_event (KvBatch [mk_kv [1] [2] OpPut ''write'']), 0)))),
         (example_env, 100, WorkerTake (unat (0 :: u64) mod INGEST_WORKERS)),
         (example_env, 100, LoopStep (EventIn (Some (mk_event (Checkpoint 9 [4]), 0))))] s0
     in load_checkpoint (memory_env True) (pc_file (sy_components s)) = Inr [(4, 9)])"
proof -
  have env: "durable_env (le_checkpoint example_env)" "le_checkpoint example_env = memory_env True"
    by (simp_all add: example_env_def durable_env_def memory_env_def file_spec_def)
  obtain s0 where s0: "start_system 0 example_components (ingest_ctx_new ()) = Some s0"
    by (simp add: example_components_def start_fresh_system)
  have kvs: "ev_payload (mk_event (KvBatch [mk_kv [1] [2] OpPut ''write''])) = Some (KvBatch [mk_kv [1] [2] OpPut ''write''])"
    and cp: "ev_payload (mk_event (Checkpoint 9 [4])) = Some (Checkpoint 9 [4])"
    by (simp_all add: mk_event_def)
  have small: "sum_list (map kv_bytes [mk_kv [1] [2] OpPut ''write'']) < cf_max_kv_buffer_size (config_default 1)"
    "cf_min_flush_interval (config_default 1) = 0 \<or> 100 - 0 < cf_min_flush_interval (config_default 1)"
    by (simp_all add: mk_kv_def kv_bytes_def config_default_def)
  show ?thesis
    using checkpoint_overtakes_data [OF env(1) s0 [unfolded example_components_def] kvs small cp refl] s0
    unfolding env(2) Let_def by blast
qed

section \<open>Splits and the frontier\<close>

lemma forget_regions_frontier:
  "bt_wf (pc_frontier pc) \<Longrightarrow> bt_wf (pc_frontier (fold forget_region rids pc)) \<and>
    bt_get (pc_frontier (fold forget_region rids pc)) x = (if x \<in> set rids then None else bt_get (pc_frontier pc) x)"
  by (induction rids arbitrary: pc) (auto simp: forget_region_def bt.wf_rem bt.get_rem)

lemma forget_regions_fields [simp]:
  "pc_span_mode (fold forget_region rids pc) = pc_span_mode pc"
  "pc_cutover_ts (fold forget_region rids pc) = pc_cutover_ts pc"
  by (simp_all add: fold_keeps [where f = pc_span_mode] fold_keeps [where f = pc_cutover_ts] forget_region_def)

text \<open>a split can complete a cutover too early.  When the loop follows a whole span and a region splits, the
  region and its children leave the frontier; if every other region has reached the cutover timestamp,
  the loop is ready to cut over, however far behind the split region was.\<close>

theorem split_hides_lag:
  assumes "pc_span_mode pc" "bt_wf (pc_frontier pc)" "ev_payload (fst msg) = Some (SplitNotice split_key children)"
    and "pc_cutover_ts pc \<noteq> 0" "pc_cutover_ts pc \<noteq> - 1"
    and "bt_get (pc_frontier pc) other \<noteq> None" "other \<noteq> snd msg" "other \<notin> set children"
    and "\<forall>x ts. bt_get (pc_frontier pc) x = Some ts \<and> x \<noteq> snd msg \<and> x \<notin> set children \<longrightarrow> pc_cutover_ts pc \<le> ts"
    and "handle_control_event env msg pc = (r, pc')"
  shows "bt_get (pc_frontier pc') (snd msg) = None \<and> is_cutover_ready pc'"
proof -
  obtain reg where pc': "pc' = fold forget_region (snd msg # children) (pc\<lparr>pc_span_registry := reg\<rparr>)"
    using assms(1,3,10) by (auto simp: handle_control_event_def Let_def forget_region_def split: prod.splits)
  have wf: "bt_wf (pc_frontier (pc\<lparr>pc_span_registry := reg\<rparr>))" using assms(2) by simp
  have f: "bt_wf (pc_frontier pc')" "bt_get (pc_frontier pc') x = (if x \<in> set (snd msg # children) then None else bt_get (pc_frontier pc) x)" for x
    using forget_regions_frontier [OF wf, of "snd msg # children" x] unfolding pc' by simp_all
  have target: "pc_cutover_ts pc' = pc_cutover_ts pc" unfolding pc' by (simp del: fold.simps)
  have "bt_get (pc_frontier pc') other \<noteq> None" using f(2) assms(6-8) by simp
  then have ne: "pc_frontier pc' \<noteq> []" by auto
  have "pc_cutover_ts pc \<le> ts" if ts: "ts \<in> set (bt_values (pc_frontier pc'))" for ts
  proof -
    obtain x where "bt_get (pc_frontier pc') x = Some ts"
      using ts bt_get_Some_in [OF f(1)] by (force simp: bt_values_def)
    then show ?thesis using f(2) [of x] assms(9) by (auto split: if_splits)
  qed
  then have "pc_cutover_ts pc \<le> Min (set (bt_values (pc_frontier pc')))"
    using ne by (simp add: bt_values_def)
  moreover from this assms(4) have "Min (set (bt_values (pc_frontier pc'))) \<noteq> 0" by auto
  ultimately show ?thesis
    using ne assms(4,5) f(2) by (simp add: is_cutover_ready_def target global_min_ts_def)
qed

theorem split_hides_lag_witness:
  "is_cutover_ready (snd (handle_control_event (memory_env True) (mk_event (SplitNotice [3] [1, 9]), 1)
    (example_components\<lparr>pc_span_mode := True, pc_frontier := [(1, 2), (2, 7)]\<rparr>)))"
proof -
  let ?pc = "example_components\<lparr>pc_span_mode := True, pc_frontier := [(1, 2), (2, 7)]\<rparr>"
  obtain r pc' where h: "handle_control_event (memory_env True) (mk_event (SplitNotice [3] [1, 9]), 1) ?pc = (r, pc')"
    by fastforce
  have "pc_cutover_ts ?pc = 5" by (simp add: example_components_def create_components_def)
  moreover have "ev_payload (fst (mk_event (SplitNotice [3] [1, 9]), 1 :: u64)) = Some (SplitNotice [3] [1, 9])"
    by (simp add: mk_event_def)
  moreover have "\<forall>x ts. bt_get [(1 :: u64, 2 :: u64), (2, 7)] x = Some ts \<and> x \<noteq> 1 \<and> x \<notin> set [1, 9] \<longrightarrow> 5 \<le> ts"
    by simp
  ultimately have "is_cutover_ready pc'"
    using split_hides_lag [OF _ _ _ _ _ _ _ _ _ h, of "[3]" "[1, 9]" 2] by (simp add: bt_wf_Cons)
  then show ?thesis unfolding h by simp
qed

section \<open>The loop's registry\<close>

lemma fold_keeps_registry:
  "(\<And>x pc. pc_span_registry (g x pc) = pc_span_registry pc) \<Longrightarrow> pc_span_registry (fold g xs pc) = pc_span_registry pc"
  by (induction xs arbitrary: pc) auto

lemma keeps_registry:
  "pc_span_registry (snd (record_progress env pc)) = pc_span_registry pc"
  "pc_span_registry (subscribe_child ts rid pc) = pc_span_registry pc"
  "pc_span_registry (forget_region rid pc) = pc_span_registry pc"
  "pc_span_registry (rediscover_new ts c pc) = pc_span_registry pc"
  "pc_span_registry (rediscover_removed c pc) = pc_span_registry pc"
  "pc_span_registry (handle_data_event msg pc) = pc_span_registry pc"
  by (auto simp: record_progress_def subscribe_child_def forget_region_def rediscover_new_def
      rediscover_removed_def handle_data_event_def Let_def split: prod.splits topology_change.splits option.splits)

lemma handle_control_event_registry:
  assumes "registry_reachable U (pc_span_registry pc)" "handle_control_event env msg pc = (r, pc')"
  shows "\<exists>V. registry_reachable V (pc_span_registry pc')"
proof (cases "\<exists>k rids. ev_payload (fst msg) = Some (SplitNotice k rids)")
  case True
  then obtain k rids where "ev_payload (fst msg) = Some (SplitNotice k rids)" by blast
  then have "pc_span_registry pc' = snd (on_region_split (snd msg) rids (pc_span_registry pc))"
    using assms(2) by (auto simp: handle_control_event_def Let_def fold_keeps_registry keeps_registry
        split: prod.splits if_splits)
  then show ?thesis using RSplit [OF assms(1)] by auto
next
  case False
  have "pc_span_registry pc' = pc_span_registry pc"
  proof (cases "ev_payload (fst msg)")
    case None
    then show ?thesis using assms(2) by (simp add: handle_control_event_def)
  next
    case (Some x)
    show ?thesis
    proof (cases x)
      case (Checkpoint ts rids)
      let ?pc = "pc\<lparr>pc_frontier := fold (\<lambda>rid f. bt_insert rid ts f) rids (pc_frontier pc)\<rparr>"
      obtain r1 pc1 where 1: "record_progress env ?pc = (r1, pc1)" by fastforce
      then have "pc' = pc1"
        using assms(2) Some Checkpoint by (auto simp: handle_control_event_def split: sum.splits if_splits)
      then show ?thesis using 1 keeps_registry(1) [of env ?pc] by simp
    qed (use assms(2) Some False in \<open>auto simp: handle_control_event_def keeps_registry\<close>)
  qed
  then show ?thesis using assms(1) by auto
qed

lemma subscribe_span_region_registry:
  assumes "\<exists>U. registry_reachable U (pc_span_registry pc)"
  shows "\<exists>V. registry_reachable V (pc_span_registry (subscribe_span_region t r pc))"
proof -
  obtain U where U: "registry_reachable U (pc_span_registry pc)" using assms by blast
  obtain rid a b where r: "r = (rid, a, b)" by (cases r)
  have "update_span (\<lambda>s. activate_worker rid (start_worker rid s)) t (pc_span_registry pc) =
      update_span (activate_worker rid) t (update_span (start_worker rid) t (pc_span_registry pc))"
    by (simp add: update_span_comp comp_def)
  then have "\<exists>V. registry_reachable V (update_span (\<lambda>s. activate_worker rid (start_worker rid s)) t (pc_span_registry pc))"
    using RActivate [OF RStart [OF U]] by metis
  then show ?thesis
    using U by (auto simp: r subscribe_span_region_def Let_def split: prod.splits sum.splits)
qed

text \<open>Every registry the loop works with is one that the registry's operations build.\<close>

lemma loop_registry_reachable:
  fixes pc :: "('f, 'p) pcr_components"
  assumes "\<exists>U. registry_reachable U (pc_span_registry pc)" "loop_step dbg env input pc = (leave, pc')"
  shows "\<exists>V. registry_reachable V (pc_span_registry pc')"
proof -
  obtain U where U: "registry_reachable U (pc_span_registry pc)" using assms by blast
  have fold1: "\<exists>V. registry_reachable V (pc_span_registry (fold (subscribe_span_region t) rs pc))"
    if "\<exists>U. registry_reachable U (pc_span_registry pc)" for t rs and pc :: "('f, 'p) pcr_components"
    using that by (induction rs arbitrary: pc) (auto dest!: subscribe_span_region_registry)
  have span: "\<exists>V. registry_reachable V (pc_span_registry (discover_span env s pc))"
    if "\<exists>U. registry_reachable U (pc_span_registry pc)" for s and pc :: "('f, 'p) pcr_components"
    using that fold1 by (auto simp: discover_span_def split: sum.splits)
  have fold2: "\<exists>V. registry_reachable V (pc_span_registry (fold (discover_span env) ss pc))"
    if "\<exists>U. registry_reachable U (pc_span_registry pc)" for ss and pc :: "('f, 'p) pcr_components"
    using that by (induction ss arbitrary: pc) (auto dest!: span)
  have ddl: "\<exists>V. registry_reachable V (pc_span_registry (ddl_discover env pc))"
  proof -
    obtain ss reg where d: "discover_new_spans (le_mysql env) (pc_source_tidb_addr pc) (pc_span_registry pc) = (ss, reg)"
      by fastforce
    then have "\<exists>V. registry_reachable V (pc_span_registry (fold (discover_span env) ss (pc\<lparr>pc_span_registry := reg\<rparr>)))"
      using discover_reachable [OF U, of "le_mysql env" "pc_source_tidb_addr pc"] by (intro fold2) simp
    then show ?thesis by (simp add: ddl_discover_def d Let_def split: prod.splits)
  qed
  have "pc_span_registry (rediscover env pc) = pc_span_registry pc"
    by (simp add: rediscover_def Let_def fold_keeps_registry keeps_registry)
  then show ?thesis
    using assms(2) U ddl handle_control_event_registry [OF U]
    by (auto simp: loop_step_def Let_def keeps_registry split: loop_input.splits option.splits if_splits prod.splits)
qed

end
