(* ===== verification/TaskLifecycle.thy ===== *)
theory TaskLifecycle
  imports EventLoop
begin

text \<open>
  The control task of the consumer (the second half of \<open>stream-ingest/src/task.rs\<close> and the factory in
  \<open>lib.rs\<close>): its state machine, the persistence of the state, starting and stopping the event loop, and
  the write protection of the target cluster.

  A command runs in a \<open>task_env\<close>: the time, what the outside world answers, whether files can be written,
  how a wait for the event loop ends, and what the loop has made of its components when it ends.  The
  loops running in the background are a list, each with the flag whether it was told to stop.  Between
  commands a loop may change the checkpoint file and the placement driver (\<open>Background\<close>).
\<close>

section \<open>State\<close>

datatype task_state = Idle | Subscribing | Paused | CuttingOver | Completed | Activated | Failed

datatype wait_result = DoneSignalled | DoneDropped | WaitTimeout

record ('f, 'p) ingest_task =
  ta_cfg :: stream_ingest_config
  ta_state_file :: "string option"
  ta_source_pd_file :: "string option"
  ta_state :: task_state
  ta_components :: "('f, 'p) pcr_components option"
  ta_cancel_tx :: bool
  ta_done_rx :: bool
  ta_cutover_ts :: u64
  ta_write_guard :: bool
  ta_source_pd :: "string option"
  ta_loops :: "(bool \<times> ('f, 'p) pcr_components) list"
  ta_next_stream_id :: u64
  ta_next :: u64
  ta_file :: 'f
  ta_pd :: 'p
  ta_posts :: posts

record ('f, 'j, 'p) task_env =
  te_now :: nat
  te_checkpoint :: "('f, 'j, 'p) checkpoint_env"
  te_curl :: "string \<Rightarrow> cmd_result"
  te_parse_json :: "string \<Rightarrow> json option"
  te_can_write :: bool
  te_wait :: wait_result
  te_loop_end :: "('f, 'p) pcr_components \<Rightarrow> ('f, 'p) pcr_components"

section \<open>Persistence\<close>

fun state_name :: "task_state \<Rightarrow> string" where
  "state_name Idle = ''Idle''"
| "state_name Subscribing = ''Subscribing''"
| "state_name Paused = ''Paused''"
| "state_name CuttingOver = ''CuttingOver''"
| "state_name Completed = ''Completed''"
| "state_name Activated = ''Activated''"
| "state_name Failed = ''Failed''"

fun state_metric :: "task_state \<Rightarrow> nat" where
  "state_metric Idle = 0"
| "state_metric Subscribing = 1"
| "state_metric Paused = 2"
| "state_metric CuttingOver = 3"
| "state_metric Completed = 4"
| "state_metric Activated = 5"
| "state_metric Failed = 6"

definition persist_state :: "bool \<Rightarrow> ('f, 'p) ingest_task \<Rightarrow> ('f, 'p) ingest_task" where
  "persist_state can_write t = (if can_write then t\<lparr>ta_state_file := Some (state_name (ta_state t))\<rparr> else t)"

definition load_persisted_state :: "string option \<Rightarrow> bool \<Rightarrow> task_state" where
  "load_persisted_state file enabled =
    (case file of
       Some d \<Rightarrow>
         if trim d = ''Subscribing'' then Paused
         else if trim d = ''Paused'' then Paused
         else if trim d = ''Completed'' \<or> trim d = ''Failed'' then Idle
         else if trim d = ''Activated'' then Idle
         else if enabled then Paused else Idle
     | None \<Rightarrow> if enabled then Paused else Idle)"

definition load_source_pd :: "string option \<Rightarrow> string option" where
  "load_source_pd file = map_option trim file"

section \<open>Construction\<close>

definition task_components ::
  "nat \<Rightarrow> partition_subscription list \<Rightarrow> ('f, 'p) ingest_task \<Rightarrow> ('f, 'p) pcr_components" where
  "task_components now subs t =
    create_components now (ta_cfg t) (ta_source_pd t) (ta_cutover_ts t) subs (ta_next_stream_id t) (ta_next t)
      (ta_file t) (ta_pd t) (ta_posts t)"

definition task_new ::
  "nat \<Rightarrow> stream_ingest_config \<Rightarrow> string option \<Rightarrow> string option \<Rightarrow> bool \<Rightarrow> 'f \<Rightarrow> 'p \<Rightarrow> ('f, 'p) ingest_task" where
  "task_new now cfg state_file source_pd_file write_guard f p =
    \<lparr>ta_cfg = cfg, ta_state_file = state_file, ta_source_pd_file = source_pd_file,
     ta_state = load_persisted_state state_file (cf_enable cfg),
     ta_components = Some (create_components now cfg None 0 [] 1 0 f p []),
     ta_cancel_tx = False, ta_done_rx = False, ta_cutover_ts = 0, ta_write_guard = write_guard,
     ta_source_pd = load_source_pd source_pd_file, ta_loops = [], ta_next_stream_id = 1, ta_next = 0,
     ta_file = f, ta_pd = p, ta_posts = []\<rparr>"

definition create_stream_ingest_task ::
  "nat \<Rightarrow> bool \<Rightarrow> string \<Rightarrow> string \<Rightarrow> nat \<Rightarrow> nat \<Rightarrow> nat \<Rightarrow> nat \<Rightarrow> string option \<Rightarrow> string option \<Rightarrow> bool
     \<Rightarrow> 'f \<Rightarrow> 'p \<Rightarrow> ('f, 'p) ingest_task" where
  "create_stream_ingest_task now enable source_address target_tidb_address max_kv max_range checkpoint_secs
     num_threads state_file source_pd_file write_guard f p =
    task_new now
      \<lparr>cf_enable = enable, cf_max_kv_buffer_size = max_kv, cf_max_range_key_buffer_size = max_range,
       cf_min_flush_interval = 200, cf_source_address = source_address,
       cf_target_tidb_address = target_tidb_address, cf_checkpoint_interval = checkpoint_secs * 1000,
       cf_num_subscription_threads = num_threads\<rparr>
      state_file source_pd_file write_guard f p"

section \<open>The event loop's life\<close>

definition discover_partitions ::
  "('f, 'j, 'p) task_env \<Rightarrow> u64 \<Rightarrow> bool \<Rightarrow> ('f, 'p) ingest_task \<Rightarrow> partition_subscription list" where
  "discover_partitions env resume_ts force_full_scan t =
    (let source_pd = (case ta_source_pd t of None \<Rightarrow> [] | Some pd \<Rightarrow> pd) in
     if source_pd = [] then []
     else
       map (\<lambda>(rid, s, e). \<lparr>ps_region_id = rid, ps_start_ts = (if force_full_scan then 0 else resume_ts),
              ps_source_addr = cf_source_address (ta_cfg t), ps_start_key = s, ps_end_key = e\<rparr>)
         (discover_region_ids_from_source (te_curl env) (te_parse_json env) source_pd))"

definition discover_region_ids_from_pd :: "('f, 'j, 'p) task_env \<Rightarrow> ('f, 'p) ingest_task \<Rightarrow> u64 list option" where
  "discover_region_ids_from_pd env t =
    (let pd_addr = (case ta_source_pd t of None \<Rightarrow> ''127.0.0.1:2379'' | Some pd \<Rightarrow> pd) in
     case te_curl env (''http://'' @ pd_addr @ ''/pd/api/v1/regions'') of
       CmdError \<Rightarrow> None
     | CmdOutput success body \<Rightarrow>
         if \<not> success then None
         else map_option (List.map_filter (\<lambda>r. Option.bind (json_get ''id'' r) json_u64))
           (Option.bind (Option.bind (te_parse_json env body) (json_get ''regions'')) json_array))"

definition spawn_event_loop :: "('f, 'j, 'p) task_env \<Rightarrow> bool \<Rightarrow> ('f, 'p) ingest_task \<Rightarrow> ('f, 'p) ingest_task" where
  "spawn_event_loop env force_full_scan t =
    (let c = (case ta_components t of
                Some c \<Rightarrow> c\<lparr>pc_source_pd := (case ta_source_pd t of None \<Rightarrow> [] | Some pd \<Rightarrow> pd),
                            pc_cutover_ts := ta_cutover_ts t, pc_file := ta_file t, pc_pd := ta_pd t\<rparr>
              | None \<Rightarrow> task_components (te_now env) [] t);
         t = t\<lparr>ta_components := None\<rparr>;
         c = (if force_full_scan
              then c\<lparr>pc_resume_ts := 0, pc_initial_subscriptions := discover_partitions env 0 True t\<rparr>
              else
                let (c, resume_ts) =
                  (case load_checkpoint (te_checkpoint env) (ta_file t) of
                     Inr frontier \<Rightarrow>
                       if frontier \<noteq> []
                       then (c\<lparr>pc_frontier := frontier\<rparr>, case global_min_ts frontier of None \<Rightarrow> 0 | Some ts \<Rightarrow> ts)
                       else (c, 0)
                   | Inl e \<Rightarrow> (c, 0))
                in c\<lparr>pc_resume_ts := resume_ts, pc_initial_subscriptions := discover_partitions env resume_ts False t\<rparr>)
     in t\<lparr>ta_loops := ta_loops t @ [(False, c)], ta_cancel_tx := True, ta_done_rx := True\<rparr>)"

text \<open>The newest loop ends, unless waiting for it timed out; what it leaves on disk is what it made of it.\<close>

definition end_newest_loop :: "('f, 'j, 'p) task_env \<Rightarrow> ('f, 'p) ingest_task \<Rightarrow> ('f, 'p) ingest_task" where
  "end_newest_loop env t =
    (if ta_loops t = [] \<or> te_wait env = WaitTimeout then t
     else
       let c = te_loop_end env (snd (last (ta_loops t)))
       in t\<lparr>ta_loops := butlast (ta_loops t), ta_file := pc_file c, ta_pd := pc_pd c, ta_posts := pc_posts c,
            ta_next_stream_id := sub_next_stream_id (pc_subscriber c), ta_next := pc_next c\<rparr>)"

definition cancel_newest_loop :: "('f, 'p) ingest_task \<Rightarrow> ('f, 'p) ingest_task" where
  "cancel_newest_loop t =
    (if ta_loops t = [] then t
     else t\<lparr>ta_loops := butlast (ta_loops t) @ [(True, snd (last (ta_loops t)))]\<rparr>)"

definition stop_event_loop :: "('f, 'j, 'p) task_env \<Rightarrow> ('f, 'p) ingest_task \<Rightarrow> ('f, 'p) ingest_task" where
  "stop_event_loop env t =
    (let t = (if ta_cancel_tx t then (cancel_newest_loop t)\<lparr>ta_cancel_tx := False\<rparr> else t);
         t = (if ta_done_rx t then (end_newest_loop env t)\<lparr>ta_done_rx := False\<rparr> else t)
     in t\<lparr>ta_components := Some (task_components (te_now env) [] t)\<rparr>)"

section \<open>Commands\<close>

datatype task_cmd =
    ConfigChange
  | StartReplication string string
  | CreateReplication string string
  | PauseReplication
  | ResumeReplication
  | StartSubscription u64 u64 string
  | Cutover u64
  | Activate
  | Shutdown

text \<open>Starting and creating differ only in the scan.\<close>

definition begin_replication ::
  "('f, 'j, 'p) task_env \<Rightarrow> string \<Rightarrow> bool \<Rightarrow> ('f, 'p) ingest_task \<Rightarrow> ('f, 'p) ingest_task" where
  "begin_replication env source_pd force_full_scan t =
    (if ta_state t \<notin> {Subscribing, Paused, Idle, Activated, Completed} then t
     else
       let t = (if ta_state t = Subscribing then stop_event_loop env t else t);
           t = t\<lparr>ta_state := Subscribing, ta_source_pd := Some source_pd\<rparr>;
           t = (if te_can_write env then t\<lparr>ta_source_pd_file := Some source_pd\<rparr> else t);
           t = t\<lparr>ta_write_guard := True\<rparr>;
           t = spawn_event_loop env force_full_scan t
       in persist_state (te_can_write env) t)"

definition clear_task_checkpoint :: "('f, 'j, 'p) task_env \<Rightarrow> ('f, 'p) ingest_task \<Rightarrow> ('f, 'p) ingest_task" where
  "clear_task_checkpoint env t =
    (let (r, f, p) = clear_checkpoint (te_checkpoint env) (checkpoint_manager_new ''pcr_default'') (ta_file t, ta_pd t)
     in t\<lparr>ta_file := f, ta_pd := p\<rparr>)"

definition run_task :: "('f, 'j, 'p) task_env \<Rightarrow> task_cmd \<Rightarrow> ('f, 'p) ingest_task \<Rightarrow> ('f, 'p) ingest_task" where
  "run_task env cmd t =
    (case cmd of
       ConfigChange \<Rightarrow> t
     | StartReplication source_pd task_name \<Rightarrow> begin_replication env source_pd False t
     | CreateReplication source_pd task_name \<Rightarrow> begin_replication env source_pd True t
     | PauseReplication \<Rightarrow>
         if ta_state t \<noteq> Subscribing then t
         else persist_state (te_can_write env) ((stop_event_loop env t)\<lparr>ta_state := Paused\<rparr>)
     | ResumeReplication \<Rightarrow>
         if ta_state t \<noteq> Paused then t
         else persist_state (te_can_write env) (spawn_event_loop env False (t\<lparr>ta_state := Subscribing\<rparr>))
     | StartSubscription region_id start_ts source_addr \<Rightarrow> t
     | Cutover cutover_ts \<Rightarrow>
         if ta_state t \<noteq> Subscribing then t
         else
           let t = t\<lparr>ta_cutover_ts := cutover_ts, ta_state := CuttingOver,
                     ta_loops := map (\<lambda>(c, pc). (c, pc\<lparr>pc_cutover_ts := cutover_ts\<rparr>)) (ta_loops t)\<rparr>;
               t = persist_state (te_can_write env) t in
           if \<not> ta_done_rx t then t
           else
             let t = (end_newest_loop env t)\<lparr>ta_done_rx := False\<rparr> in
             (case te_wait env of
                DoneSignalled \<Rightarrow>
                  let t = persist_state (te_can_write env) (t\<lparr>ta_state := Completed\<rparr>)
                  in t\<lparr>ta_components := Some (task_components (te_now env) [] t)\<rparr>
              | DoneDropped \<Rightarrow> t
              | WaitTimeout \<Rightarrow> persist_state (te_can_write env) (t\<lparr>ta_state := Failed\<rparr>))
     | Shutdown \<Rightarrow>
         persist_state (te_can_write env)
           ((if ta_state t = Subscribing then stop_event_loop env t else t)\<lparr>ta_state := Completed\<rparr>)
     | Activate \<Rightarrow>
         if ta_state t \<noteq> Completed \<and> ta_state t \<noteq> Subscribing then t
         else
           let t = (if ta_state t = Subscribing then (stop_event_loop env t)\<lparr>ta_state := Completed\<rparr> else t);
               t = clear_task_checkpoint env t;
               t = (if te_can_write env then t\<lparr>ta_state_file := None\<rparr> else t)
           in t\<lparr>ta_state := Activated, ta_write_guard := False\<rparr>)"

text \<open>Decomposing an SST file is a placeholder that yields no pairs.\<close>

definition scan_sst_to_kvs :: "bool \<Rightarrow> bytes \<Rightarrow> si_error + mvcc_kv list" where
  "scan_sst_to_kvs can_write sst_data =
    (if sst_data = [] then Inr [] else if \<not> can_write then Inl IoError else Inr [])"

section \<open>Runs\<close>

datatype ('f, 'j, 'p) task_input = Command "('f, 'j, 'p) task_env" task_cmd | Background 'f 'p

fun task_step :: "('f, 'j, 'p) task_input \<Rightarrow> ('f, 'p) ingest_task \<Rightarrow> ('f, 'p) ingest_task" where
  "task_step (Command env cmd) t = run_task env cmd t"
| "task_step (Background f p) t = (if ta_loops t = [] then t else t\<lparr>ta_file := f, ta_pd := p\<rparr>)"

definition run_tasks :: "('f, 'j, 'p) task_input list \<Rightarrow> ('f, 'p) ingest_task \<Rightarrow> ('f, 'p) ingest_task" where
  "run_tasks inputs t = fold task_step inputs t"

section \<open>Frame facts\<close>

lemma persist_state_fields [simp]:
  "ta_state (persist_state w t) = ta_state t" "ta_write_guard (persist_state w t) = ta_write_guard t"
  "ta_loops (persist_state w t) = ta_loops t" "ta_cutover_ts (persist_state w t) = ta_cutover_ts t"
  "ta_cfg (persist_state w t) = ta_cfg t" "ta_done_rx (persist_state w t) = ta_done_rx t"
  "ta_file (persist_state w t) = ta_file t" "ta_pd (persist_state w t) = ta_pd t"
  by (simp_all add: persist_state_def)

lemma end_newest_loop_fields [simp]:
  "ta_state (end_newest_loop env t) = ta_state t" "ta_write_guard (end_newest_loop env t) = ta_write_guard t"
  "ta_cutover_ts (end_newest_loop env t) = ta_cutover_ts t" "ta_cfg (end_newest_loop env t) = ta_cfg t"
  by (simp_all add: end_newest_loop_def Let_def)

lemma cancel_newest_loop_fields [simp]:
  "ta_state (cancel_newest_loop t) = ta_state t" "ta_write_guard (cancel_newest_loop t) = ta_write_guard t"
  "ta_cutover_ts (cancel_newest_loop t) = ta_cutover_ts t" "ta_done_rx (cancel_newest_loop t) = ta_done_rx t"
  "ta_cfg (cancel_newest_loop t) = ta_cfg t"
  by (simp_all add: cancel_newest_loop_def)

lemma stop_event_loop_fields [simp]:
  "ta_state (stop_event_loop env t) = ta_state t" "ta_write_guard (stop_event_loop env t) = ta_write_guard t"
  "ta_cutover_ts (stop_event_loop env t) = ta_cutover_ts t" "ta_cfg (stop_event_loop env t) = ta_cfg t"
  by (simp_all add: stop_event_loop_def Let_def)

lemma spawn_event_loop_fields [simp]:
  "ta_state (spawn_event_loop env full t) = ta_state t" "ta_write_guard (spawn_event_loop env full t) = ta_write_guard t"
  "ta_cutover_ts (spawn_event_loop env full t) = ta_cutover_ts t" "ta_cfg (spawn_event_loop env full t) = ta_cfg t"
  by (simp_all add: spawn_event_loop_def Let_def)

lemma clear_task_checkpoint_fields [simp]:
  "ta_state (clear_task_checkpoint env t) = ta_state t" "ta_loops (clear_task_checkpoint env t) = ta_loops t"
  "ta_cutover_ts (clear_task_checkpoint env t) = ta_cutover_ts t" "ta_cfg (clear_task_checkpoint env t) = ta_cfg t"
  by (simp_all add: clear_task_checkpoint_def case_prod_unfold Let_def)

section \<open>Restarts\<close>

lemma trim_state_name: "trim (state_name st) = state_name st"
  by (cases st; simp; code_simp)

text \<open>What a restart makes of each persisted state.\<close>

lemma restart_state:
  "load_persisted_state (Some (state_name st)) enabled =
    (case st of Subscribing \<Rightarrow> Paused | Paused \<Rightarrow> Paused | Completed \<Rightarrow> Idle | Failed \<Rightarrow> Idle | Activated \<Rightarrow> Idle
     | _ \<Rightarrow> if enabled then Paused else Idle)"
  unfolding load_persisted_state_def option.case trim_state_name by (cases st) simp_all

section \<open>Write protection\<close>

definition guard_inv :: "('f, 'p) ingest_task \<Rightarrow> bool" where
  "guard_inv t \<longleftrightarrow> ta_write_guard t \<or> ta_state t \<in> {Idle, Completed, Activated, Failed}"

lemma begin_replication_guard: "guard_inv t \<Longrightarrow> guard_inv (begin_replication env pd full t)"
  by (auto simp: begin_replication_def guard_inv_def Let_def)

lemma run_task_guard:
  assumes "guard_inv t"
  shows "guard_inv (run_task env cmd t)"
proof (cases "\<exists>pd name. cmd = StartReplication pd name \<or> cmd = CreateReplication pd name")
  case True
  then show ?thesis using begin_replication_guard [OF assms] by (auto simp: run_task_def)
next
  case False
  then show ?thesis
    using assms by (cases cmd) (auto simp: run_task_def Let_def guard_inv_def split: wait_result.splits)
qed

lemma run_tasks_guard: "guard_inv t \<Longrightarrow> guard_inv (run_tasks inputs t)"
proof (induction inputs arbitrary: t)
  case (Cons i inputs)
  have "guard_inv (task_step i t)"
    using Cons.prems run_task_guard by (cases i) (auto simp: guard_inv_def)
  then show ?case using Cons.IH by (simp add: run_tasks_def)
qed (simp add: run_tasks_def)

text \<open>replication is write-protected.  A task that starts with write protection on, or without anything to
  resume, keeps the target cluster protected in every run of commands while it is subscribing, paused
  or cutting over.\<close>

theorem replication_write_protected:
  assumes "ta_write_guard t0 \<or> ta_state t0 = Idle" "t = run_tasks inputs t0"
    and "ta_state t \<in> {Subscribing, Paused, CuttingOver}"
  shows "ta_write_guard t"
proof -
  have "guard_inv t0" using assms(1) by (auto simp: guard_inv_def)
  then have "guard_inv t" using run_tasks_guard assms(2) by blast
  then show ?thesis using assms(3) by (auto simp: guard_inv_def)
qed

definition example_task_env :: "wait_result \<Rightarrow> (frontier option, frontier, unit) task_env" where
  "example_task_env w =
    \<lparr>te_now = 0, te_checkpoint = memory_env True, te_curl = \<lambda>u. CmdError, te_parse_json = \<lambda>t. None,
     te_can_write = True, te_wait = w, te_loop_end = \<lambda>pc. pc\<rparr>"

definition example_task :: "(frontier option, unit) ingest_task" where
  "example_task = run_task (example_task_env DoneSignalled) (CreateReplication ''pd:2379'' ''t'')
     (task_new 0 (config_default 1) None None False None ())"

lemma example_task_fields:
  "ta_state example_task = Subscribing" "ta_done_rx example_task" "\<exists>pc. ta_loops example_task = [(False, pc)]"
  by (simp_all add: example_task_def run_task_def begin_replication_def task_new_def load_persisted_state_def
      config_default_def spawn_event_loop_def persist_state_def example_task_env_def Let_def)

theorem replication_write_protected_witness:
  "ta_write_guard (run_tasks [Command (example_task_env DoneSignalled) (CreateReplication ''pd:2379'' ''t'')]
    (task_new 0 (config_default 1) None None False None ()))"
proof (rule replication_write_protected [OF _ refl])
  show "ta_write_guard (task_new 0 (config_default 1) None None False None ()) \<or>
      ta_state (task_new 0 (config_default 1) None None False None ()) = Idle"
    by (simp add: task_new_def load_persisted_state_def config_default_def)
  show "ta_state (run_tasks [Command (example_task_env DoneSignalled) (CreateReplication ''pd:2379'' ''t'')]
      (task_new 0 (config_default 1) None None False None ())) \<in> {Subscribing, Paused, CuttingOver}"
    using example_task_fields(1) by (simp add: run_tasks_def example_task_def)
qed

text \<open>a restarted replication is not write-protected.  The protection starts off with the process; a task
  that finds the state of an interrupted replication on disk waits for a resume, and the resumed
  replication runs with the target cluster still open for writes.\<close>

theorem resume_after_restart_unprotected:
  assumes "trim saved = ''Subscribing'' \<or> trim saved = ''Paused''"
    and "t = run_task env ResumeReplication (task_new now cfg (Some saved) pd_file False f p)"
  shows "ta_state t = Subscribing \<and> length (ta_loops t) = 1 \<and> \<not> ta_write_guard t"
proof -
  have "ta_state (task_new now cfg (Some saved) pd_file False f p) = Paused"
    using assms(1) by (auto simp: task_new_def load_persisted_state_def)
  then show ?thesis
    by (simp add: assms(2) run_task_def) (simp add: task_new_def spawn_event_loop_def Let_def)
qed

theorem resume_after_restart_unprotected_witness:
  "\<not> ta_write_guard (run_task (example_task_env DoneSignalled) ResumeReplication
    (task_new 0 (config_default 1) (Some ''Subscribing'') None False None ()))"
proof -
  have "trim ''Subscribing'' = ''Subscribing''" by code_simp
  from resume_after_restart_unprotected [OF disjI1 [OF this] refl,
      of "example_task_env DoneSignalled" 0 "config_default 1" None None "()"]
  show ?thesis by blast
qed

text \<open>a cluster can be activated while it still replicates.  When the wait of a cutover times out, the task
  fails but its event loop keeps running; a shutdown then completes the task without stopping the loop,
  and an activation opens the cluster for writes.\<close>

theorem activated_while_replicating:
  assumes "ta_state t = Subscribing" "ta_done_rx t" "ta_loops t = [(False, pc)]"
    and "te_wait env = WaitTimeout"
    and "t' = run_tasks [Command env (Cutover ts), Command env Shutdown, Command env Activate] t"
  shows "ta_state t' = Activated \<and> \<not> ta_write_guard t' \<and> ta_loops t' = [(False, pc\<lparr>pc_cutover_ts := ts\<rparr>)]"
  using assms by (simp add: run_tasks_def run_task_def end_newest_loop_def Let_def)

theorem activated_while_replicating_witness:
  "\<exists>t'. t' = run_tasks [Command (example_task_env WaitTimeout) (Cutover 5), Command (example_task_env WaitTimeout) Shutdown,
      Command (example_task_env WaitTimeout) Activate] example_task
    \<and> ta_state t' = Activated \<and> \<not> ta_write_guard t' \<and> ta_loops t' \<noteq> []"
proof -
  obtain pc where "ta_loops example_task = [(False, pc)]" using example_task_fields(3) by blast
  from activated_while_replicating [OF example_task_fields(1,2) this _ refl, of "example_task_env WaitTimeout" 5]
  show ?thesis by (simp add: example_task_env_def)
qed

text \<open>In the states of a cutover that has not completed, only a shutdown has an effect.\<close>

lemma stuck_states:
  assumes "ta_state t = CuttingOver \<or> ta_state t = Failed" "cmd \<noteq> Shutdown"
  shows "run_task env cmd t = t"
  using assms by (cases cmd) (auto simp: run_task_def begin_replication_def)

lemma stuck_states_witness:
  "run_task (example_task_env DoneSignalled) ResumeReplication (example_task\<lparr>ta_state := Failed\<rparr>) =
    example_task\<lparr>ta_state := Failed\<rparr>"
  using stuck_states [of "example_task\<lparr>ta_state := Failed\<rparr>" ResumeReplication "example_task_env DoneSignalled"] by simp

text \<open>the cutover timestamp outlives the cutover.  Creating a replication again after a completed cutover
  and an activation starts an event loop that still has the old cutover timestamp: it is ready to cut
  over as soon as its frontier has passed that timestamp once.\<close>

theorem recreated_replication_cuts_over:
  assumes "ta_state t = Subscribing" "ta_done_rx t" "ta_loops t = [(False, pc)]" "te_wait env = DoneSignalled"
    and "t' = run_tasks [Command env (Cutover ts), Command env Activate, Command env (CreateReplication pd name)] t"
    and "ts \<noteq> 0"
  shows "\<exists>pc'. ta_loops t' = [(False, pc')] \<and> ta_state t' = Subscribing \<and> pc_cutover_ts pc' = ts
    \<and> (\<forall>frontier min_ts. global_min_ts frontier = Some min_ts \<and> min_ts \<noteq> 0 \<and> ts \<le> min_ts
        \<longrightarrow> is_cutover_ready (pc'\<lparr>pc_frontier := frontier\<rparr>))"
proof -
  have "\<exists>pc'. ta_loops t' = [(False, pc')] \<and> ta_state t' = Subscribing \<and> pc_cutover_ts pc' = ts"
    using assms(1-5)
    by (simp add: run_tasks_def run_task_def end_newest_loop_def begin_replication_def Let_def)
      (simp add: spawn_event_loop_def Let_def clear_task_checkpoint_def case_prod_unfold persist_state_def)
  then show ?thesis using assms(6) by (auto simp: is_cutover_ready_def Let_def)
qed

theorem recreated_replication_cuts_over_witness:
  "\<exists>pc'. ta_loops (run_tasks [Command (example_task_env DoneSignalled) (Cutover 5), Command (example_task_env DoneSignalled) Activate,
      Command (example_task_env DoneSignalled) (CreateReplication ''pd:2379'' ''t'')] example_task) = [(False, pc')]
    \<and> is_cutover_ready (pc'\<lparr>pc_frontier := [(1, 7)]\<rparr>)"
proof -
  obtain pc where "ta_loops example_task = [(False, pc)]" using example_task_fields(3) by blast
  moreover have "global_min_ts [(1, 7)] = Some 7" by (simp add: global_min_ts_def bt_values_def)
  moreover have "te_wait (example_task_env DoneSignalled) = DoneSignalled" by (simp add: example_task_env_def)
  ultimately show ?thesis
    using recreated_replication_cuts_over [OF example_task_fields(1,2) _ _ refl, of pc "example_task_env DoneSignalled" 5 "''pd:2379''" "''t''"]
    by fastforce
qed

end
