(* ===== verification/ControlPlane.thy ===== *)
theory ControlPlane
  imports TaskLifecycle
begin

text \<open>
  The control path of the consumer: the HTTP endpoint (\<open>stream-ingest/src/http_control.rs\<close>) and the command
  line tool that calls it (\<open>cmd/pcr-ctl/src/main.rs\<close>).

  A connection is the lines of the request and its body; the answer is a status code and a body, with the
  commands scheduled on the control task.  JSON values are those of the resolver's theory; the request
  is decoded field by field as the derived deserializer does.  Lags are whole seconds.  What the tool
  only prints is not modelled.
\<close>

section \<open>Messages\<close>

record pcr_control_request =
  rq_action :: string
  rq_task :: "string option"
  rq_source_pd :: "string option"
  rq_cutover_ts :: "u64 option"
  rq_latest :: "bool option"

record pcr_status_response =
  sp_task :: string
  sp_status :: string
  sp_message :: string
  sp_lag_seconds :: "u64 option"
  sp_frontier :: "(string \<times> u64) list option"

datatype http_body = StatusBody pcr_status_response | RawBody string

definition status_simple :: "string \<Rightarrow> string \<Rightarrow> string \<Rightarrow> http_body" where
  "status_simple task status message =
    StatusBody \<lparr>sp_task = task, sp_status = status, sp_message = message, sp_lag_seconds = None, sp_frontier = None\<rparr>"

text \<open>Decoding a request: a missing or null optional field is absent, a field of another type is an error.\<close>

definition opt_field :: "(json \<Rightarrow> 'a option) \<Rightarrow> string \<Rightarrow> json \<Rightarrow> string + 'a option" where
  "opt_field decode field j =
    (case json_get field j of
       None \<Rightarrow> Inr None
     | Some JNull \<Rightarrow> Inr None
     | Some v \<Rightarrow> (case decode v of None \<Rightarrow> Inl ''invalid type'' | Some x \<Rightarrow> Inr (Some x)))"

fun json_bool :: "json \<Rightarrow> bool option" where
  "json_bool (JBool b) = Some b"
| "json_bool _ = None"

definition request_of_json :: "json \<Rightarrow> string + pcr_control_request" where
  "request_of_json j =
    (case Option.bind (json_get ''action'' j) json_str of
       None \<Rightarrow> Inl ''missing field action''
     | Some action \<Rightarrow>
         rbind (opt_field json_str ''task'' j) (\<lambda>task.
         rbind (opt_field json_str ''source_pd'' j) (\<lambda>source_pd.
         rbind (opt_field json_u64 ''cutover_ts'' j) (\<lambda>cutover_ts.
         rbind (opt_field json_bool ''latest'' j) (\<lambda>latest.
           Inr \<lparr>rq_action = action, rq_task = task, rq_source_pd = source_pd, rq_cutover_ts = cutover_ts,
                rq_latest = latest\<rparr>)))))"

section \<open>The control endpoint\<close>

definition valid_source_pd :: "string \<Rightarrow> bool" where
  "valid_source_pd source_pd =
    (\<not> (source_pd = [] \<or> length (split_on (CHR '':'') source_pd) \<noteq> 2 \<or> hd source_pd = CHR '':''))"

definition create_answer :: "string \<Rightarrow> string \<Rightarrow> pcr_control_request \<Rightarrow> http_body \<times> task_cmd list" where
  "create_answer how task_name req =
    (let source_pd = (case rq_source_pd req of None \<Rightarrow> [] | Some pd \<Rightarrow> pd) in
     if \<not> valid_source_pd source_pd
     then (status_simple task_name ''error'' (''Invalid source_pd '' @ source_pd @ '': must be PD HTTP address like 127.0.0.1:2379''), [])
     else (status_simple task_name ''creating'' (''Full replication from '' @ source_pd @ '' starting '' @ how),
           [CreateReplication source_pd task_name]))"

definition cutover_target :: "pcr_control_request \<Rightarrow> u64" where
  "cutover_target req =
    (if (case rq_latest req of None \<Rightarrow> False | Some b \<Rightarrow> b) then - 1
     else (case rq_cutover_ts req of None \<Rightarrow> 0 | Some ts \<Rightarrow> ts))"

definition handle_control :: "pcr_control_request \<Rightarrow> http_body \<times> task_cmd list" where
  "handle_control req =
    (let task_name = (case rq_task req of None \<Rightarrow> ''pcr_default'' | Some n \<Rightarrow> n);
         action = rq_action req in
     if action = ''create'' then create_answer ''(full scan)'' task_name req
     else if action = ''start'' then create_answer ''(via deprecated start)'' task_name req
     else if action = ''pause'' then (status_simple task_name ''paused'' ''Replication paused'', [PauseReplication])
     else if action = ''resume'' then (status_simple task_name ''running'' ''Replication resumed'', [ResumeReplication])
     else if action = ''cutover''
     then (status_simple task_name ''cutover'' (''Cutover initiated at ts='' @ dec_digits (unat (cutover_target req))),
           [Cutover (cutover_target req)])
     else if action = ''shutdown'' then (status_simple task_name ''shutdown'' ''PCR shutdown'', [Shutdown])
     else if action = ''activate''
     then (status_simple task_name ''activated'' ''Target cluster activated - ready for read/write'', [Activate])
     else (RawBody (''unknown action: '' @ action), []))"

section \<open>The status endpoint\<close>

definition frontier_values :: "json \<Rightarrow> u64 list option" where
  "frontier_values j = (case j of JObject kvs \<Rightarrow> Some (List.map_filter (\<lambda>(k, v). json_u64 v) kvs) | _ \<Rightarrow> None)"

definition status_lag :: "u64 \<Rightarrow> u64 \<Rightarrow> u64" where
  "status_lag now_secs min_ts =
    (let resolved_secs = drop_bit 18 min_ts in if now_secs \<ge> resolved_secs then now_secs - resolved_secs else 0)"

definition lag_secs :: "u64 \<Rightarrow> json option \<Rightarrow> u64 option" where
  "lag_secs now_secs checkpoint =
    (case Option.bind checkpoint frontier_values of
       None \<Rightarrow> None
     | Some vs \<Rightarrow> if vs = [] then None else Some (status_lag now_secs (Min (set vs))))"

definition status_frontier :: "json option \<Rightarrow> (string \<times> u64) list option" where
  "status_frontier checkpoint =
    (case checkpoint of
       Some (JObject kvs) \<Rightarrow> Some (map (\<lambda>(k, v). (k, case json_u64 v of None \<Rightarrow> 0 | Some i \<Rightarrow> i)) kvs)
     | _ \<Rightarrow> None)"

definition status_display :: "string \<Rightarrow> u64 option \<Rightarrow> string \<times> string" where
  "status_display raw_state lag =
    (let st = trim raw_state in
     if st = ''Creating'' then (''Creating'', ''PCR replication starting with full scan'')
     else if st = ''Subscribing'' then (''Subscribing'', ''PCR replication active - subscribed to source regions'')
     else if st = ''Running'' then (''Running'', ''PCR replication running - actively ingesting data'')
     else if st = ''Paused'' then (''Paused'', ''PCR replication paused'')
     else if st = ''CuttingOver'' then (''CuttingOver'', ''Cutover in progress'')
     else if st = ''Completed'' then (''Completed'', ''Cutover completed, waiting for activation'')
     else if st = ''Activated'' then (''Activated'', ''Target cluster activated - ready for read/write'')
     else if st = ''Failed'' then (''Failed'', ''PCR replication failed'')
     else if lag \<noteq> None then (''Running'', ''PCR replication active - checkpoint data present'')
     else (''Paused'', ''PCR not started''))"

definition handle_status :: "u64 \<Rightarrow> string option \<Rightarrow> json option \<Rightarrow> http_body" where
  "handle_status now_secs state_file checkpoint =
    (let raw_state = (case state_file of None \<Rightarrow> ''unknown'' | Some s \<Rightarrow> s);
         lag = lag_secs now_secs checkpoint;
         (status, message) = status_display raw_state lag
     in StatusBody \<lparr>sp_task = ''pcr_default'', sp_status = status, sp_message = message, sp_lag_seconds = lag,
                    sp_frontier = status_frontier checkpoint\<rparr>)"

section \<open>Connections\<close>

fun words :: "string \<Rightarrow> string list" where
  "words [] = []"
| "words (c # cs) =
    (if is_space c then words cs
     else
       (case cs of
          [] \<Rightarrow> [[c]]
        | d # ds \<Rightarrow> if is_space d then [c] # words cs
                   else (case words cs of w # ws \<Rightarrow> (c # w) # ws | [] \<Rightarrow> [[c]])))"

text \<open>The headers end at the first blank line; the last content length counts.\<close>

fun read_headers :: "nat \<Rightarrow> string list \<Rightarrow> nat" where
  "read_headers len [] = len"
| "read_headers len (line # rest) =
    (if trim line = [] then len
     else if take 15 (map to_lower line) = ''content-length:''
     then read_headers (let ps = split_on (CHR '':'') line
                        in (case parse_u64 (trim (if length ps > 1 then ps ! 1 else ''0'')) of None \<Rightarrow> 0 | Some n \<Rightarrow> unat n)) rest
     else read_headers len rest)"

record connection_env =
  cn_parse :: "string \<Rightarrow> json option"
  cn_scheduler :: bool
  cn_now_secs :: u64
  cn_state_file :: "string option"
  cn_checkpoint :: "json option"

definition handle_connection ::
  "connection_env \<Rightarrow> string list \<Rightarrow> string \<Rightarrow> (nat \<times> http_body) option \<times> task_cmd list" where
  "handle_connection env lines data =
    (case lines of
       [] \<Rightarrow> (None, [])
     | request_line # headers \<Rightarrow>
         let parts = words request_line in
         if length parts < 2 then (None, [])
         else
           let content_length = read_headers 0 headers;
               body = take content_length data in
           if parts ! 0 = ''POST'' \<and> parts ! 1 = ''/pcr/control'' then
             (case Option.bind (cn_parse env body) (\<lambda>j. ok (request_of_json j)) of
                None \<Rightarrow> (Some (400, RawBody ''error''), [])
              | Some req \<Rightarrow>
                  if \<not> cn_scheduler env then (Some (503, RawBody ''PCR not initialized''), [])
                  else let (b, cmds) = handle_control req in (Some (200, b), cmds))
           else if parts ! 0 = ''GET'' \<and> parts ! 1 = ''/pcr/status''
           then (Some (200, handle_status (cn_now_secs env) (cn_state_file env) (cn_checkpoint env)), [])
           else (Some (404, RawBody ''not found''), []))"

section \<open>The command line tool\<close>

datatype ctl_command =
    CtlStart string string "string option"
  | CtlCreate string string string
  | CtlStandbyStatus string bool
  | CtlStatus string bool bool
  | CtlPause string
  | CtlResume string
  | CtlCutover string bool "string option"
  | CtlList bool bool
  | CtlDelete string bool

definition client_addr :: "string \<Rightarrow> string" where
  "client_addr addr = addr_host addr @ '':20190''"

definition control_json :: "string \<Rightarrow> string \<Rightarrow> string \<Rightarrow> json" where
  "control_json action task source_pd =
    JObject [(''action'', JString action), (''task'', JString task), (''source_pd'', JString source_pd)]"

definition cutover_json :: "string \<Rightarrow> bool \<Rightarrow> u64 option \<Rightarrow> json" where
  "cutover_json task latest cutover_ts =
    JObject [(''action'', JString ''cutover''), (''task'', JString task), (''latest'', JBool latest),
             (''cutover_ts'', case cutover_ts of None \<Rightarrow> JNull | Some ts \<Rightarrow> JInt (uint ts))]"

text \<open>The request a command posts, host and body; the other commands only read the status.\<close>

definition ctl_start :: "string \<Rightarrow> string \<Rightarrow> string option \<Rightarrow> string \<times> json" where
  "ctl_start pd source_pd task_name =
    (client_addr pd, control_json ''start'' (case task_name of None \<Rightarrow> ''pcr_default'' | Some n \<Rightarrow> n) source_pd)"

definition ctl_create :: "string \<Rightarrow> string \<Rightarrow> string \<Rightarrow> string \<times> json" where
  "ctl_create target source_pd task = (target, control_json ''create'' task source_pd)"

definition ctl_pause :: "string \<Rightarrow> string \<Rightarrow> string \<times> json" where
  "ctl_pause pd task = (client_addr pd, control_json ''pause'' task [])"

definition ctl_resume :: "string \<Rightarrow> string \<Rightarrow> string \<times> json" where
  "ctl_resume pd task = (client_addr pd, control_json ''resume'' task [])"

definition ctl_cutover :: "string \<Rightarrow> string \<Rightarrow> bool \<Rightarrow> string \<times> json" where
  "ctl_cutover pd task latest = (client_addr pd, cutover_json task latest None)"

definition ctl_delete :: "string \<Rightarrow> string \<Rightarrow> bool \<Rightarrow> (string \<times> json) option" where
  "ctl_delete pd task force =
    (if force then Some (client_addr pd, control_json ''shutdown'' task []) else None)"

fun ctl_request :: "string \<Rightarrow> ctl_command \<Rightarrow> (string \<times> json) option" where
  "ctl_request pd (CtlStart source_pd retention task_name) = Some (ctl_start pd source_pd task_name)"
| "ctl_request pd (CtlCreate target source_pd task) = Some (ctl_create target source_pd task)"
| "ctl_request pd (CtlPause task) = Some (ctl_pause pd task)"
| "ctl_request pd (CtlResume task) = Some (ctl_resume pd task)"
| "ctl_request pd (CtlCutover task latest system_time) = Some (ctl_cutover pd task latest)"
| "ctl_request pd (CtlDelete task force) = ctl_delete pd task force"
| "ctl_request pd _ = None"

lemmas ctl_defs = ctl_start_def ctl_create_def ctl_pause_def ctl_resume_def ctl_cutover_def ctl_delete_def

section \<open>From the command line to the task\<close>

text \<open>The commands the endpoint schedules for a request of the tool.\<close>

definition ctl_effect :: "string \<Rightarrow> ctl_command \<Rightarrow> task_cmd list" where
  "ctl_effect pd cmd =
    (case ctl_request pd cmd of
       None \<Rightarrow> []
     | Some (host, j) \<Rightarrow> (case request_of_json j of Inl e \<Rightarrow> [] | Inr req \<Rightarrow> snd (handle_control req)))"

lemma request_of_control_json:
  "request_of_json (control_json action task source_pd) =
    Inr \<lparr>rq_action = action, rq_task = Some task, rq_source_pd = Some source_pd, rq_cutover_ts = None, rq_latest = None\<rparr>"
  by (simp add: request_of_json_def control_json_def opt_field_def)

lemma request_of_cutover_json:
  "request_of_json (cutover_json task latest ts) =
    Inr \<lparr>rq_action = ''cutover'', rq_task = Some task, rq_source_pd = None, rq_cutover_ts = ts, rq_latest = Some latest\<rparr>"
proof (cases ts)
  case (Some t)
  have "json_u64 (JInt (uint t)) = Some t" using uint_lt2p [of t] by simp
  then show ?thesis by (simp add: Some request_of_json_def cutover_json_def opt_field_def)
qed (simp add: request_of_json_def cutover_json_def opt_field_def)

text \<open>what the tool's commands do.  Each command of the tool that posts a request schedules the command of
  the control task it stands for; creating schedules nothing unless the source address has a host and a
  port, deleting needs the force flag, and a cutover that is not to the latest point ignores the
  requested time and asks for timestamp zero.\<close>

theorem ctl_commands_scheduled:
  "ctl_effect pd (CtlCreate target source_pd task) =
      (if valid_source_pd source_pd then [CreateReplication source_pd task] else [])
   \<and> ctl_effect pd (CtlStart source_pd retention (Some task)) =
      (if valid_source_pd source_pd then [CreateReplication source_pd task] else [])
   \<and> ctl_effect pd (CtlPause task) = [PauseReplication]
   \<and> ctl_effect pd (CtlResume task) = [ResumeReplication]
   \<and> ctl_effect pd (CtlCutover task latest system_time) = [Cutover (if latest then - 1 else 0)]
   \<and> ctl_effect pd (CtlDelete task force) = (if force then [Shutdown] else [])"
  by (simp add: ctl_effect_def ctl_defs request_of_control_json request_of_cutover_json handle_control_def create_answer_def
      cutover_target_def Let_def)

text \<open>C38: a cutover to a given time never completes.  The cutover the tool requests without the latest flag
  gives every running loop the target zero, which no frontier reaches; when the wait times out the task
  has failed.\<close>

theorem timed_cutover_never_ready:
  assumes "ta_state t = Subscribing" "ta_done_rx t" "te_wait env = WaitTimeout"
    and "ctl_effect pd (CtlCutover task False system_time) = [cmd]" "t' = run_task env cmd t"
  shows "ta_state t' = Failed \<and> ta_loops t' = map (\<lambda>(c, pc). (c, pc\<lparr>pc_cutover_ts := 0\<rparr>)) (ta_loops t)
    \<and> (\<forall>(c, pc) \<in> set (ta_loops t'). \<forall>frontier. \<not> is_cutover_ready (pc\<lparr>pc_frontier := frontier\<rparr>))"
proof -
  have cmd: "cmd = Cutover 0"
    using assms(4) by (simp add: ctl_effect_def ctl_defs request_of_cutover_json handle_control_def cutover_target_def Let_def)
  have t': "ta_state t' = Failed" "ta_loops t' = map (\<lambda>(c, pc). (c, pc\<lparr>pc_cutover_ts := 0\<rparr>)) (ta_loops t)"
    using assms(1-3) by (simp_all add: assms(5) cmd run_task_def end_newest_loop_def Let_def)
  then show ?thesis by (auto simp: is_cutover_ready_def)
qed

theorem timed_cutover_never_ready_witness:
  "ta_state (run_task (example_task_env WaitTimeout) (Cutover 0) example_task) = Failed"
proof -
  have "ctl_effect ''127.0.0.1:2379'' (CtlCutover ''t'' False (Some ''2024-01-01'')) = [Cutover 0]"
    by (simp add: ctl_effect_def ctl_defs request_of_cutover_json handle_control_def cutover_target_def Let_def)
  then show ?thesis
    using timed_cutover_never_ready [OF example_task_fields(1,2) _ _ refl, of "example_task_env WaitTimeout"]
    by (simp add: example_task_env_def)
qed

text \<open>A replication that is a day behind reports no lag: the endpoint takes the milliseconds of the timestamp
  for seconds.\<close>

lemma status_lag_example:
  "compute_lag 1700000000 (push_bit 18 (1699913600 * 1000)) = 86400"
  "status_lag 1700000000 (push_bit 18 (1699913600 * 1000)) = 0"
  by (simp_all add: compute_lag_def status_lag_def)

end
