(* ===== verification/CdcChannel.thy ===== *)
theory CdcChannel
  imports LockTracking
begin

text \<open>
  The change-data messages a delegate sends and the channel that carries them
  (\<open>components/cdc/src/channel.rs\<close>, \<open>errors.rs\<close>): events of rows, errors and resolved timestamps, the
  sending half with the memory quota every unforced event is charged to, the receiving half that
  gives the bytes back, and the batcher that packs events into responses.  The row and event
  messages are those of kvproto, with the fields the sources use; the protobuf size of an event is a
  parameter \<open>esize\<close>.  The two queues of a channel are lists; which of them the receiver polls next is
  a parameter, and so is whether the receiver is still there at each \<open>feed\<close>.
\<close>

section \<open>Messages\<close>

datatype event_log_type = RtUnknown | RtPrewrite | RtCommit | RtRollback | RtCommitted | RtInitialized

datatype event_op = EopUnknown | EopPut | EopDelete

record event_row =
  er_start_ts :: u64
  er_commit_ts :: u64
  er_type :: event_log_type
  er_op_type :: event_op
  er_key :: bytes
  er_value :: bytes
  er_old_value :: bytes
  er_expire_ts_unix_secs :: u64
  er_txn_source :: u64

definition event_row_default :: event_row where
  "event_row_default = \<lparr>er_start_ts = 0, er_commit_ts = 0, er_type = RtUnknown, er_op_type = EopUnknown,
     er_key = [], er_value = [], er_old_value = [], er_expire_ts_unix_secs = 0, er_txn_source = 0\<rparr>"

datatype error_event =
    ErrCongested u64
  | ErrNotLeader u64
  | ErrEpochNotMatch "region list"
  | ErrRegionNotFound u64
  | ErrClusterIdMismatch u64 u64
  | ErrCompatibility
  | ErrServerIsBusy
  | ErrDuplicateRequest u64

datatype event_body = Entries "event_row list" | EventError error_event | EventResolved u64

record event =
  evn_region_id :: u64
  evn_index :: u64
  evn_request_id :: u64
  evn_body :: event_body

datatype cdc_event =
    CeResolvedTs "u64 list" u64 u64
  | CeEvent event
  | CeBarrier

definition has_region_error :: "cdc_error \<Rightarrow> bool" where
  "has_region_error e =
    (case e of CdcKv (Some _) \<Rightarrow> True | CdcTxn (Some _) \<Rightarrow> True | CdcRequest _ \<Rightarrow> True | _ \<Rightarrow> False)"

text \<open>The message of an error that is no region error is its debug text, left empty here.\<close>

definition extract_region_error :: "cdc_error \<Rightarrow> region_error" where
  "extract_region_error e =
    (case e of CdcKv (Some r) \<Rightarrow> r | CdcTxn (Some r) \<Rightarrow> r | CdcRequest r \<Rightarrow> r
     | _ \<Rightarrow> OtherRegionError [])"

definition into_error_event :: "u64 \<Rightarrow> cdc_error \<Rightarrow> error_event" where
  "into_error_event region_id e =
    (if e = CdcSink SendCongested \<or> e = CdcMemoryQuotaExceeded then ErrCongested region_id
     else (case extract_region_error e of
             NotLeader leader \<Rightarrow> ErrNotLeader leader
           | EpochNotMatch _ regions \<Rightarrow> ErrEpochNotMatch regions
           | OtherRegionError _ \<Rightarrow> ErrRegionNotFound region_id))"

section \<open>Sizes and batches\<close>

definition CDC_EVENT_MAX_BYTES :: nat where
  "CDC_EVENT_MAX_BYTES = 32 * 1024"

definition CDC_EVENT_MAX_COUNT :: nat where
  "CDC_EVENT_MAX_COUNT = 64"

definition CDC_RESP_MAX_BYTES :: "32 word" where
  "CDC_RESP_MAX_BYTES = 6 * 1024 * 1024"

definition cdc_event_size :: "(event \<Rightarrow> 32 word) \<Rightarrow> cdc_event \<Rightarrow> 32 word" where
  "cdc_event_size esize e =
    (case e of
       CeResolvedTs regions ts req \<Rightarrow>
         let approximate_region_id_bytes = 4; approximate_tso_bytes = 9; tag_bytes = 1 in
         of_nat (length regions) * (tag_bytes + approximate_region_id_bytes)
           + (tag_bytes + approximate_tso_bytes)
     | CeEvent ev \<Rightarrow> esize ev
     | CeBarrier \<Rightarrow> 0)"

record change_data_event =
  cde_events :: "event list"
  cde_resolved_ts :: "(u64 list \<times> u64 \<times> u64) option"

definition change_data_default :: change_data_event where
  "change_data_default = \<lparr>cde_events = [], cde_resolved_ts = None\<rparr>"

record resp_batcher =
  rb_buffer :: "change_data_event list"
  rb_last_size :: "32 word"
  rb_total_event_bytes :: nat
  rb_total_resolved_ts_bytes :: nat

definition resp_batcher_new :: resp_batcher where
  "resp_batcher_new = \<lparr>rb_buffer = [], rb_last_size = 0, rb_total_event_bytes = 0,
     rb_total_resolved_ts_bytes = 0\<rparr>"

definition push_last :: "event \<Rightarrow> change_data_event list \<Rightarrow> change_data_event list" where
  "push_last ev buffer =
    butlast buffer @ [(last buffer)\<lparr>cde_events := cde_events (last buffer) @ [ev]\<rparr>]"

definition resp_batcher_push :: "(event \<Rightarrow> 32 word) \<Rightarrow> cdc_event \<Rightarrow> resp_batcher \<Rightarrow> resp_batcher" where
  "resp_batcher_push esize e b =
    (let size = cdc_event_size esize e in
     case e of
       CeEvent ev \<Rightarrow>
         let b = (if rb_buffer b = [] \<or> rb_last_size b + size \<ge> CDC_RESP_MAX_BYTES
                  then b\<lparr>rb_last_size := 0, rb_buffer := rb_buffer b @ [change_data_default]\<rparr> else b)
         in b\<lparr>rb_last_size := rb_last_size b + size,
              rb_buffer := push_last ev (rb_buffer b),
              rb_total_event_bytes := rb_total_event_bytes b + unat size\<rparr>
     | CeResolvedTs regions ts req \<Rightarrow>
         b\<lparr>rb_buffer := rb_buffer b @ [change_data_default\<lparr>cde_resolved_ts := Some (regions, ts, req)\<rparr>],
           rb_last_size := CDC_RESP_MAX_BYTES,
           rb_total_resolved_ts_bytes := rb_total_resolved_ts_bytes b + unat size\<rparr>
     | CeBarrier \<Rightarrow> b\<lparr>rb_last_size := CDC_RESP_MAX_BYTES\<rparr>)"

section \<open>The channel\<close>

text \<open>A scanned event keeps the flag of its scan; the flag is read when the event is received.\<close>

record cdc_channel =
  cch_observed :: "(cdc_event \<times> nat) list"
  cch_scaned :: "(cdc_event \<times> nat \<times> nat) list"
  cch_open :: bool

definition cdc_channel_new :: cdc_channel where
  "cdc_channel_new = \<lparr>cch_observed = [], cch_scaned = [], cch_open = True\<rparr>"

type_synonym metered = "memory_quota \<times> cdc_channel"

definition sink_unbounded_send ::
  "(event \<Rightarrow> 32 word) \<Rightarrow> cdc_event \<Rightarrow> bool \<Rightarrow> metered \<Rightarrow> (send_error + unit) \<times> metered" where
  "sink_unbounded_send esize observed_event force st =
    (case st of (q, ch) \<Rightarrow>
     let n = (if \<not> force then unat (cdc_event_size esize observed_event) else 0) in
     case (if n \<noteq> 0 then quota_alloc n q else (Inr (), q)) of
       (Inl _, q) \<Rightarrow> (Inl SendCongested, q, ch)
     | (Inr _, q) \<Rightarrow>
         if cch_open ch
         then (Inr (), q, ch\<lparr>cch_observed := cch_observed ch @ [(observed_event, n)]\<rparr>)
         else (Inl SendDisconnected, quota_free n q, ch))"

fun feed_all ::
  "(event \<Rightarrow> 32 word) \<Rightarrow> bool list \<Rightarrow> nat \<Rightarrow> cdc_event list \<Rightarrow> cdc_channel \<Rightarrow> bool \<times> cdc_channel" where
  "feed_all esize feeds truncated [] ch = (True, ch)"
| "feed_all esize [] truncated (e # es) ch = (False, ch\<lparr>cch_open := False\<rparr>)"
| "feed_all esize (fed # feeds) truncated (e # es) ch =
    (if fed \<and> cch_open ch
     then feed_all esize feeds truncated es
       (ch\<lparr>cch_scaned := cch_scaned ch @ [(e, unat (cdc_event_size esize e), truncated)]\<rparr>)
     else (False, ch\<lparr>cch_open := False\<rparr>))"

definition send_all ::
  "(event \<Rightarrow> 32 word) \<Rightarrow> bool list \<Rightarrow> bool \<Rightarrow> cdc_event list \<Rightarrow> nat \<Rightarrow> metered \<Rightarrow> (send_error + unit) \<times> metered"
  where
  "send_all esize feeds flushed scaned_events truncated st =
    (case st of (q, ch) \<Rightarrow>
     let total_bytes = sum_list (map (cdc_event_size esize) scaned_events) in
     case quota_alloc (unat total_bytes) q of
       (Inl _, q) \<Rightarrow> (Inl SendCongested, q, ch)
     | (Inr _, q) \<Rightarrow>
       (case feed_all esize feeds truncated scaned_events ch of
          (False, ch) \<Rightarrow> (Inl SendDisconnected, quota_free (unat total_bytes) q, ch)
        | (True, ch) \<Rightarrow>
            if flushed then (Inr (), q, ch)
            else (Inl SendDisconnected, quota_free (unat total_bytes) q, ch\<lparr>cch_open := False\<rparr>)))"

text \<open>One poll of the receiver: \<open>True\<close> polls the scanned events, \<open>False\<close> the observed ones.\<close>

definition drain_next :: "(nat \<Rightarrow> bool) \<Rightarrow> bool \<Rightarrow> metered \<Rightarrow> (cdc_event \<times> nat) option \<times> metered" where
  "drain_next truncated scaned st =
    (case st of (q, ch) \<Rightarrow>
     if scaned then
       (case cch_scaned ch of
          [] \<Rightarrow> (None, q, ch)
        | (e, n, t) # rest \<Rightarrow>
            if truncated t then (None, quota_free n q, ch\<lparr>cch_scaned := rest\<rparr>)
            else (Some (e, n), q, ch\<lparr>cch_scaned := rest\<rparr>))
     else
       (case cch_observed ch of
          [] \<Rightarrow> (None, q, ch)
        | x # rest \<Rightarrow> (Some x, q, ch\<lparr>cch_observed := rest\<rparr>)))"

fun drain_chunk :: "(nat \<Rightarrow> bool) \<Rightarrow> bool list \<Rightarrow> metered \<Rightarrow> (cdc_event \<times> nat) list \<times> metered" where
  "drain_chunk truncated [] st = ([], st)"
| "drain_chunk truncated (p # ps) st =
    (let (x, st) = drain_next truncated p st; (xs, st) = drain_chunk truncated ps st
     in ((case x of None \<Rightarrow> xs | Some y \<Rightarrow> y # xs), st))"

definition forward_chunk ::
  "(event \<Rightarrow> 32 word) \<Rightarrow> (nat \<Rightarrow> bool) \<Rightarrow> bool list \<Rightarrow> metered \<Rightarrow> change_data_event list \<times> metered" where
  "forward_chunk esize truncated polls st =
    (let (events, q, ch) = drain_chunk truncated polls st;
         batcher = fold (\<lambda>(e, n). resp_batcher_push esize e) events resp_batcher_new;
         q = quota_free (sum_list (map snd events)) q
     in (rb_buffer batcher, q, ch))"

text \<open>Forwarding chunk after chunk; \<open>sunk\<close> says which chunks the gRPC sink takes.\<close>

fun forward ::
  "(event \<Rightarrow> 32 word) \<Rightarrow> (nat \<Rightarrow> bool) \<Rightarrow> (bool list \<times> bool) list \<Rightarrow> metered \<Rightarrow> bool \<times> change_data_event list \<times> metered"
  where
  "forward esize truncated [] st = (True, [], st)"
| "forward esize truncated ((polls, sunk) # rest) st =
    (let (resps, st) = forward_chunk esize truncated polls st in
     if sunk then let (fine, more, st) = forward esize truncated rest st in (fine, resps @ more, st)
     else (False, [], st))"

definition drop_drain :: "(nat \<Rightarrow> bool) \<Rightarrow> metered \<Rightarrow> memory_quota" where
  "drop_drain truncated st =
    (case st of (q, ch) \<Rightarrow>
     let (events, q, _) = drain_chunk truncated
           (replicate (length (cch_scaned ch)) True @ replicate (length (cch_observed ch)) False) (q, ch)
     in quota_free (sum_list (map snd events)) q)"

section \<open>Responses partition the events\<close>

definition events_of :: "cdc_event list \<Rightarrow> event list" where
  "events_of es = concat (map (\<lambda>e. case e of CeEvent ev \<Rightarrow> [ev] | _ \<Rightarrow> []) es)"

lemma events_of_simps [simp]:
  "events_of [] = []"
  "events_of (es @ es') = events_of es @ events_of es'"
  "events_of [CeEvent ev] = [ev]"
  "events_of [CeResolvedTs rs ts req] = []"
  "events_of [CeBarrier] = []"
  by (simp_all add: events_of_def)

definition resp_bytes :: "(event \<Rightarrow> 32 word) \<Rightarrow> change_data_event \<Rightarrow> nat" where
  "resp_bytes esize r = sum_list (map (\<lambda>ev. unat (esize ev)) (cde_events r))"

definition resp_ok :: "(event \<Rightarrow> 32 word) \<Rightarrow> change_data_event \<Rightarrow> bool" where
  "resp_ok esize r \<longleftrightarrow>
    (case cde_resolved_ts r of
       Some _ \<Rightarrow> cde_events r = []
     | None \<Rightarrow> length (cde_events r) = 1 \<or> resp_bytes esize r < unat CDC_RESP_MAX_BYTES)"

text \<open>While the last response is open, \<open>last_size\<close> is its size; otherwise it is at the limit.\<close>

definition resp_batcher_ok :: "(event \<Rightarrow> 32 word) \<Rightarrow> resp_batcher \<Rightarrow> bool" where
  "resp_batcher_ok esize b \<longleftrightarrow>
    list_all (resp_ok esize) (rb_buffer b)
    \<and> (rb_last_size b = CDC_RESP_MAX_BYTES
       \<or> rb_buffer b \<noteq> [] \<and> cde_resolved_ts (last (rb_buffer b)) = None
         \<and> unat (rb_last_size b) = resp_bytes esize (last (rb_buffer b))
       \<or> rb_buffer b = [])
    \<and> (rb_last_size b = CDC_RESP_MAX_BYTES \<or> unat (rb_last_size b) < 2 ^ 31)"

lemma list_all_butlast: "list_all P xs \<Longrightarrow> list_all P (butlast xs)"
  by (induction xs) auto

lemma list_all_last: "list_all P xs \<Longrightarrow> xs \<noteq> [] \<Longrightarrow> P (last xs)"
  by (simp add: list_all_iff)

lemma unat_CDC_RESP_MAX_BYTES: "unat CDC_RESP_MAX_BYTES = 6291456"
  by (simp add: CDC_RESP_MAX_BYTES_def)

lemma resp_size_plus:
  fixes a b :: "32 word"
  assumes "unat a < 2 ^ 31" "unat b < 2 ^ 31"
  shows "unat (a + b) = unat a + unat b"
  using assms by (subst unat_add_lem [THEN iffD1]) auto

lemma resp_batcher_push_ok:
  assumes b: "resp_batcher_ok esize b" and e: "\<And>ev. unat (esize ev) < 2 ^ 31"
  shows "resp_batcher_ok esize (resp_batcher_push esize e b)
    \<and> concat (map cde_events (rb_buffer (resp_batcher_push esize e b)))
      = concat (map cde_events (rb_buffer b)) @ events_of [e]"
proof (cases e)
  case (CeResolvedTs rs ts req)
  then show ?thesis
    using b by (simp add: resp_batcher_push_def resp_batcher_ok_def resp_ok_def change_data_default_def
        Let_def)
next
  case CeBarrier
  then show ?thesis
    using b by (simp add: resp_batcher_push_def resp_batcher_ok_def Let_def)
next
  case (CeEvent ev)
  let ?fresh = "rb_buffer b = [] \<or> rb_last_size b + esize ev \<ge> CDC_RESP_MAX_BYTES"
  show ?thesis
  proof (cases ?fresh)
    case True
    have "rb_buffer (resp_batcher_push esize e b)
        = rb_buffer b @ [\<lparr>cde_events = [ev], cde_resolved_ts = None\<rparr>]"
      "rb_last_size (resp_batcher_push esize e b) = esize ev"
      using True by (simp_all add: CeEvent resp_batcher_push_def cdc_event_size_def push_last_def
          change_data_default_def Let_def)
    with b e show ?thesis
      by (simp add: CeEvent resp_batcher_ok_def resp_ok_def resp_bytes_def)
  next
    case False
    then have ne: "rb_buffer b \<noteq> []" and small: "rb_last_size b + esize ev < CDC_RESP_MAX_BYTES"
      by (auto simp: not_le)
    have "rb_last_size b \<noteq> CDC_RESP_MAX_BYTES"
    proof
      assume "rb_last_size b = CDC_RESP_MAX_BYTES"
      then have "unat (CDC_RESP_MAX_BYTES + esize ev) = 6291456 + unat (esize ev)"
        using resp_size_plus [of CDC_RESP_MAX_BYTES "esize ev"] e [of ev]
        by (simp add: unat_CDC_RESP_MAX_BYTES)
      with small \<open>rb_last_size b = _\<close> show False
        by (simp add: word_less_nat_alt unat_CDC_RESP_MAX_BYTES)
    qed
    with b ne have last: "cde_resolved_ts (last (rb_buffer b)) = None"
      "unat (rb_last_size b) = resp_bytes esize (last (rb_buffer b))" "unat (rb_last_size b) < 2 ^ 31"
      by (auto simp: resp_batcher_ok_def)
    have sum: "unat (rb_last_size b + esize ev) = unat (rb_last_size b) + unat (esize ev)"
      using last(3) e by (rule resp_size_plus)
    have push: "rb_buffer (resp_batcher_push esize e b) = push_last ev (rb_buffer b)"
      "rb_last_size (resp_batcher_push esize e b) = rb_last_size b + esize ev"
      using False by (simp_all add: CeEvent resp_batcher_push_def cdc_event_size_def Let_def)
    have split: "concat (map cde_events (rb_buffer b))
        = concat (map cde_events (butlast (rb_buffer b))) @ cde_events (last (rb_buffer b))"
      by (subst append_butlast_last_id [OF ne, symmetric], subst map_append) simp
    have "resp_bytes esize (last (rb_buffer b)) + unat (esize ev) < 6291456"
      using small sum last(2) by (simp add: word_less_nat_alt unat_CDC_RESP_MAX_BYTES)
    with b last sum show ?thesis
      unfolding resp_batcher_ok_def push split
      by (auto simp: push_last_def CeEvent resp_ok_def resp_bytes_def list_all_butlast
          unat_CDC_RESP_MAX_BYTES)
  qed
qed

lemma resp_batcher_fold_ok:
  assumes "\<And>ev. unat (esize ev) < 2 ^ 31" and "resp_batcher_ok esize b"
  shows "resp_batcher_ok esize (fold (resp_batcher_push esize) es b)
    \<and> concat (map cde_events (rb_buffer (fold (resp_batcher_push esize) es b)))
      = concat (map cde_events (rb_buffer b)) @ events_of es"
  using assms(2)
proof (induction es arbitrary: b)
  case (Cons e es)
  have "events_of (e # es) = events_of [e] @ events_of es" by (simp add: events_of_def)
  with Cons.IH [of "resp_batcher_push esize e b"] resp_batcher_push_ok [OF Cons.prems assms(1), of e]
  show ?case by simp
qed simp

section \<open>The channel gives back what it was charged\<close>

definition pending_bytes :: "cdc_channel \<Rightarrow> nat" where
  "pending_bytes ch = sum_list (map snd (cch_observed ch)) + sum_list (map (\<lambda>(e, n, t). n) (cch_scaned ch))"

definition metered_ok :: "int \<Rightarrow> metered \<Rightarrow> bool" where
  "metered_ok base st = (case st of (q, ch) \<Rightarrow>
     quota_sane q \<and> 0 \<le> base \<and> mq_in_use q = base + int (pending_bytes ch))"

lemma quota_alloc_free:
  "quota_sane q \<Longrightarrow> quota_alloc n q = (Inr u, q') \<Longrightarrow> quota_free n q' = q"
  by (auto simp: quota_alloc_sane quota_free_exact quota_sane_def split: if_splits)

lemma sink_unbounded_send_metered:
  assumes "metered_ok base st"
  shows "metered_ok base (snd (sink_unbounded_send esize e force st))"
proof (cases st)
  case (Pair q ch)
  define n where "n = (if \<not> force then unat (cdc_event_size esize e) else 0)"
  have q: "quota_sane q" using assms Pair by (simp add: metered_ok_def)
  obtain r q' where alloc: "(if n \<noteq> 0 then quota_alloc n q else (Inr (), q)) = (r, q')"
    by (rule prod.exhaust)
  have free: "quota_free n q' = q" if "r = Inr ()"
    using alloc that q quota_alloc_free [of q n "()" q']
    by (auto simp: quota_free_def quota_sane_def Let_def split: if_splits)
  show ?thesis
  proof (cases r)
    case (Inl x)
    then have "q' = q" using alloc q by (auto simp: quota_alloc_sane split: if_splits)
    with Inl alloc assms Pair show ?thesis by (simp add: sink_unbounded_send_def n_def [symmetric])
  next
    case (Inr u)
    have "mq_in_use q' = mq_in_use q + int n" "quota_sane q'"
      using alloc Inr q by (auto simp: quota_alloc_sane quota_sane_def split: if_splits)
    with Inr alloc assms Pair free show ?thesis
      by (simp add: sink_unbounded_send_def n_def [symmetric] metered_ok_def pending_bytes_def)
  qed
qed

lemma feed_all_pending:
  "feed_all esize feeds t es ch = (True, ch') \<Longrightarrow>
    pending_bytes ch' = pending_bytes ch + sum_list (map (\<lambda>e. unat (cdc_event_size esize e)) es)"
  by (induction esize feeds t es ch arbitrary: ch' rule: feed_all.induct)
    (auto simp: pending_bytes_def split: if_splits)

lemma unat_sum_list:
  "sum_list (map (\<lambda>e. unat (f e :: 'a :: len word)) es) < 2 ^ LENGTH('a) \<Longrightarrow>
    unat (sum_list (map f es)) = sum_list (map (\<lambda>e. unat (f e)) es)"
proof (induction es)
  case (Cons e es)
  then have "unat (sum_list (map f es)) = sum_list (map (\<lambda>e. unat (f e)) es)" by simp
  with Cons.prems show ?case by (simp add: unat_add_lem [THEN iffD1])
qed simp

lemma send_all_metered:
  assumes "metered_ok base st" "send_all esize feeds flushed es t st = (r, st')" "r \<noteq> Inl SendDisconnected"
    and "sum_list (map (\<lambda>e. unat (cdc_event_size esize e)) es) < 2 ^ 32"
  shows "metered_ok base st'"
proof (cases st)
  case (Pair q ch)
  have "unat (sum_list (map (cdc_event_size esize) es)) = sum_list (map (\<lambda>e. unat (cdc_event_size esize e)) es)"
    using assms(4) by (intro unat_sum_list) simp
  with assms(1-3) feed_all_pending [of esize feeds t es ch] show ?thesis
    by (auto simp: Pair send_all_def metered_ok_def quota_alloc_sane quota_sane_def Let_def
        split: prod.splits bool.splits if_splits)
qed

lemma drain_next_metered:
  assumes "metered_ok base st" "drain_next truncated p st = (x, st')"
  shows "metered_ok (base + int (case x of None \<Rightarrow> 0 | Some (e, n) \<Rightarrow> n)) st'"
  using assms
  by (cases st) (auto simp: drain_next_def metered_ok_def pending_bytes_def quota_free_exact
      quota_sane_def split: if_splits list.splits)

lemma drain_chunk_metered:
  "metered_ok base st \<Longrightarrow> drain_chunk truncated ps st = (xs, st') \<Longrightarrow>
    metered_ok (base + int (sum_list (map snd xs))) st'"
proof (induction ps arbitrary: base st xs)
  case (Cons p ps)
  obtain x st1 where 1: "drain_next truncated p st = (x, st1)" by (rule prod.exhaust)
  obtain ys where 2: "drain_chunk truncated ps st1 = (ys, st')"
    using Cons.prems(2) 1 by (auto simp: Let_def split: prod.splits)
  from Cons.IH [OF drain_next_metered [OF Cons.prems(1) 1] 2] 1 2 Cons.prems(2) show ?case
    by (auto simp: add.assoc split: option.splits)
qed simp

lemma metered_free:
  assumes "metered_ok (base + int n) (q, ch)" "0 \<le> base"
  shows "metered_ok base (quota_free n q, ch)"
  using assms by (auto simp: metered_ok_def quota_free_exact quota_sane_def)

lemma forward_chunk_metered:
  assumes "metered_ok base st"
  shows "metered_ok base (snd (forward_chunk esize truncated polls st))"
proof -
  obtain events q ch where d: "drain_chunk truncated polls st = (events, q, ch)" by (rule prod_cases3)
  have "0 \<le> base" using assms by (cases st) (simp add: metered_ok_def)
  with drain_chunk_metered [OF assms d] d show ?thesis
    by (simp add: forward_chunk_def metered_free Let_def)
qed

lemma forward_metered:
  "metered_ok base st \<Longrightarrow> metered_ok base (snd (snd (forward esize truncated chunks st)))"
proof (induction chunks arbitrary: st)
  case (Cons c chunks)
  obtain polls sunk where c: "c = (polls, sunk)" by (rule prod.exhaust)
  obtain resps st1 where f: "forward_chunk esize truncated polls st = (resps, st1)" by (rule prod.exhaust)
  have "metered_ok base st1"
    using forward_chunk_metered [OF Cons.prems, of esize truncated polls] f by simp
  with Cons.IH [of st1] c f show ?case by (simp add: case_prod_unfold Let_def)
qed simp

lemma drain_all_empty:
  "drain_chunk truncated (replicate (length (cch_scaned ch)) True @ replicate (length (cch_observed ch)) False)
     (q, ch) = (xs, q', ch') \<Longrightarrow> cch_scaned ch' = [] \<and> cch_observed ch' = []"
proof (induction "cch_scaned ch" arbitrary: ch q xs)
  case Nil
  then show ?case
  proof (induction "cch_observed ch" arbitrary: ch q xs)
    case (Cons x rest)
    obtain ys where "drain_chunk truncated (replicate (length rest) False)
        (q, ch\<lparr>cch_observed := rest\<rparr>) = (ys, q', ch')"
      using Cons.prems Cons.hyps(2) [symmetric] by (auto simp: drain_next_def split: prod.splits)
    with Cons.hyps(1) [of "ch\<lparr>cch_observed := rest\<rparr>" q ys] Cons.prems(1) show ?case by simp
  qed auto
next
  case (Cons x rest)
  obtain e n t where x: "x = (e, n, t)" by (rule prod_cases3)
  obtain ys q1 where "drain_chunk truncated
      (replicate (length rest) True @ replicate (length (cch_observed ch)) False)
        (q1, ch\<lparr>cch_scaned := rest\<rparr>) = (ys, q', ch')"
    using Cons.prems Cons.hyps(2) [symmetric]
    by (auto simp: drain_next_def x split: prod.splits if_splits)
  with Cons.hyps(1) [of "ch\<lparr>cch_scaned := rest\<rparr>" q1 ys] show ?case by simp
qed

lemma drop_drain_metered:
  assumes "metered_ok base (q, ch)"
  shows "mq_in_use (drop_drain truncated (q, ch)) = base"
proof -
  obtain xs q' ch' where d: "drain_chunk truncated
      (replicate (length (cch_scaned ch)) True @ replicate (length (cch_observed ch)) False) (q, ch) = (xs, q', ch')"
    by (rule prod_cases3)
  have "metered_ok (base + int (sum_list (map snd xs))) (q', ch')"
    using assms d by (rule drain_chunk_metered)
  moreover have "pending_bytes ch' = 0"
    using drain_all_empty [OF d] by (simp add: pending_bytes_def)
  moreover have "0 \<le> base" using assms by (simp add: metered_ok_def)
  ultimately show ?thesis using d by (auto simp: drop_drain_def metered_ok_def quota_free_exact)
qed

text \<open>A life of a channel: observed events, scans, and rounds of the receiver.  A scan that loses its
  receiver ends the run.\<close>

datatype channel_op =
    ChSend cdc_event bool
  | ChScan "bool list" bool "cdc_event list" nat
  | ChForward "nat \<Rightarrow> bool" "(bool list \<times> bool) list"

fun channel_step :: "(event \<Rightarrow> 32 word) \<Rightarrow> channel_op \<Rightarrow> metered \<Rightarrow> metered option" where
  "channel_step esize (ChSend e force) st = Some (snd (sink_unbounded_send esize e force st))"
| "channel_step esize (ChScan feeds flushed es t) st =
    (case send_all esize feeds flushed es t st of
       (Inl SendDisconnected, _) \<Rightarrow> None
     | (_, st) \<Rightarrow> Some st)"
| "channel_step esize (ChForward truncated chunks) st = Some (snd (snd (forward esize truncated chunks st)))"

fun run_channel :: "(event \<Rightarrow> 32 word) \<Rightarrow> channel_op list \<Rightarrow> metered \<Rightarrow> metered option" where
  "run_channel esize [] st = Some st"
| "run_channel esize (x # xs) st = Option.bind (channel_step esize x st) (run_channel esize xs)"

fun scan_fits :: "(event \<Rightarrow> 32 word) \<Rightarrow> channel_op \<Rightarrow> bool" where
  "scan_fits esize (ChScan feeds flushed es t) =
    (sum_list (map (\<lambda>e. unat (cdc_event_size esize e)) es) < 2 ^ 32)"
| "scan_fits esize _ = True"

lemma channel_step_metered:
  assumes "metered_ok base st" "scan_fits esize x" "channel_step esize x st = Some st'"
  shows "metered_ok base st'"
proof (cases x)
  case (ChSend e force)
  with assms(3) sink_unbounded_send_metered [OF assms(1)] show ?thesis by auto
next
  case (ChScan feeds flushed es t)
  obtain r st1 where r: "send_all esize feeds flushed es t st = (r, st1)" by (rule prod.exhaust)
  with assms(3) ChScan have "st' = st1" "r \<noteq> Inl SendDisconnected"
    by (auto split: sum.splits send_error.splits)
  with send_all_metered [OF assms(1) r] assms(2) ChScan show ?thesis by simp
next
  case (ChForward truncated chunks)
  with assms(3) forward_metered [OF assms(1)] show ?thesis by auto
qed

lemma run_channel_metered:
  "metered_ok base st \<Longrightarrow> list_all (scan_fits esize) xs \<Longrightarrow> run_channel esize xs st = Some st' \<Longrightarrow>
    metered_ok base st'"
  by (induction xs arbitrary: st) (auto simp: bind_eq_Some_conv intro: channel_step_metered)

section \<open>Properties\<close>

text \<open>C25: the responses a chunk of events is packed into carry exactly the events of the chunk, in order;
  a resolved timestamp travels alone, and every other response holds one event or stays below the
  limit of six megabytes (events below two gigabytes, so that the 32-bit sum does not wrap).\<close>

theorem responses_partition_events:
  assumes "\<And>ev. unat (esize ev) < 2 ^ 31"
    and "forward_chunk esize truncated polls st = (resps, st')"
    and "drain_chunk truncated polls st = (events, st1)"
  shows "concat (map cde_events resps) = events_of (map fst events) \<and> list_all (resp_ok esize) resps"
proof -
  have "fold (\<lambda>(e, n). resp_batcher_push esize e) events b
      = fold (resp_batcher_push esize) (map fst events) b" for b
    by (simp add: fold_map case_prod_unfold comp_def)
  moreover have "resp_batcher_ok esize resp_batcher_new"
    by (simp add: resp_batcher_ok_def resp_batcher_new_def)
  ultimately show ?thesis
    using resp_batcher_fold_ok [where esize = esize and b = resp_batcher_new and es = "map fst events"] assms
    by (auto simp: forward_chunk_def resp_batcher_ok_def resp_batcher_new_def Let_def
        split: prod.splits)
qed

definition small_event :: event where
  "small_event = \<lparr>evn_region_id = 1, evn_index = 0, evn_request_id = 7, evn_body = Entries []\<rparr>"

theorem responses_partition_events_witness:
  "concat (map cde_events (fst (forward_chunk (\<lambda>ev. 3) (\<lambda>t. False) [False]
      (quota_new 100, cdc_channel_new\<lparr>cch_observed := [(CeEvent small_event, 3)]\<rparr>)))) = [small_event]"
proof -
  let ?st = "(quota_new 100, cdc_channel_new\<lparr>cch_observed := [(CeEvent small_event, 3)]\<rparr>)"
  have "drain_chunk (\<lambda>t. False) [False] ?st = ([(CeEvent small_event, 3)], quota_new 100, cdc_channel_new)"
    by (simp add: drain_next_def cdc_channel_new_def)
  from responses_partition_events [OF _ prod.collapse [symmetric] this, of "\<lambda>ev. 3"]
  show ?thesis by simp
qed

text \<open>C24: however events are sent, scanned and received, dropping the receiver leaves the quota exactly
  where the rest of the process has it: every byte charged for an event is given back once, also for
  events whose scan was truncated.  The runs are those in which no scan loses its receiver halfway,
  of scans whose size fits the 32-bit sum.\<close>

theorem channel_returns_quota:
  assumes "0 \<le> mq_in_use q" "mq_in_use q \<le> int (mq_capacity q)" "mq_capacity q \<le> MAX_MEMORY_ALLOC_SIZE"
    and "list_all (scan_fits esize) xs" and "run_channel esize xs (q, cdc_channel_new) = Some st"
  shows "mq_in_use (drop_drain truncated st) = mq_in_use q"
proof -
  have "metered_ok (mq_in_use q) (q, cdc_channel_new)"
    using assms(1-3) by (simp add: metered_ok_def quota_sane_def pending_bytes_def cdc_channel_new_def)
  then have "metered_ok (mq_in_use q) st" using assms(4,5) by (rule run_channel_metered)
  then show ?thesis by (cases st) (simp add: drop_drain_metered)
qed

theorem channel_returns_quota_witness:
  "mq_in_use (drop_drain (\<lambda>t. True) (\<lparr>mq_in_use = 6, mq_capacity = 100\<rparr>,
     \<lparr>cch_observed = [(CeEvent small_event, 3)], cch_scaned = [(CeEvent small_event, 3, 0)],
      cch_open = True\<rparr>)) = 0"
proof -
  have "run_channel (\<lambda>ev. 3) [ChSend (CeEvent small_event) False, ChScan [True] True [CeEvent small_event] 0]
      (quota_new 100, cdc_channel_new) =
    Some (\<lparr>mq_in_use = 6, mq_capacity = 100\<rparr>,
     \<lparr>cch_observed = [(CeEvent small_event, 3)], cch_scaned = [(CeEvent small_event, 3, 0)],
      cch_open = True\<rparr>)"
    by (simp add: sink_unbounded_send_def send_all_def cdc_event_size_def cdc_channel_new_def
        quota_new_def adjust_capacity_def quota_alloc_def saturating_sub_usize_def
        MAX_MEMORY_ALLOC_SIZE_def Let_def)
  then show ?thesis
    using channel_returns_quota [of "quota_new 100" "\<lambda>ev. 3"
        "[ChSend (CeEvent small_event) False, ChScan [True] True [CeEvent small_event] 0]" _ "\<lambda>t. True"]
    by (simp add: cdc_event_size_def quota_new_def adjust_capacity_def MAX_MEMORY_ALLOC_SIZE_def)
qed

text \<open>A scan that loses its receiver after some events gives back the whole scan at once, and the
  events already queued are given back again when the receiver drains them: the quota ends below
  what the rest of the process uses, by the bytes that had been queued.\<close>

lemma feed_all_failed:
  "feed_all esize feeds t es ch = (False, ch') \<Longrightarrow>
    \<exists>k < length es. pending_bytes ch' = pending_bytes ch
      + sum_list (map (\<lambda>e. unat (cdc_event_size esize e)) (take k es))"
proof (induction esize feeds t es ch arbitrary: ch' rule: feed_all.induct)
  case (3 esize fed feeds t e es ch)
  show ?case
  proof (cases "fed \<and> cch_open ch")
    case True
    with 3 obtain k where "k < length es"
      "pending_bytes ch' = pending_bytes (ch\<lparr>cch_scaned := cch_scaned ch @ [(e, unat (cdc_event_size esize e), t)]\<rparr>)
        + sum_list (map (\<lambda>e. unat (cdc_event_size esize e)) (take k es))" by auto
    then show ?thesis by (intro exI [of _ "Suc k"]) (simp add: pending_bytes_def)
  next
    case False
    with 3(2) show ?thesis by (auto simp: pending_bytes_def)
  qed
qed (auto simp: pending_bytes_def)

lemma failed_scan_overfrees:
  assumes ok: "metered_ok base (q, ch)"
    and fail: "send_all esize feeds flushed es t (q, ch) = (Inl SendDisconnected, st')"
    and fits: "sum_list (map (\<lambda>e. unat (cdc_event_size esize e)) es) < 2 ^ 32"
    and base: "int (sum_list (map (\<lambda>e. unat (cdc_event_size esize e)) es)) \<le> base"
  shows "\<exists>k \<le> length es. mq_in_use (drop_drain truncated st') =
    base - int (sum_list (map (\<lambda>e. unat (cdc_event_size esize e)) (take k es)))"
proof -
  let ?sz = "\<lambda>es. sum_list (map (\<lambda>e. unat (cdc_event_size esize e)) es)"
  let ?n = "unat (sum_list (map (cdc_event_size esize) es))"
  have n: "?n = ?sz es" using fits by (intro unat_sum_list) simp
  obtain fed ch1 where f: "feed_all esize feeds t es ch = (fed, ch1)" by (rule prod.exhaust)
  obtain r q1 where alloc: "quota_alloc ?n q = (r, q1)" by (rule prod.exhaust)
  then have "r = Inr ()"
    using fail by (cases r) (auto simp: send_all_def Let_def)
  with alloc ok have q1: "quota_alloc ?n q = (Inr (), q1)" "quota_free ?n q1 = q"
    using quota_alloc_free [of q ?n "()" q1] by (simp_all add: metered_ok_def)
  obtain k where k: "k \<le> length es" "pending_bytes ch1 = pending_bytes ch + ?sz (take k es)"
    using feed_all_failed [of esize feeds t es ch ch1] feed_all_pending [of esize feeds t es ch ch1] f
    by (cases fed) (auto intro: less_imp_le, metis order_refl take_all)
  obtain ch' where ch': "st' = (q, ch')" "pending_bytes ch' = pending_bytes ch1"
    using fail f q1 by (auto simp: send_all_def pending_bytes_def Let_def split: bool.splits if_splits)
  have "?sz es = ?sz (take k es) + ?sz (drop k es)"
    by (metis append_take_drop_id map_append sum_list_append)
  then have "metered_ok (base - int (?sz (take k es))) st'"
    using ok base ch' k by (simp add: metered_ok_def)
  then show ?thesis using k(1) ch'(1) drop_drain_metered by blast
qed

end
