(* ===== verification/CdcRows.thy ===== *)
theory CdcRows
  imports CdcChannel
begin

text \<open>
  How the delegate turns the records of a region into change rows (\<open>components/cdc/src/delegate.rs\<close>,
  \<open>txn_source.rs\<close>; \<open>components/api_version/src/api_v2.rs\<close> for raw keys and values): decoding of write,
  lock, default and raw records, the builder that collects the rows of a command, and the conversion
  of scanned entries to events.  A Rust panic is the error \<open>CdcPanic\<close>.  The hash map of the builder
  is an ordered map; the order in which it is consumed is a parameter.
\<close>

section \<open>Raw keys and values\<close>

definition RAW_KEY_PREFIX :: byte where "RAW_KEY_PREFIX = 0x72"
definition TXN_KEY_PREFIX :: byte where "TXN_KEY_PREFIX = 0x78"
definition TIDB_META_KEY_PREFIX :: byte where "TIDB_META_KEY_PREFIX = 0x6d"
definition TIDB_TABLE_KEY_PREFIX :: byte where "TIDB_TABLE_KEY_PREFIX = 0x74"

datatype key_mode = KmRaw | KmTxn | KmTidb | KmUnknown

definition parse_key_mode :: "bytes \<Rightarrow> key_mode" where
  "parse_key_mode k =
    (case k of
       [] \<Rightarrow> KmUnknown
     | b # _ \<Rightarrow>
         if b = RAW_KEY_PREFIX then KmRaw
         else if b = TXN_KEY_PREFIX then KmTxn
         else if b = TIDB_META_KEY_PREFIX \<or> b = TIDB_TABLE_KEY_PREFIX then KmTidb
         else KmUnknown)"

definition EXPIRE_TS_FLAG :: byte where "EXPIRE_TS_FLAG = 1"
definition DELETE_FLAG :: byte where "DELETE_FLAG = 2"

record raw_value =
  rv_user_value :: bytes
  rv_expire_ts :: "u64 option"
  rv_is_delete :: bool

definition decode_raw_value :: "bytes \<Rightarrow> codec_error + raw_value" where
  "decode_raw_value b =
    (if b = [] then Inl ValueLength
     else
       let rest_len = length b - 1; flags = b ! rest_len in
       if flags AND NOT (EXPIRE_TS_FLAG OR DELETE_FLAG) \<noteq> 0 then Inl ValueMeta
       else
         let is_delete = (flags AND DELETE_FLAG \<noteq> 0) in
         if flags AND EXPIRE_TS_FLAG \<noteq> 0 then
           if rest_len < U64_SIZE then Inl ValueLength
           else
             let rest_len = rest_len - U64_SIZE in
             rbind (decode_u64 (subslice rest_len (rest_len + U64_SIZE) b)) (\<lambda>(expire_ts, _).
             Inr \<lparr>rv_user_value = take rest_len b, rv_expire_ts = Some expire_ts,
                  rv_is_delete = is_delete\<rparr>)
         else Inr \<lparr>rv_user_value = take rest_len b, rv_expire_ts = None, rv_is_delete = is_delete\<rparr>)"

definition encode_raw_value :: "raw_value \<Rightarrow> bytes" where
  "encode_raw_value v =
    (let flags = (if rv_expire_ts v \<noteq> None then EXPIRE_TS_FLAG else 0);
         flags = (if rv_is_delete v then flags OR DELETE_FLAG else flags)
     in rv_user_value v @ (case rv_expire_ts v of None \<Rightarrow> [] | Some ts \<Rightarrow> encode_u64 ts) @ [flags])"

definition decode_raw_key :: "key \<Rightarrow> bool \<Rightarrow> codec_error + bytes \<times> timestamp option" where
  "decode_raw_key encoded_key with_ts =
    rbind (if with_ts then rmap Some (decode_ts_from encoded_key) else Inr None) (\<lambda>ts.
    rmap (\<lambda>raw. (raw, ts)) (into_raw encoded_key))"

definition encode_raw_key :: "bytes \<Rightarrow> timestamp option \<Rightarrow> key" where
  "encode_raw_key user_key ts =
    (case ts of None \<Rightarrow> from_raw user_key | Some ts \<Rightarrow> append_ts (from_raw user_key) ts)"

section \<open>Transaction sources\<close>

definition CDC_WRITE_SOURCE_BITS :: nat where "CDC_WRITE_SOURCE_BITS = 8"
definition CDC_WRITE_SOURCE_MAX :: u64 where "CDC_WRITE_SOURCE_MAX = push_bit CDC_WRITE_SOURCE_BITS 1 - 1"
definition LOSSY_DDL_REORG_SOURCE_SHIFT :: nat where
  "LOSSY_DDL_REORG_SOURCE_SHIFT = CDC_WRITE_SOURCE_BITS"

definition is_cdc_write_source_set :: "u64 \<Rightarrow> bool" where
  "is_cdc_write_source_set txn_source = (txn_source AND CDC_WRITE_SOURCE_MAX \<noteq> 0)"

definition is_lossy_ddl_reorg_source_set :: "u64 \<Rightarrow> bool" where
  "is_lossy_ddl_reorg_source_set txn_source = (drop_bit LOSSY_DDL_REORG_SOURCE_SHIFT txn_source \<noteq> 0)"

section \<open>Decoding records into rows\<close>

definition unwrap_or_panic :: "'e + 'a \<Rightarrow> cdc_error + 'a" where
  "unwrap_or_panic r = map_err (\<lambda>_. CdcPanic) r"

definition make_overlapped_rollback :: "key \<Rightarrow> event_row \<Rightarrow> cdc_error + event_row" where
  "make_overlapped_rollback k row =
    rbind (unwrap_or_panic (decode_ts_from k)) (\<lambda>ts.
    rbind (unwrap_or_panic (truncate_ts k)) (\<lambda>uk.
    rbind (unwrap_or_panic (into_raw uk)) (\<lambda>raw.
    Inr (row\<lparr>er_start_ts := ts, er_commit_ts := 0, er_key := raw, er_op_type := EopUnknown,
             er_type := RtRollback\<rparr>))))"

fun write_row_types :: "write_type \<Rightarrow> (event_op \<times> event_log_type) option" where
  "write_row_types WPut = Some (EopPut, RtCommit)"
| "write_row_types WDelete = Some (EopDelete, RtCommit)"
| "write_row_types WRollback = Some (EopUnknown, RtRollback)"
| "write_row_types WLock = None"

text \<open>The results are whether the record is skipped, the row and whether it has a value.\<close>

definition decode_write ::
  "bytes \<Rightarrow> bytes \<Rightarrow> event_row \<Rightarrow> bool \<Rightarrow> bool \<Rightarrow> cdc_error + bool \<times> event_row \<times> bool" where
  "decode_write k value row has_value is_apply =
    rbind (unwrap_or_panic (parse_write value)) (\<lambda>w.
    if is_apply \<and> w_gc_fence w \<noteq> None then
      if \<not> w_has_overlapped_rollback w \<or> w_type w = WRollback then Inl CdcPanic
      else rmap (\<lambda>row. (False, row, has_value)) (make_overlapped_rollback k row)
    else
      (case write_row_types (w_type w) of
         None \<Rightarrow> Inr (True, row, has_value)
       | Some (op_type, r_type) \<Rightarrow>
         rbind (if w_type w = WRollback
                then if w_txn_source w \<noteq> 0 then Inl CdcPanic else Inr 0
                else unwrap_or_panic (decode_ts_from k)) (\<lambda>commit_ts.
         rbind (unwrap_or_panic (truncate_ts k)) (\<lambda>uk.
         rbind (unwrap_or_panic (into_raw uk)) (\<lambda>raw.
         let row = row\<lparr>er_start_ts := w_start_ts w, er_commit_ts := commit_ts, er_key := raw,
                       er_op_type := op_type, er_txn_source := w_txn_source w, er_type := r_type\<rparr> in
         Inr (case w_short_value w of
                None \<Rightarrow> (False, row, has_value)
              | Some v \<Rightarrow> (False, row\<lparr>er_value := v\<rparr>, True)))))))"

fun lock_row_type :: "lock_type \<Rightarrow> event_op option" where
  "lock_row_type LkPut = Some EopPut"
| "lock_row_type LkDelete = Some EopDelete"
| "lock_row_type LkLock = None"
| "lock_row_type LkPessimistic = None"

definition decode_lock ::
  "bytes \<Rightarrow> lock_rec \<Rightarrow> event_row \<Rightarrow> bool \<Rightarrow> cdc_error + bool \<times> event_row \<times> bool" where
  "decode_lock k l row has_value =
    (case lock_row_type (lk_type l) of
       None \<Rightarrow> Inr (True, row, has_value)
     | Some op_type \<Rightarrow>
       rbind (unwrap_or_panic (into_raw k)) (\<lambda>raw.
       let row = row\<lparr>er_start_ts := lk_ts l, er_key := raw, er_op_type := op_type,
                     er_txn_source := lk_txn_source l, er_type := RtPrewrite\<rparr> in
       (case lk_short_value l of
          None \<Rightarrow> Inr (False, row, has_value)
        | Some v \<Rightarrow>
            if has_value then Inl CdcPanic else Inr (False, row\<lparr>er_value := v\<rparr>, True))))"

definition decode_rawkv :: "bytes \<Rightarrow> bytes \<Rightarrow> event_row \<Rightarrow> cdc_error + event_row" where
  "decode_rawkv k value row =
    rbind (map_err CdcEngineTraits (decode_raw_key k True)) (\<lambda>(decoded_key, ts).
    rbind (map_err CdcEngineTraits (decode_raw_value value)) (\<lambda>decoded_value.
    (case ts of
       None \<Rightarrow> Inl CdcPanic
     | Some ts \<Rightarrow>
       let row = row\<lparr>er_start_ts := ts, er_commit_ts := ts, er_key := decoded_key,
                     er_value := rv_user_value decoded_value\<rparr>;
           row = (case rv_expire_ts decoded_value of
                    None \<Rightarrow> row | Some e \<Rightarrow> row\<lparr>er_expire_ts_unix_secs := e\<rparr>)
       in Inr (row\<lparr>er_op_type := (if rv_is_delete decoded_value then EopDelete else EopPut),
                   er_type := RtCommitted\<rparr>))))"

definition decode_default :: "bytes \<Rightarrow> event_row \<Rightarrow> bool \<Rightarrow> event_row \<times> bool" where
  "decode_default value row has_value = (if value \<noteq> [] then row\<lparr>er_value := value\<rparr> else row, True)"

section \<open>The rows of a command\<close>

record row_in_building =
  rib_v :: event_row
  rib_has_value :: bool
  rib_lock_modified_counts :: "lock_modified_count list"
  rib_needs_old_value :: "timestamp option"

definition row_in_building_default :: row_in_building where
  "row_in_building_default = \<lparr>rib_v = event_row_default, rib_has_value = False,
     rib_lock_modified_counts = [], rib_needs_old_value = None\<rparr>"

record rows_builder =
  rw_txns_by_key :: "(bytes, row_in_building) btree"
  rw_raws :: "event_row list"
  rw_is_one_pc :: bool

definition rows_builder_default :: rows_builder where
  "rows_builder_default = \<lparr>rw_txns_by_key = [], rw_raws = [], rw_is_one_pc = False\<rparr>"

definition finish_build ::
  "(row_in_building list \<Rightarrow> row_in_building list) \<Rightarrow> rows_builder \<Rightarrow> event_row list \<times> row_in_building list"
  where
  "finish_build order rows =
    (rw_raws rows,
     filter (\<lambda>row. \<not> (er_type (rib_v row) = RtPrewrite \<and> er_op_type (rib_v row) = EopPut
                      \<and> \<not> rib_has_value row))
       (order (bt_values (rw_txns_by_key rows))))"

section \<open>Events of scanned entries\<close>

datatype kv_entry =
    RawKvEntry bytes bytes
  | TxnPrewrite "bytes \<times> bytes" "bytes \<times> bytes" old_value
  | TxnCommit "bytes \<times> bytes" "bytes \<times> bytes" old_value

definition old_value_bytes :: "old_value \<Rightarrow> cdc_error + bytes" where
  "old_value_bytes ov =
    (case finalized ov of None \<Rightarrow> Inl CdcPanic | Some None \<Rightarrow> Inr [] | Some (Some v) \<Rightarrow> Inr v)"

text \<open>The row of one entry with its size, or \<open>None\<close> where the loop continues.\<close>

definition entry_row :: "observed_range \<Rightarrow> kv_entry option \<Rightarrow> cdc_error + (event_row \<times> nat) option" where
  "entry_row obs entry =
    (case entry of
       Some (RawKvEntry k v) \<Rightarrow>
         rmap (\<lambda>row. Some (row, length (er_key row) + length (er_value row)))
           (decode_rawkv k v event_row_default)
     | Some (TxnPrewrite dflt lock old) \<Rightarrow>
         if \<not> contains_encoded_key obs (fst lock) then Inr None
         else
           rbind (unwrap_or_panic (parse_lock (snd lock))) (\<lambda>l.
           rbind (decode_lock (fst lock) l event_row_default False) (\<lambda>(skip, row, has_value).
           if skip then Inr None
           else
             let (row, _) = decode_default (snd dflt) row has_value in
             rbind (old_value_bytes old) (\<lambda>ov.
             let row = row\<lparr>er_old_value := ov\<rparr> in
             Inr (Some (row, length (er_key row) + length (er_value row) + length (er_old_value row))))))
     | Some (TxnCommit dflt write old) \<Rightarrow>
         if \<not> contains_encoded_key obs (fst write) then Inr None
         else
           rbind (decode_write (fst write) (snd write) event_row_default False False)
             (\<lambda>(skip, row, has_value).
           if skip then Inr None
           else
             let (row, _) = decode_default (snd dflt) row has_value in
             if er_type row = RtRollback then Inr None
             else
               let row = row\<lparr>er_type := RtCommitted\<rparr> in
               rbind (old_value_bytes old) (\<lambda>ov.
               let row = row\<lparr>er_old_value := ov\<rparr> in
               Inr (Some (row, length (er_key row) + length (er_value row) + length (er_old_value row)))))
     | None \<Rightarrow> Inr (Some (event_row_default\<lparr>er_type := RtInitialized\<rparr>, 0)))"

definition push_row :: "event_row \<Rightarrow> event_row list list \<Rightarrow> event_row list list" where
  "push_row row rows = butlast rows @ [last rows @ [row]]"

fun group_rows ::
  "bool \<Rightarrow> observed_range \<Rightarrow> kv_entry option list \<Rightarrow> event_row list list \<Rightarrow> nat \<Rightarrow> cdc_error + event_row list list"
  where
  "group_rows filter_loop obs [] rows current_rows_size = Inr rows"
| "group_rows filter_loop obs (entry # entries) rows current_rows_size =
    rbind (entry_row obs entry) (\<lambda>r.
    case r of
      None \<Rightarrow> group_rows filter_loop obs entries rows current_rows_size
    | Some (row, row_size) \<Rightarrow>
        if is_lossy_ddl_reorg_source_set (er_txn_source row)
           \<or> filter_loop \<and> is_cdc_write_source_set (er_txn_source row)
        then group_rows filter_loop obs entries rows current_rows_size
        else if current_rows_size + row_size \<ge> CDC_EVENT_MAX_BYTES
        then group_rows filter_loop obs entries (push_row row (rows @ [[]])) row_size
        else group_rows filter_loop obs entries (push_row row rows) (current_rows_size + row_size))"

definition convert_to_grpc_events ::
  "u64 \<Rightarrow> u64 \<Rightarrow> kv_entry option list \<Rightarrow> bool \<Rightarrow> observed_range \<Rightarrow> cdc_error + cdc_event list" where
  "convert_to_grpc_events region_id request_id entries filter_loop obs =
    rmap (\<lambda>rows. map (\<lambda>rs. CeEvent \<lparr>evn_region_id = region_id, evn_index = 0,
                                    evn_request_id = request_id, evn_body = Entries rs\<rparr>)
                 (filter (\<lambda>rs. rs \<noteq> []) rows))
      (group_rows filter_loop obs entries [[]] 0)"

section \<open>Raw values\<close>

lemma decode_raw_value_flags:
  "decode_raw_value (v @ [flags]) =
    (if flags AND NOT (EXPIRE_TS_FLAG OR DELETE_FLAG) \<noteq> 0 then Inl ValueMeta
     else if flags AND EXPIRE_TS_FLAG \<noteq> 0 then
       if length v < 8 then Inl ValueLength
       else rbind (decode_u64 (drop (length v - 8) v)) (\<lambda>(ts, _).
         Inr \<lparr>rv_user_value = take (length v - 8) v, rv_expire_ts = Some ts,
              rv_is_delete = (flags AND DELETE_FLAG \<noteq> 0)\<rparr>)
     else Inr \<lparr>rv_user_value = v, rv_expire_ts = None, rv_is_delete = (flags AND DELETE_FLAG \<noteq> 0)\<rparr>)"
  by (auto simp: decode_raw_value_def subslice_def U64_SIZE_def Let_def)

lemma raw_value_round_trip: "decode_raw_value (encode_raw_value v) = Inr v"
proof (cases "rv_expire_ts v")
  case None
  then have "encode_raw_value v = rv_user_value v @ [if rv_is_delete v then DELETE_FLAG else 0]"
    by (simp add: encode_raw_value_def Let_def)
  with None show ?thesis
    by (simp add: decode_raw_value_flags EXPIRE_TS_FLAG_def DELETE_FLAG_def)
next
  case (Some ts)
  then have "encode_raw_value v = (rv_user_value v @ encode_u64 ts) @
    [if rv_is_delete v then EXPIRE_TS_FLAG OR DELETE_FLAG else EXPIRE_TS_FLAG]"
    by (simp add: encode_raw_value_def Let_def)
  moreover have "decode_u64 (encode_u64 ts) = Inr (ts, [])"
    using decode_u64_encode [of ts "[]"] by simp
  moreover have "length (encode_u64 ts) = 8" by (simp add: encode_u64_def)
  ultimately show ?thesis using Some
    by (simp only: decode_raw_value_flags) (simp add: EXPIRE_TS_FLAG_def DELETE_FLAG_def)
qed

section \<open>Rows of scanned entries\<close>

definition row_bytes :: "event_row \<Rightarrow> nat" where
  "row_bytes row = length (er_key row) + length (er_value row) + length (er_old_value row)"

lemma decode_rawkv_old_value: "decode_rawkv k v row = Inr row' \<Longrightarrow> er_old_value row' = er_old_value row"
  by (cases "decode_raw_key k True"; cases "decode_raw_value v")
    (auto simp: decode_rawkv_def Let_def split: option.splits)

lemma entry_row_size: "entry_row obs e = Inr (Some (row, n)) \<Longrightarrow> n = row_bytes row"
  by (auto simp: entry_row_def row_bytes_def rmap_Inr_iff rbind_Inr_iff event_row_default_def Let_def
      dest!: decode_rawkv_old_value split: option.splits kv_entry.splits if_splits prod.splits)

text \<open>The rows a scan is to deliver: those of the entries that decode, without the filtered sources.\<close>

definition filtered_source :: "bool \<Rightarrow> event_row \<Rightarrow> bool" where
  "filtered_source filter_loop row \<longleftrightarrow> is_lossy_ddl_reorg_source_set (er_txn_source row)
     \<or> filter_loop \<and> is_cdc_write_source_set (er_txn_source row)"

fun scan_rows :: "bool \<Rightarrow> observed_range \<Rightarrow> kv_entry option list \<Rightarrow> cdc_error + event_row list" where
  "scan_rows filter_loop obs [] = Inr []"
| "scan_rows filter_loop obs (e # es) =
    rbind (entry_row obs e) (\<lambda>r. rmap (\<lambda>rows.
      (case r of None \<Rightarrow> [] | Some (row, _) \<Rightarrow> if filtered_source filter_loop row then [] else [row]) @ rows)
      (scan_rows filter_loop obs es))"

definition group_ok :: "event_row list \<Rightarrow> bool" where
  "group_ok rs \<longleftrightarrow> length rs \<le> 1 \<or> sum_list (map row_bytes rs) < CDC_EVENT_MAX_BYTES"

definition groups_ok :: "event_row list list \<Rightarrow> nat \<Rightarrow> bool" where
  "groups_ok rows n \<longleftrightarrow> rows \<noteq> [] \<and> list_all group_ok rows \<and> n = sum_list (map row_bytes (last rows))"

lemma concat_push_row: "rows \<noteq> [] \<Longrightarrow> concat (push_row row rows) = concat rows @ [row]"
  by (induction rows rule: rev_induct) (auto simp: push_row_def)

lemma groups_ok_new:
  "groups_ok rows n \<Longrightarrow> groups_ok (push_row row (rows @ [[]])) (row_bytes row)"
  by (simp add: groups_ok_def push_row_def group_ok_def)

lemma groups_ok_same:
  assumes "groups_ok rows n" "n + row_bytes row < CDC_EVENT_MAX_BYTES"
  shows "groups_ok (push_row row rows) (n + row_bytes row)"
  using assms by (auto simp: groups_ok_def push_row_def group_ok_def list_all_butlast)

lemma group_rows_spec:
  assumes "group_rows filter_loop obs es rows n = Inr rows'" "groups_ok rows n"
  shows "\<exists>added. scan_rows filter_loop obs es = Inr added \<and> concat rows' = concat rows @ added
    \<and> list_all group_ok rows'"
  using assms
proof (induction es arbitrary: rows n)
  case (Cons e es)
  obtain r where r: "entry_row obs e = Inr r"
    using Cons.prems(1) by (auto simp: rbind_Inr_iff)
  show ?case
  proof (cases r)
    case None
    with Cons.IH [of rows n] Cons.prems r show ?thesis by auto
  next
    case (Some x)
    obtain row where x: "x = (row, row_bytes row)"
      using r Some entry_row_size by (cases x) blast
    consider (skip) "filtered_source filter_loop row"
      | (new) "\<not> filtered_source filter_loop row" "n + row_bytes row \<ge> CDC_EVENT_MAX_BYTES"
      | (same) "\<not> filtered_source filter_loop row" "n + row_bytes row < CDC_EVENT_MAX_BYTES"
      by linarith
    then show ?thesis
    proof cases
      case skip
      with Cons.IH [of rows n] Cons.prems r Some x show ?thesis by (auto simp: filtered_source_def)
    next
      case new
      then have "group_rows filter_loop obs es (push_row row (rows @ [[]])) (row_bytes row) = Inr rows'"
        using Cons.prems(1) r Some x by (auto simp: filtered_source_def)
      from Cons.IH [OF this groups_ok_new [OF Cons.prems(2)]] new r Some x
      show ?thesis by (auto simp: concat_push_row)
    next
      case same
      then have "group_rows filter_loop obs es (push_row row rows) (n + row_bytes row) = Inr rows'"
        using Cons.prems(1) r Some x by (auto simp: filtered_source_def)
      moreover have "rows \<noteq> []" using Cons.prems(2) by (simp add: groups_ok_def)
      ultimately show ?thesis
        using Cons.IH [OF _ groups_ok_same [OF Cons.prems(2) same(2)]] same r Some x
        by (auto simp: concat_push_row)
    qed
  qed
qed (auto simp: groups_ok_def)

definition event_rows :: "cdc_event \<Rightarrow> event_row list" where
  "event_rows e = (case e of CeEvent ev \<Rightarrow> (case evn_body ev of Entries rs \<Rightarrow> rs | _ \<Rightarrow> []) | _ \<Rightarrow> [])"

section \<open>What decoding a record gives\<close>

lemma into_raw_from_raw [simp]: "into_raw (from_raw k) = Inr k"
  by (simp add: into_raw_eq_to_raw)

lemma decode_write_commit:
  assumes "write_wf w" "w_type w = WPut \<or> w_type w = WDelete" "\<not> (is_apply \<and> w_gc_fence w \<noteq> None)"
  shows "decode_write (append_ts (from_raw k) commit_ts) (write_to_bytes w) row has_value is_apply =
    Inr (False, row\<lparr>er_start_ts := w_start_ts w, er_commit_ts := commit_ts, er_key := k,
        er_op_type := (if w_type w = WPut then EopPut else EopDelete), er_txn_source := w_txn_source w,
        er_type := RtCommit,
        er_value := (case w_short_value w of None \<Rightarrow> er_value row | Some v \<Rightarrow> v)\<rparr>,
      has_value \<or> w_short_value w \<noteq> None)"
  using assms parse_write_to_bytes [OF assms(1), of "[]"]
  by (auto simp: decode_write_def unwrap_or_panic_def Let_def split: option.splits)

lemma decode_lock_prewrite:
  assumes "lk_type l = LkPut \<or> lk_type l = LkDelete" "\<not> (has_value \<and> lk_short_value l \<noteq> None)"
  shows "decode_lock (from_raw k) l row has_value =
    Inr (False, row\<lparr>er_start_ts := lk_ts l, er_key := k,
        er_op_type := (if lk_type l = LkPut then EopPut else EopDelete), er_txn_source := lk_txn_source l,
        er_type := RtPrewrite,
        er_value := (case lk_short_value l of None \<Rightarrow> er_value row | Some v \<Rightarrow> v)\<rparr>,
      has_value \<or> lk_short_value l \<noteq> None)"
  using assms by (auto simp: decode_lock_def unwrap_or_panic_def Let_def split: option.splits)

section \<open>Properties\<close>

text \<open>an incremental scan delivers exactly the rows of its entries, in order, without the rows of
  filtered sources, and cuts them into events that are never empty and hold one row or less than
  32 KiB of keys, values and old values.\<close>

theorem scan_events_bounded:
  assumes "convert_to_grpc_events region_id request_id entries filter_loop obs = Inr evs"
  shows "\<exists>rows. scan_rows filter_loop obs entries = Inr rows \<and> concat (map event_rows evs) = rows
    \<and> list_all (\<lambda>e. event_rows e \<noteq> []
        \<and> (length (event_rows e) = 1 \<or> sum_list (map row_bytes (event_rows e)) < CDC_EVENT_MAX_BYTES)) evs"
proof -
  obtain rows where rows: "group_rows filter_loop obs entries [[]] 0 = Inr rows"
    and evs: "map event_rows evs = filter (\<lambda>rs. rs \<noteq> []) rows"
    using assms by (auto simp: convert_to_grpc_events_def rmap_Inr_iff event_rows_def comp_def)
  obtain added where "scan_rows filter_loop obs entries = Inr added" "concat rows = added"
    and ok: "list_all group_ok rows"
    using group_rows_spec [OF rows] by (auto simp: groups_ok_def group_ok_def)
  moreover have "concat (filter (\<lambda>rs. rs \<noteq> []) rows) = concat rows" by (induction rows) auto
  moreover have "group_ok rs \<and> rs \<noteq> []" if "rs \<in> event_rows ` set evs" for rs
    using that ok arg_cong [OF evs, of set] by (auto simp: list_all_iff)
  ultimately show ?thesis
    using evs by (auto simp: list_all_iff group_ok_def le_Suc_eq)
qed

theorem scan_events_bounded_witness:
  "\<exists>evs. convert_to_grpc_events 1 7 [None] True observed_range_default = Inr evs
    \<and> concat (map event_rows evs) = [event_row_default\<lparr>er_type := RtInitialized\<rparr>]"
proof -
  let ?row = "event_row_default\<lparr>er_type := RtInitialized\<rparr>"
  let ?evs = "[CeEvent \<lparr>evn_region_id = 1, evn_index = 0, evn_request_id = 7, evn_body = Entries [?row]\<rparr>]"
  have c: "convert_to_grpc_events 1 7 [None] True observed_range_default = Inr ?evs"
    by (simp add: convert_to_grpc_events_def entry_row_def push_row_def event_row_default_def
        is_lossy_ddl_reorg_source_set_def is_cdc_write_source_set_def CDC_EVENT_MAX_BYTES_def)
  have "scan_rows True observed_range_default [None] = Inr [?row]"
    by (simp add: entry_row_def filtered_source_def event_row_default_def
        is_lossy_ddl_reorg_source_set_def is_cdc_write_source_set_def)
  with scan_events_bounded [OF c] c show ?thesis by auto
qed

end
