(* ===== verification/PcrDelegate.thy ===== *)
theory PcrDelegate
  imports CdcRows
begin

text \<open>
  The change-data delegate of a region (\<open>components/cdc/src/delegate.rs\<close>): the state it keeps, the
  commands it receives from the apply path, the replication pairs it captures from them into the
  event batcher and the shared sink, and the rows it sends to its downstreams.

  The delegate and the world around it (the shared memory quota, the channels of the connections and
  the replication sinks) form the state of an error monad: an operation that fails returns the error
  and the state it left behind.  The protobuf encoder, the size of an event, the lookup of old values
  and the order in which the builder's hash map is consumed are fields of \<open>delegate_env\<close>.  The clock
  is a parameter \<open>now\<close> in milliseconds, read once per call.
\<close>

section \<open>Stateful operations that may fail\<close>

type_synonym ('s, 'a) cdc_m = "'s \<Rightarrow> (cdc_error + 'a) \<times> 's"

definition sreturn :: "'a \<Rightarrow> ('s, 'a) cdc_m" where
  "sreturn a s = (Inr a, s)"

definition sbind :: "('s, 'a) cdc_m \<Rightarrow> ('a \<Rightarrow> ('s, 'b) cdc_m) \<Rightarrow> ('s, 'b) cdc_m" where
  "sbind m f s = (case m s of (Inl e, s) \<Rightarrow> (Inl e, s) | (Inr a, s) \<Rightarrow> f a s)"

definition slift :: "cdc_error + 'a \<Rightarrow> ('s, 'a) cdc_m" where
  "slift r s = (r, s)"

fun siter :: "('a \<Rightarrow> ('s, 'b) cdc_m) \<Rightarrow> 'a list \<Rightarrow> ('s, unit) cdc_m" where
  "siter f [] s = (Inr (), s)"
| "siter f (x # xs) s = (case f x s of (Inl e, s) \<Rightarrow> (Inl e, s) | (Inr _, s) \<Rightarrow> siter f xs s)"

text \<open>A relation between the state before and the state after an operation, whether it fails or not,
  and its closure under the monad.\<close>

definition keeps :: "('s \<Rightarrow> 's \<Rightarrow> bool) \<Rightarrow> ('s, 'a) cdc_m \<Rightarrow> bool" where
  "keeps R m \<longleftrightarrow> (\<forall>s. R s (snd (m s)))"

lemma keepsI: "(\<And>s. R s (snd (m s))) \<Longrightarrow> keeps R m"
  unfolding keeps_def by (rule allI)

lemma keepsD: "keeps R m \<Longrightarrow> R s (snd (m s))"
  unfolding keeps_def by (rule spec)

locale state_relation =
  fixes R :: "'s \<Rightarrow> 's \<Rightarrow> bool"
  assumes R_refl: "R s s"
    and R_trans: "R s s' \<Longrightarrow> R s' s'' \<Longrightarrow> R s s''"
begin

lemma keeps_sreturn: "keeps R (sreturn a)"
  by (rule keepsI) (simp add: sreturn_def R_refl)

lemma keeps_slift: "keeps R (slift r)"
  by (rule keepsI) (simp add: slift_def R_refl)

lemma keeps_sbind:
  assumes "keeps R m" "\<And>a. keeps R (f a)"
  shows "keeps R (sbind m f)"
proof (rule keepsI)
  fix s
  obtain r s1 where m: "m s = (r, s1)" by (rule prod.exhaust)
  then have "R s s1" using keepsD [OF assms(1), of s] by simp
  moreover have "R s (snd (f a s1))" for a
    by (rule R_trans [OF \<open>R s s1\<close> keepsD [OF assms(2)]])
  ultimately show "R s (snd (sbind m f s))"
    using m by (cases r) (simp_all add: sbind_def)
qed

lemma keeps_siter:
  assumes "\<And>x. x \<in> set xs \<Longrightarrow> keeps R (f x)"
  shows "keeps R (siter f xs)"
  using assms
proof (induction xs)
  case Nil
  show ?case by (rule keepsI) (simp add: R_refl)
next
  case (Cons x xs)
  show ?case
  proof (rule keepsI)
    fix s
    obtain r s1 where m: "f x s = (r, s1)" by (rule prod.exhaust)
    then have "R s s1" using keepsD [OF Cons.prems [of x], of s] by simp
    moreover have "keeps R (siter f xs)" using Cons by simp
    then have "R s1 (snd (siter f xs s1))" by (rule keepsD)
    ultimately have "R s (snd (siter f xs s1))" by (rule R_trans)
    with \<open>R s s1\<close> m show "R s (snd (siter f (x # xs) s))" by (cases r) simp_all
  qed
qed

end

lemma sbind_Inr_iff: "sbind m f s = (Inr b, s'') \<longleftrightarrow> (\<exists>a s'. m s = (Inr a, s') \<and> f a s' = (Inr b, s''))"
  by (auto simp: sbind_def split: prod.splits sum.splits)

lemma siter_Cons_Inr_iff:
  "siter f (x # xs) s = (Inr u, s'') \<longleftrightarrow> (\<exists>a s'. f x s = (Inr a, s') \<and> siter f xs s' = (Inr u, s''))"
  by (auto split: prod.splits sum.splits)

section \<open>The state of a delegate\<close>

datatype txn_extra_op = ExtraNoop | ExtraReadOldValue

record delegate =
  dg_region_id :: u64
  dg_handle_id :: nat
  dg_observing :: bool
  dg_lock_tracker :: lock_tracker
  dg_downstreams :: "downstream list"
  dg_txn_extra_op :: txn_extra_op
  dg_failed :: bool
  dg_sst_importer :: "nat option"
  dg_pcr_batcher :: "event_batcher option"
  dg_pcr_event_sink :: "sink_id option"
  dg_pcr_cf_default_keys :: "bytes set"
  dg_created :: nat
  dg_last_lag_warn :: nat

text \<open>An unbounded channel of serialized events; sending fails once the receiver is gone.\<close>

record 'w pcr_channel =
  pch_open :: bool
  pch_queue :: "'w list"

record 'w cdc_world =
  cw_quota :: memory_quota
  cw_conns :: "sink_id \<Rightarrow> cdc_channel"
  cw_pcr :: "sink_id \<Rightarrow> 'w pcr_channel"

type_synonym 'w dstate = "delegate \<times> 'w cdc_world"

record 'w delegate_env =
  de_ser :: "pcr_event \<Rightarrow> 'w option"
  de_esize :: "event \<Rightarrow> 32 word"
  de_old_value_cb :: "key \<Rightarrow> timestamp \<Rightarrow> cdc_error + bytes option"
  de_order :: "row_in_building list \<Rightarrow> row_in_building list"
  de_validate_sst :: "nat \<Rightarrow> bytes \<Rightarrow> bool"

definition delegate_new :: "nat \<Rightarrow> u64 \<Rightarrow> nat \<Rightarrow> txn_extra_op \<Rightarrow> delegate" where
  "delegate_new now region_id handle_id extra_op =
    \<lparr>dg_region_id = region_id, dg_handle_id = handle_id, dg_observing = True,
     dg_lock_tracker = Preparing [], dg_downstreams = [], dg_txn_extra_op = extra_op, dg_failed = False,
     dg_sst_importer = None, dg_pcr_batcher = None, dg_pcr_event_sink = None,
     dg_pcr_cf_default_keys = {}, dg_created = now, dg_last_lag_warn = now\<rparr>"

definition delegate_set_sst_importer :: "nat \<Rightarrow> delegate \<Rightarrow> delegate" where
  "delegate_set_sst_importer importer d = d\<lparr>dg_sst_importer := Some importer\<rparr>"

section \<open>The replication side\<close>

definition enable_pcr :: "nat \<Rightarrow> sink_id \<Rightarrow> nat \<Rightarrow> nat \<Rightarrow> delegate \<Rightarrow> delegate" where
  "enable_pcr now event_sink buffer_size flush_interval_ms d =
    (let d = (if dg_pcr_batcher d = None
              then d\<lparr>dg_pcr_batcher := Some (batcher_new now buffer_size flush_interval_ms)\<rparr> else d)
     in d\<lparr>dg_pcr_event_sink := Some event_sink, dg_lock_tracker := Prepared region_default []\<rparr>)"

definition pcr_send :: "sink_id \<Rightarrow> 'w \<Rightarrow> 'w cdc_world \<Rightarrow> bool \<times> 'w cdc_world" where
  "pcr_send sink event w =
    (let ch = cw_pcr w sink in
     if pch_open ch
     then (True, w\<lparr>cw_pcr := (cw_pcr w)(sink := ch\<lparr>pch_queue := pch_queue ch @ [event]\<rparr>)\<rparr>)
     else (False, w))"

definition emit_pcr_event :: "'w \<Rightarrow> 'w dstate \<Rightarrow> 'w dstate" where
  "emit_pcr_event event st =
    (case st of (d, w) \<Rightarrow>
       (case dg_pcr_event_sink d of
          None \<Rightarrow> (d, w)
        | Some sink \<Rightarrow> (d, snd (pcr_send sink event w))))"

definition has_pcr :: "delegate \<Rightarrow> bool" where
  "has_pcr d = (dg_pcr_batcher d \<noteq> None \<and> dg_pcr_event_sink d \<noteq> None)"

definition flush_pcr_batcher :: "'w delegate_env \<Rightarrow> nat \<Rightarrow> event_batcher \<Rightarrow> 'w dstate \<Rightarrow> 'w dstate" where
  "flush_pcr_batcher env now batcher st =
    (let (out, batcher) = batcher_flush (de_ser env) now batcher;
         st = apfst (\<lambda>d. d\<lparr>dg_pcr_batcher := Some batcher\<rparr>) st
     in (case out of None \<Rightarrow> st | Some event \<Rightarrow> emit_pcr_event event st))"

definition maybe_flush_pcr_batcher :: "'w delegate_env \<Rightarrow> nat \<Rightarrow> 'w dstate \<Rightarrow> 'w dstate" where
  "maybe_flush_pcr_batcher env now st =
    (case dg_pcr_batcher (fst st) of
       None \<Rightarrow> st
     | Some batcher \<Rightarrow>
         if batcher_should_flush now batcher then flush_pcr_batcher env now batcher st else st)"

text \<open>The pairs a put adds to the batcher, in order.  \<open>seen\<close> are the data keys already captured from
  the default column family in this batch of commands.\<close>

definition strip_short_value :: "bytes \<Rightarrow> bytes" where
  "strip_short_value value =
    (case parse_write value of
       Inl e \<Rightarrow> value
     | Inr w \<Rightarrow> write_to_bytes (w\<lparr>w_short_value := None\<rparr>))"

definition commit_put_kvs ::
  "'w delegate_env \<Rightarrow> bytes set \<Rightarrow> bytes \<Rightarrow> bytes \<Rightarrow> bytes \<Rightarrow> timestamp \<Rightarrow> bytes option \<Rightarrow> pcr_kv list" where
  "commit_put_kvs env seen_keys value default_key write_key start_ts short_value =
    (let seen = (default_key \<in> seen_keys) in
     (case short_value of
        Some val \<Rightarrow> if \<not> seen then [mk_kv default_key val OpPut ''default''] else []
      | None \<Rightarrow>
          (case de_old_value_cb env default_key start_ts of
             Inr (Some val) \<Rightarrow> if \<not> seen then [mk_kv default_key val OpPut ''default''] else []
           | _ \<Rightarrow> [mk_kv default_key [] OpPut ''default'']))
     @ [mk_kv ([0x7a] @ write_key) (if seen then strip_short_value value else value) OpPut ''write''])"

fun fallback_varint :: "u64 \<Rightarrow> bytes \<Rightarrow> u64" where
  "fallback_varint val [] = val"
| "fallback_varint val (b # bs) =
    (let val = (push_bit 7 val) OR (ucast (b AND 0x7f)) in
     if b AND 0x80 = 0 then val else fallback_varint val bs)"

definition fallback_kvs :: "bytes \<Rightarrow> bytes \<Rightarrow> pcr_kv list" where
  "fallback_kvs raw_key value =
    mk_kv ([0x7a] @ raw_key) value OpPut ''write'' #
    (if length raw_key \<ge> 8 \<and> value \<noteq> [] then
       let first_byte = hd value;
           is_write_ref = (first_byte = 0x50 \<or> first_byte = 0x44 \<or> first_byte = 0x4c \<or> first_byte = 0x52)
       in if is_write_ref then
            let data_key = take (length raw_key - 8) raw_key;
                start_ts = NOT (fallback_varint 0 (tl value))
            in [mk_kv ([0x7a] @ data_key @ be_bytes 8 (unat start_ts)) value OpPut ''default'']
          else [mk_kv raw_key value OpPut ''default'']
     else [])"

definition write_cf_kvs :: "'w delegate_env \<Rightarrow> bytes set \<Rightarrow> bytes \<Rightarrow> bytes \<Rightarrow> pcr_kv list" where
  "write_cf_kvs env seen_keys put_key value =
    (case from_write_cf put_key value of
       Some (LmPut default_key write_key start_ts commit_ts short_value) \<Rightarrow>
         commit_put_kvs env seen_keys value default_key write_key start_ts short_value
     | Some (LmDelete default_key write_key start_ts commit_ts) \<Rightarrow>
         [mk_kv default_key [] OpDelete ''default'', mk_kv ([0x7a] @ write_key) value OpPut ''write'']
     | Some (LmRollback default_key write_key start_ts) \<Rightarrow> []
     | None \<Rightarrow> fallback_kvs put_key value)"

definition batcher_add_kvs :: "pcr_kv list \<Rightarrow> event_batcher \<Rightarrow> event_batcher" where
  "batcher_add_kvs kvs b = fold (\<lambda>kv. batcher_add_kv (kv_key kv) (kv_value kv) (kv_op kv) (kv_cf kv)) kvs b"

definition delegate_add_kvs :: "pcr_kv list \<Rightarrow> delegate \<Rightarrow> delegate" where
  "delegate_add_kvs kvs d = d\<lparr>dg_pcr_batcher := map_option (batcher_add_kvs kvs) (dg_pcr_batcher d)\<rparr>"

definition pcr_put :: "bool \<Rightarrow> 'w delegate_env \<Rightarrow> string \<Rightarrow> bytes \<Rightarrow> bytes \<Rightarrow> delegate \<Rightarrow> delegate" where
  "pcr_put raw_mode env cf put_key value d =
    (if dg_pcr_batcher d = None \<or> cf = ''lock'' then d
     else if cf = ''write''
     then delegate_add_kvs (write_cf_kvs env (dg_pcr_cf_default_keys d) put_key value) d
     else
       let dk = [0x7a] @ put_key;
           d = (if raw_mode
                then d\<lparr>dg_pcr_cf_default_keys := insert dk (dg_pcr_cf_default_keys d)\<rparr> else d)
       in delegate_add_kvs [mk_kv dk value OpPut ''default''] d)"

section \<open>Puts\<close>

definition sink_raw_put ::
  "'w delegate_env \<Rightarrow> string \<Rightarrow> bytes \<Rightarrow> bytes \<Rightarrow> rows_builder \<Rightarrow> ('w dstate, rows_builder) cdc_m" where
  "sink_raw_put env cf put_key value rows st =
    (let st = apfst (pcr_put True env cf put_key value) st in
     (rmap (\<lambda>row. rows\<lparr>rw_raws := rw_raws rows @ [row]\<rparr>) (decode_rawkv put_key value event_row_default), st))"

definition row_entry :: "bytes \<Rightarrow> rows_builder \<Rightarrow> row_in_building" where
  "row_entry k rows =
    (case bt_get (rw_txns_by_key rows) k of None \<Rightarrow> row_in_building_default | Some r \<Rightarrow> r)"

definition put_row :: "bytes \<Rightarrow> row_in_building \<Rightarrow> rows_builder \<Rightarrow> rows_builder" where
  "put_row k row rows = rows\<lparr>rw_txns_by_key := bt_insert k row (rw_txns_by_key rows)\<rparr>"

definition track ::
  "(tracking \<Rightarrow> (cdc_error + 'a) \<times> tracking) \<Rightarrow> ('w dstate, 'a) cdc_m" where
  "track f st =
    (case st of (d, w) \<Rightarrow>
       let (r, q, t) = f (cw_quota w, dg_lock_tracker d)
       in (r, d\<lparr>dg_lock_tracker := t\<rparr>, w\<lparr>cw_quota := q\<rparr>))"

definition txn_put_write ::
  "bytes \<Rightarrow> bytes \<Rightarrow> rows_builder \<Rightarrow> ('w dstate, rows_builder) cdc_m" where
  "txn_put_write put_key value rows =
    sbind (slift (unwrap_or_panic (truncate_ts put_key))) (\<lambda>k.
    let row = row_entry k rows in
    sbind (slift (decode_write put_key value (rib_v row) (rib_has_value row) True)) (\<lambda>(skip, v, has_value).
    let row = row\<lparr>rib_v := v, rib_has_value := has_value\<rparr> in
    if skip then sreturn (put_row k row rows)
    else if rw_is_one_pc rows then
      if er_type v \<noteq> RtCommit then slift (Inl CdcPanic)
      else
        (case ts_prev (er_commit_ts v) of
           None \<Rightarrow> slift (Inl CdcPanic)
         | Some read_old_ts \<Rightarrow>
             sreturn (put_row k (row\<lparr>rib_v := v\<lparr>er_type := RtCommitted\<rparr>,
               rib_needs_old_value := Some read_old_ts\<rparr>) rows))
    else
      sbind (track (pop_lock (k, length put_key + U64_SIZE) (er_start_ts v))) (\<lambda>modified.
      sreturn (put_row k (row\<lparr>rib_lock_modified_counts :=
        rib_lock_modified_counts row @ modified\<rparr>) rows))))"

definition txn_put_lock ::
  "bytes \<Rightarrow> bytes \<Rightarrow> rows_builder \<Rightarrow> ('w dstate, rows_builder) cdc_m" where
  "txn_put_lock put_key value rows =
    sbind (slift (unwrap_or_panic (parse_lock value))) (\<lambda>l.
    let row = row_entry put_key rows in
    sbind (slift (decode_lock put_key l (rib_v row) (rib_has_value row))) (\<lambda>(skip, v, has_value).
    let row = row\<lparr>rib_v := v, rib_has_value := has_value\<rparr> in
    if skip then sreturn (put_row put_key row rows)
    else
      sbind (track (push_lock (put_key, length put_key + U64_SIZE)
          (mini_lock_new (er_start_ts v) (lk_txn_source l)))) (\<lambda>modified.
      sreturn (put_row put_key (row\<lparr>rib_lock_modified_counts := rib_lock_modified_counts row @ modified,
        rib_needs_old_value := Some (max (lk_for_update_ts l) (er_start_ts v))\<rparr>) rows))))"

definition txn_put_default ::
  "bytes \<Rightarrow> bytes \<Rightarrow> rows_builder \<Rightarrow> ('w dstate, rows_builder) cdc_m" where
  "txn_put_default put_key value rows =
    sbind (slift (unwrap_or_panic (truncate_ts put_key))) (\<lambda>k.
    let row = row_entry k rows; (v, has_value) = decode_default value (rib_v row) (rib_has_value row) in
    sreturn (put_row k (row\<lparr>rib_v := v, rib_has_value := has_value\<rparr>) rows))"

definition sink_txn_put ::
  "'w delegate_env \<Rightarrow> string \<Rightarrow> bytes \<Rightarrow> bytes \<Rightarrow> rows_builder \<Rightarrow> ('w dstate, rows_builder) cdc_m" where
  "sink_txn_put env cf put_key value rows st =
    (let st = apfst (pcr_put False env cf put_key value) st in
     if cf = ''write'' then txn_put_write put_key value rows st
     else if cf = ''lock'' then txn_put_lock put_key value rows st
     else if cf = '''' \<or> cf = ''default'' then txn_put_default put_key value rows st
     else (Inl CdcPanic, st))"

definition sink_put ::
  "'w delegate_env \<Rightarrow> string \<Rightarrow> bytes \<Rightarrow> bytes \<Rightarrow> rows_builder \<Rightarrow> ('w dstate, rows_builder) cdc_m" where
  "sink_put env cf put_key value rows =
    (if parse_key_mode put_key = KmRaw then sink_raw_put env cf put_key value rows
     else sink_txn_put env cf put_key value rows)"

section \<open>Downstreams of the delegate\<close>

text \<open>Sending on the channel of a downstream's connection; the channel is charged to the shared quota.\<close>

definition sink_event :: "'w delegate_env \<Rightarrow> event \<Rightarrow> bool \<Rightarrow> downstream \<Rightarrow> ('w cdc_world, unit) cdc_m" where
  "sink_event env ev force ds w =
    (let ev = ev\<lparr>evn_request_id := ds_req_id ds\<rparr> in
     case ds_sink ds of
       None \<Rightarrow> (Inl (CdcSink SendDisconnected), w)
     | Some sink \<Rightarrow>
         let (r, q, ch) = sink_unbounded_send (de_esize env) (CeEvent ev) force (cw_quota w, cw_conns w sink)
         in (map_err CdcSink r, w\<lparr>cw_quota := q, cw_conns := (cw_conns w)(sink := ch)\<rparr>))"

definition sink_error_event ::
  "'w delegate_env \<Rightarrow> u64 \<Rightarrow> error_event \<Rightarrow> downstream \<Rightarrow> 'w cdc_world \<Rightarrow> (cdc_error + unit) \<times> downstream \<times> 'w cdc_world"
  where
  "sink_error_event env region_id err ds w =
    (let ds = ds\<lparr>ds_scan_truncated := True\<rparr>;
         ev = \<lparr>evn_region_id = region_id, evn_index = 0, evn_request_id = 0, evn_body = EventError err\<rparr>;
         (r, w) = sink_event env ev True ds w
     in (r, ds, w))"

definition stop_observing :: "delegate \<Rightarrow> delegate" where
  "stop_observing d = d\<lparr>dg_observing := False, dg_txn_extra_op := ExtraNoop\<rparr>"

definition add_downstream :: "downstream \<Rightarrow> delegate \<Rightarrow> delegate" where
  "add_downstream ds d =
    d\<lparr>dg_downstreams := dg_downstreams d @ [ds], dg_txn_extra_op := ExtraReadOldValue\<rparr>"

fun position :: "('a \<Rightarrow> bool) \<Rightarrow> 'a list \<Rightarrow> nat option" where
  "position P [] = None"
| "position P (x # xs) = (if P x then Some 0 else map_option Suc (position P xs))"

definition remove_downstream :: "nat \<Rightarrow> delegate \<Rightarrow> downstream option \<times> delegate" where
  "remove_downstream i d =
    (case position (\<lambda>x. ds_id x = i) (dg_downstreams d) of
       None \<Rightarrow> (None, d)
     | Some index \<Rightarrow>
         let ds = dg_downstreams d ! index;
             d = d\<lparr>dg_downstreams := swap_remove index (dg_downstreams d)\<rparr>
         in (Some ds, if dg_downstreams d = [] then stop_observing d else d))"

definition delegate_subscribe :: "downstream \<Rightarrow> delegate \<Rightarrow> (cdc_error \<times> downstream + unit) \<times> delegate" where
  "delegate_subscribe ds d =
    (case dg_lock_tracker d of
       Prepared r locks \<Rightarrow>
         (case check_epoch_on_ready ds r of
            (Inl e, ds) \<Rightarrow> (Inl (e, ds), d)
          | (Inr _, ds) \<Rightarrow> (Inr (), add_downstream ds d))
     | _ \<Rightarrow> (Inr (), add_downstream ds d))"

definition delegate_unsubscribe ::
  "'w delegate_env \<Rightarrow> nat \<Rightarrow> cdc_error option \<Rightarrow> 'w dstate \<Rightarrow> bool \<times> 'w dstate" where
  "delegate_unsubscribe env i err st =
    (case st of (d, w) \<Rightarrow>
     let error_event = map_option (into_error_event (dg_region_id d)) err;
         (removed, d) = remove_downstream i d;
         w = (case (removed, error_event) of
                (Some ds, Some ev) \<Rightarrow> snd (snd (sink_error_event env (dg_region_id d) ev ds w))
              | _ \<Rightarrow> w)
     in (dg_downstreams d = [], d, w))"

definition mark_failed :: "delegate \<Rightarrow> delegate" where
  "mark_failed d = d\<lparr>dg_failed := True\<rparr>"

definition has_failed :: "delegate \<Rightarrow> bool" where
  "has_failed d = dg_failed d"

fun stop_downstreams ::
  "'w delegate_env \<Rightarrow> u64 \<Rightarrow> error_event \<Rightarrow> downstream list \<Rightarrow> 'w cdc_world \<Rightarrow> downstream list \<times> 'w cdc_world"
  where
  "stop_downstreams env region_id err [] w = ([], w)"
| "stop_downstreams env region_id err (ds # dss) w =
    (let (r, ds, w) = sink_error_event env region_id err (ds\<lparr>ds_state := Stopped\<rparr>) w;
         (dss, w) = stop_downstreams env region_id err dss w
     in (ds # dss, w))"

definition delegate_stop :: "'w delegate_env \<Rightarrow> cdc_error \<Rightarrow> 'w dstate \<Rightarrow> 'w dstate" where
  "delegate_stop env err st =
    (case st of (d, w) \<Rightarrow>
     let d = stop_observing (mark_failed d);
         (dss, w) = stop_downstreams env (dg_region_id d) (into_error_event (dg_region_id d) err)
                      (dg_downstreams d) w
     in (d\<lparr>dg_downstreams := dss\<rparr>, w))"

fun check_downstreams :: "region \<Rightarrow> downstream list \<Rightarrow> downstream list \<times> (downstream \<times> cdc_error) list" where
  "check_downstreams r [] = ([], [])"
| "check_downstreams r (ds # dss) =
    (let (res, ds) = check_epoch_on_ready
           (ds\<lparr>ds_observed_range := update_region_key_range r (ds_observed_range ds)\<rparr>) r;
         (dss, fails) = check_downstreams r dss
     in (ds # dss, (case res of Inl e \<Rightarrow> (ds, e) # fails | Inr _ \<Rightarrow> fails)))"

definition delegate_finish_scan_locks ::
  "region \<Rightarrow> lock_map \<Rightarrow> ('w dstate, (downstream \<times> cdc_error) list) cdc_m" where
  "delegate_finish_scan_locks r locks =
    sbind (track (finish_prepare_lock_tracker r locks)) (\<lambda>_ (d, w).
    let (dss, fails) = check_downstreams r (dg_downstreams d)
    in (Inr fails, d\<lparr>dg_downstreams := dss\<rparr>, w))"

section \<open>Sending rows\<close>

fun sink_downstream_raw ::
  "'w delegate_env \<Rightarrow> u64 \<Rightarrow> event_row list \<Rightarrow> u64 \<Rightarrow> downstream list \<Rightarrow> ('w cdc_world, unit) cdc_m" where
  "sink_downstream_raw env region_id entries index [] w = (Inr (), w)"
| "sink_downstream_raw env region_id entries index (ds # dss) w =
    (let filtered = filter (\<lambda>x. contains_raw_key (ds_observed_range ds) (er_key x)) entries in
     if ds_kv_api ds \<noteq> RawKv \<or> \<not> ready_for_change_events (ds_state ds) \<or> filtered = []
     then sink_downstream_raw env region_id entries index dss w
     else
       sbind (sink_event env \<lparr>evn_region_id = region_id, evn_index = index,
                evn_request_id = ds_req_id ds, evn_body = Entries filtered\<rparr> False ds) (\<lambda>_.
       sink_downstream_raw env region_id entries index dss) w)"

definition read_old_value :: "'w delegate_env \<Rightarrow> event_row \<Rightarrow> timestamp \<Rightarrow> cdc_error + event_row" where
  "read_old_value env row read_old_ts =
    rbind (de_old_value_cb env (append_ts (from_raw (er_key row)) (er_start_ts row)) read_old_ts) (\<lambda>old.
    Inr (row\<lparr>er_old_value := (case old of None \<Rightarrow> [] | Some v \<Rightarrow> v)\<rparr>))"

text \<open>The rows of a command for one downstream: old values are read once and kept in the rows for the
  downstreams that follow, lock counts go to the heap, filtered sources are left out.\<close>

fun tidb_entries ::
  "'w delegate_env \<Rightarrow> row_in_building list \<Rightarrow> downstream \<Rightarrow> (cdc_error + row_in_building list \<times> event_row list) \<times> downstream"
  where
  "tidb_entries env [] ds = (Inr ([], []), ds)"
| "tidb_entries env (row # rows) ds =
    (if \<not> contains_raw_key (ds_observed_range ds) (er_key (rib_v row))
     then apfst (rmap (apfst (\<lambda>rows. row # rows))) (tidb_entries env rows ds)
     else
       (case (case rib_needs_old_value row of
                None \<Rightarrow> Inr row
              | Some ts \<Rightarrow> rmap (\<lambda>v. row\<lparr>rib_v := v, rib_needs_old_value := None\<rparr>)
                            (read_old_value env (rib_v row) ts)) of
          Inl e \<Rightarrow> (Inl e, ds)
        | Inr row \<Rightarrow>
          (case downstream_count (er_key (rib_v row)) (rib_lock_modified_counts row) ds of
             None \<Rightarrow> (Inl CdcPanic, ds)
           | Some ds \<Rightarrow>
             let src = er_txn_source (rib_v row);
                 skip = (is_lossy_ddl_reorg_source_set src
                         \<or> ds_filter_loop ds \<and> is_cdc_write_source_set src)
             in apfst (rmap (\<lambda>(rows, entries).
                    (row # rows, (if skip then [] else [rib_v row]) @ entries)))
                  (tidb_entries env rows ds))))"

fun sink_downstream_tidb ::
  "'w delegate_env \<Rightarrow> u64 \<Rightarrow> row_in_building list \<Rightarrow> downstream list \<Rightarrow> 'w cdc_world
    \<Rightarrow> (cdc_error + unit) \<times> downstream list \<times> 'w cdc_world" where
  "sink_downstream_tidb env region_id entries [] w = (Inr (), [], w)"
| "sink_downstream_tidb env region_id entries (ds # dss) w =
    (if ds_kv_api ds \<noteq> TiDb \<or> \<not> ready_for_change_events (ds_state ds)
     then apsnd (apfst (\<lambda>dss. ds # dss)) (sink_downstream_tidb env region_id entries dss w)
     else
       (case tidb_entries env entries ds of
          (Inl e, ds) \<Rightarrow> (Inl e, ds # dss, w)
        | (Inr (entries, filtered), ds) \<Rightarrow>
            if filtered = []
            then apsnd (apfst (\<lambda>dss. ds # dss)) (sink_downstream_tidb env region_id entries dss w)
            else
              (case sink_event env \<lparr>evn_region_id = region_id, evn_index = 0,
                      evn_request_id = ds_req_id ds, evn_body = Entries filtered\<rparr> False ds w of
                 (Inl e, w) \<Rightarrow> (Inl e, ds # dss, w)
               | (Inr _, w) \<Rightarrow>
                   apsnd (apfst (\<lambda>dss. ds # dss)) (sink_downstream_tidb env region_id entries dss w))))"

section \<open>Commands\<close>

datatype raft_request =
    ReqPut string bytes bytes
  | ReqPrewrite bytes bytes bytes
  | ReqDelete string bytes
  | ReqDeleteRange string bytes bytes bool
  | ReqIngestSst bytes
  | ReqOther

definition emit_delete_range :: "'w delegate_env \<Rightarrow> bytes \<Rightarrow> bytes \<Rightarrow> 'w dstate \<Rightarrow> 'w dstate" where
  "emit_delete_range env start_key end_key st =
    (case de_ser env (mk_event (DeleteRange start_key end_key 0)) of
       None \<Rightarrow> st | Some data \<Rightarrow> emit_pcr_event data st)"

text \<open>Reading the SST file is only a comment in the source: whether the file is valid or not, nothing
  is captured.\<close>

definition sink_ingest_sst :: "'w delegate_env \<Rightarrow> bytes \<Rightarrow> ('w dstate, unit) cdc_m" where
  "sink_ingest_sst env sst st =
    (case dg_sst_importer (fst st) of
       None \<Rightarrow> (Inr (), st)
     | Some importer \<Rightarrow> if \<not> de_validate_sst env importer sst then (Inr (), st) else (Inr (), st))"

definition capture_prewrite :: "bytes \<Rightarrow> bytes \<Rightarrow> bytes \<Rightarrow> delegate \<Rightarrow> delegate" where
  "capture_prewrite raw_key value lock_bytes d =
    (let start_ts = (case parse_lock lock_bytes of Inl e \<Rightarrow> 0 | Inr l \<Rightarrow> lk_ts l);
         encoded_key = [0x7a] @ raw_key @ be_bytes 8 (unat (NOT start_ts))
     in delegate_add_kvs [mk_kv encoded_key value OpPut ''default''] d)"

fun sink_request ::
  "'w delegate_env \<Rightarrow> raft_request \<Rightarrow> rows_builder \<Rightarrow> ('w dstate, rows_builder) cdc_m" where
  "sink_request env (ReqPut cf k v) rows st = sink_put env cf k v rows st"
| "sink_request env (ReqIngestSst sst) rows st = sbind (sink_ingest_sst env sst) (\<lambda>_. sreturn rows) st"
| "sink_request env (ReqDeleteRange cf a b notify_only) rows st =
    (Inr rows, if notify_only then st else emit_delete_range env a b st)"
| "sink_request env (ReqPrewrite k v l) rows st = (Inr rows, apfst (capture_prewrite k v l) st)"
| "sink_request env (ReqDelete cf k) rows st = (Inr rows, st)"
| "sink_request env ReqOther rows st = (Inr rows, st)"

fun sink_requests ::
  "'w delegate_env \<Rightarrow> raft_request list \<Rightarrow> rows_builder \<Rightarrow> ('w dstate, rows_builder) cdc_m" where
  "sink_requests env [] rows = sreturn rows"
| "sink_requests env (req # reqs) rows = sbind (sink_request env req rows) (sink_requests env reqs)"

definition force_flush :: "'w delegate_env \<Rightarrow> nat \<Rightarrow> 'w dstate \<Rightarrow> 'w dstate" where
  "force_flush env now st =
    (let st = maybe_flush_pcr_batcher env now st in
     case dg_pcr_batcher (fst st) of
       None \<Rightarrow> st
     | Some batcher \<Rightarrow> if eb_size batcher > 0 then flush_pcr_batcher env now batcher st else st)"

definition sink_data ::
  "'w delegate_env \<Rightarrow> nat \<Rightarrow> u64 \<Rightarrow> raft_request list \<Rightarrow> bool \<Rightarrow> ('w dstate, unit) cdc_m" where
  "sink_data env now index requests one_pc =
    sbind (sink_requests env requests (rows_builder_default\<lparr>rw_is_one_pc := one_pc\<rparr>)) (\<lambda>rows st.
    case force_flush env now st of
      (d, w) \<Rightarrow>
        let (raws, txns) = finish_build (de_order env) rows in
        (case sink_downstream_raw env (dg_region_id d) raws index (dg_downstreams d) w of
           (Inl e, w) \<Rightarrow> (Inl e, d, w)
         | (Inr _, w) \<Rightarrow>
             let (r, dss, w) = sink_downstream_tidb env (dg_region_id d) txns (dg_downstreams d) w
             in (r, d\<lparr>dg_downstreams := dss\<rparr>, w)))"

text \<open>An administrative command with the regions of its response.\<close>

datatype admin_cmd =
    AdminSplit region region
  | AdminBatchSplit "region list"
  | AdminMerge
  | AdminOther

definition emit_pcr_split :: "'w delegate_env \<Rightarrow> bytes \<Rightarrow> u64 list \<Rightarrow> 'w dstate \<Rightarrow> 'w dstate" where
  "emit_pcr_split env split_key new_region_ids st =
    (if dg_pcr_event_sink (fst st) = None then st
     else (case de_ser env (mk_event (SplitNotice split_key new_region_ids)) of
             None \<Rightarrow> st | Some data \<Rightarrow> emit_pcr_event data st))"

fun sink_admin :: "'w delegate_env \<Rightarrow> admin_cmd \<Rightarrow> ('w dstate, unit) cdc_m" where
  "sink_admin env (AdminSplit left right) st =
    (Inl (CdcRequest (EpochNotMatch ''split'' [left, right])),
     emit_pcr_split env (rg_start_key right) [rg_id left, rg_id right] st)"
| "sink_admin env (AdminBatchSplit regions) st =
    (Inl (CdcRequest (EpochNotMatch ''batchsplit'' regions)),
     emit_pcr_split env (case regions of [] \<Rightarrow> [] | r # _ \<Rightarrow> rg_start_key r) (map rg_id regions) st)"
| "sink_admin env AdminMerge st = (Inl (CdcRequest (EpochNotMatch ''merge'' [])), st)"
| "sink_admin env AdminOther st = (Inr (), st)"

record apply_cmd =
  ac_index :: u64
  ac_error :: "region_error option"
  ac_admin :: "admin_cmd option"
  ac_requests :: "raft_request list"
  ac_one_pc :: bool

record cmd_batch =
  cb_level :: nat
  cb_cdc_id :: nat
  cb_region_id :: u64
  cb_cmds :: "apply_cmd list"
  cb_delete_ranges :: "(string \<times> bytes \<times> bytes) list"

definition sink_cmd :: "'w delegate_env \<Rightarrow> nat \<Rightarrow> apply_cmd \<Rightarrow> ('w dstate, unit) cdc_m" where
  "sink_cmd env now cmd =
    (case ac_error cmd of
       Some e \<Rightarrow> slift (Inl (CdcRequest e))
     | None \<Rightarrow>
         (case ac_admin cmd of
            None \<Rightarrow> sink_data env now (ac_index cmd) (ac_requests cmd) (ac_one_pc cmd)
          | Some admin \<Rightarrow> sink_admin env admin))"

definition on_batch :: "'w delegate_env \<Rightarrow> nat \<Rightarrow> cmd_batch \<Rightarrow> ('w dstate, unit) cdc_m" where
  "on_batch env now batch st =
    (if cb_cdc_id batch \<noteq> dg_handle_id (fst st) then (Inr (), st)
     else if cb_region_id batch \<noteq> dg_region_id (fst st) then (Inl CdcPanic, st)
     else
       sbind (siter (sink_cmd env now) (cb_cmds batch)) (\<lambda>_ st.
       let st = fold (\<lambda>(cf, start_key, end_key). emit_delete_range env start_key end_key)
                  (cb_delete_ranges batch) st
       in (Inr (), apfst (\<lambda>d. d\<lparr>dg_pcr_cf_default_keys := {}\<rparr>) st)) st)"

section \<open>Advancing the resolved timestamp\<close>

definition BATCH_RESOLVED_TS :: byte where "BATCH_RESOLVED_TS = 1"
definition VALIDATE_CLUSTER_ID :: byte where "VALIDATE_CLUSTER_ID = 2"
definition STREAM_MULTIPLEXING :: byte where "STREAM_MULTIPLEXING = 4"

definition WARN_LAG_THRESHOLD :: nat where "WARN_LAG_THRESHOLD = 600 * 1000"
definition WARN_LAG_INTERVAL :: nat where "WARN_LAG_INTERVAL = 60 * 1000"

definition entry_push :: "'k \<Rightarrow> 'v \<Rightarrow> ('k \<times> 'v list) list \<Rightarrow> ('k \<times> 'v list) list" where
  "entry_push k v m =
    (case map_of m k of
       None \<Rightarrow> m @ [(k, [v])]
     | Some vs \<Rightarrow> map (\<lambda>(k', vs). (k', if k' = k then vs @ [v] else vs)) m)"

definition hash_insert :: "'k \<Rightarrow> 'v \<Rightarrow> ('k \<times> 'v) list \<Rightarrow> ('k \<times> 'v) list" where
  "hash_insert k v m = filter (\<lambda>(k', v'). k' \<noteq> k) m @ [(k, v)]"

definition queue_resolved :: "u64 \<Rightarrow> byte \<Rightarrow> downstream \<Rightarrow> timestamp \<Rightarrow> advance \<Rightarrow> advance" where
  "queue_resolved region_id features ds advanced_to adv =
    (if features AND STREAM_MULTIPLEXING = STREAM_MULTIPLEXING
     then adv\<lparr>adv_multiplexing :=
       entry_push (ds_conn_id ds, ds_req_id ds) (region_id, advanced_to) (adv_multiplexing adv)\<rparr>
     else if features AND BATCH_RESOLVED_TS = BATCH_RESOLVED_TS
     then adv\<lparr>adv_exclusive := entry_push (ds_conn_id ds) (region_id, advanced_to) (adv_exclusive adv)\<rparr>
     else adv\<lparr>adv_compat :=
       hash_insert (ds_conn_id ds, region_id) (ds_req_id ds, advanced_to) (adv_compat adv)\<rparr>)"

fun advance_downstreams ::
  "(nat \<Rightarrow> byte option) \<Rightarrow> u64 \<Rightarrow> lock_map \<Rightarrow> timestamp \<Rightarrow> timestamp \<Rightarrow> downstream list \<Rightarrow> advance
    \<Rightarrow> cdc_error + downstream list \<times> advance \<times> nat list" where
  "advance_downstreams conns region_id locks min_ts current_ts [] adv = Inr ([], adv, [])"
| "advance_downstreams conns region_id locks min_ts current_ts (ds # dss) adv =
    (case handle_downstream locks min_ts adv ds of
       (None, adv, ds) \<Rightarrow>
         rmap (apfst (\<lambda>dss. ds # dss)) (advance_downstreams conns region_id locks min_ts current_ts dss adv)
     | (Some advanced_to, adv, ds) \<Rightarrow>
         (case conns (ds_conn_id ds) of
            None \<Rightarrow> Inl CdcPanic
          | Some features \<Rightarrow>
              let adv = queue_resolved region_id features ds advanced_to adv;
                  lag = unat (physical current_ts) - unat (physical (ds_advanced_to ds));
                  slow = (if lag > WARN_LAG_THRESHOLD then [ds_id ds] else [])
              in rmap (\<lambda>(dss, adv, slows). (ds # dss, adv, slow @ slows))
                   (advance_downstreams conns region_id locks min_ts current_ts dss adv)))"

definition delegate_on_min_ts ::
  "'w delegate_env \<Rightarrow> nat \<Rightarrow> (nat \<Rightarrow> byte option) \<Rightarrow> timestamp \<Rightarrow> timestamp \<Rightarrow> advance \<Rightarrow> ('w dstate, advance) cdc_m"
  where
  "delegate_on_min_ts env now conns min_ts current_ts adv st =
    (case st of (d, w) \<Rightarrow>
     (case dg_lock_tracker d of
        Prepared r locks \<Rightarrow>
          (case advance_downstreams conns (dg_region_id d) locks min_ts current_ts (dg_downstreams d) adv of
             Inl e \<Rightarrow> (Inl e, d, w)
           | Inr (dss, adv, slow_downstreams) \<Rightarrow>
               let d = d\<lparr>dg_downstreams := dss\<rparr>;
                   d = (if slow_downstreams \<noteq> [] \<and> now - dg_last_lag_warn d > WARN_LAG_INTERVAL
                        then d\<lparr>dg_last_lag_warn := now\<rparr> else d)
               in (Inr adv, maybe_flush_pcr_batcher env now (d, w)))
      | _ \<Rightarrow>
          let adv = adv\<lparr>adv_blocked_on_scan := adv_blocked_on_scan adv + length (dg_downstreams d)\<rparr>;
              d = (if now - dg_created d > WARN_LAG_THRESHOLD
                      \<and> now - dg_last_lag_warn d > WARN_LAG_INTERVAL
                   then d\<lparr>dg_last_lag_warn := now\<rparr> else d)
          in (Inr adv, d, w)))"

definition drop_delegate :: "'w dstate \<Rightarrow> 'w cdc_world" where
  "drop_delegate st =
    (case st of (d, w) \<Rightarrow> w\<lparr>cw_quota := drop_tracking (cw_quota w, dg_lock_tracker d)\<rparr>)"

section \<open>What the commands of a region capture\<close>

text \<open>The specification: the pairs of a request, and those of a list of requests of one batch, with
  the data keys captured so far.\<close>

fun seen_after :: "raft_request \<Rightarrow> bytes set \<Rightarrow> bytes set" where
  "seen_after (ReqPut cf k v) seen =
    (if parse_key_mode k = KmRaw \<and> cf \<noteq> ''lock'' \<and> cf \<noteq> ''write'' then insert ([0x7a] @ k) seen else seen)"
| "seen_after _ seen = seen"

fun request_kvs :: "'w delegate_env \<Rightarrow> bytes set \<Rightarrow> raft_request \<Rightarrow> pcr_kv list" where
  "request_kvs env seen (ReqPut cf k v) =
    (if cf = ''lock'' then []
     else if cf = ''write'' then write_cf_kvs env seen k v
     else [mk_kv ([0x7a] @ k) v OpPut ''default''])"
| "request_kvs env seen (ReqPrewrite k v l) =
    [mk_kv (build_default_key k (case parse_lock l of Inl e \<Rightarrow> 0 | Inr l \<Rightarrow> lk_ts l)) v OpPut ''default'']"
| "request_kvs env seen _ = []"

fun captured_kvs :: "'w delegate_env \<Rightarrow> bytes set \<Rightarrow> raft_request list \<Rightarrow> pcr_kv list" where
  "captured_kvs env seen [] = []"
| "captured_kvs env seen (r # rs) = request_kvs env seen r @ captured_kvs env (seen_after r seen) rs"

fun range_events :: "raft_request list \<Rightarrow> pcr_event list" where
  "range_events [] = []"
| "range_events (ReqDeleteRange cf a b False # rs) = mk_event (DeleteRange a b 0) # range_events rs"
| "range_events (r # rs) = range_events rs"

lemma batcher_add_kvs_simps [simp]:
  "eb_batch (batcher_add_kvs kvs b) = eb_batch b @ kvs"
  "eb_seq_num (batcher_add_kvs kvs b) = eb_seq_num b"
  by (induction kvs arbitrary: b) (auto simp: batcher_add_kvs_def batcher_add_kv_def mk_kv_def)

lemma batcher_add_kvs_ok [wf_intros]: "batcher_ok b \<Longrightarrow> batcher_ok (batcher_add_kvs kvs b)"
  by (induction kvs arbitrary: b) (auto simp: batcher_add_kvs_def intro: batcher_add_kv_ok)

text \<open>What an operation that captures nothing leaves alone, and its closure under the monad.\<close>

definition frame :: "'w dstate \<Rightarrow> 'w dstate \<Rightarrow> bool" where
  "frame st st' \<longleftrightarrow> (case (st, st') of ((d, w), d', w') \<Rightarrow>
    dg_region_id d' = dg_region_id d \<and> dg_handle_id d' = dg_handle_id d
    \<and> dg_pcr_event_sink d' = dg_pcr_event_sink d \<and> dg_downstreams d' = dg_downstreams d
    \<and> dg_pcr_batcher d' = dg_pcr_batcher d \<and> dg_pcr_cf_default_keys d' = dg_pcr_cf_default_keys d
    \<and> cw_pcr w' = cw_pcr w)"

abbreviation quiet :: "('w dstate, 'a) cdc_m \<Rightarrow> bool" where
  "quiet \<equiv> keeps frame"

named_theorems quiet_intros \<open>operations that capture nothing\<close>

lemma frame_refl [simp]: "frame st st"
  by (cases st) (simp add: frame_def)

lemma frame_trans: "frame st st' \<Longrightarrow> frame st' st'' \<Longrightarrow> frame st st''"
  by (cases st; cases st'; cases st'') (simp add: frame_def)

interpretation fr: state_relation frame
  by unfold_locales (simp, rule frame_trans)

declare fr.keeps_sreturn [quiet_intros] fr.keeps_slift [quiet_intros] fr.keeps_sbind [quiet_intros]

lemma quiet_track [quiet_intros]: "quiet (track f)"
  by (auto simp: keeps_def track_def frame_def Let_def split: prod.splits)

lemma quiet_txn_put_write: "quiet (txn_put_write k v rows)"
  by (auto simp: txn_put_write_def Let_def intro!: quiet_intros split: prod.splits option.splits)

lemma quiet_txn_put_lock: "quiet (txn_put_lock k v rows)"
  by (auto simp: txn_put_lock_def Let_def intro!: quiet_intros split: prod.splits)

lemma quiet_txn_put_default: "quiet (txn_put_default k v rows)"
  by (auto simp: txn_put_default_def Let_def intro!: quiet_intros split: prod.splits)

text \<open>What a capturing operation does: the pairs it adds to the batcher, the data keys known after it,
  and the events it sends through the sink \<open>s\<close> if that is still connected.\<close>

definition captures ::
  "'w delegate_env \<Rightarrow> sink_id \<Rightarrow> pcr_kv list \<Rightarrow> bytes set \<Rightarrow> pcr_event list \<Rightarrow> 'w dstate \<Rightarrow> 'w dstate \<Rightarrow> bool"
  where
  "captures env s kvs seen evs st st' \<longleftrightarrow> (case (st, st') of ((d, w), d', w') \<Rightarrow>
    dg_region_id d' = dg_region_id d \<and> dg_handle_id d' = dg_handle_id d
    \<and> dg_pcr_event_sink d' = dg_pcr_event_sink d \<and> dg_downstreams d' = dg_downstreams d
    \<and> dg_pcr_batcher d' = map_option (batcher_add_kvs kvs) (dg_pcr_batcher d)
    \<and> dg_pcr_cf_default_keys d' = seen
    \<and> pch_open (cw_pcr w' s) = pch_open (cw_pcr w s)
    \<and> pch_queue (cw_pcr w' s) = pch_queue (cw_pcr w s) @
        (if pch_open (cw_pcr w s) then List.map_filter (de_ser env) evs else []))"

lemma batcher_add_kvs_Nil [simp]: "batcher_add_kvs [] = (\<lambda>b. b)"
  by (simp add: batcher_add_kvs_def fun_eq_iff)

lemma batcher_add_kvs_append:
  "batcher_add_kvs (xs @ ys) = (\<lambda>b. batcher_add_kvs ys (batcher_add_kvs xs b))"
  by (simp add: batcher_add_kvs_def fun_eq_iff)

lemma map_filter_append [simp]: "List.map_filter f (xs @ ys) = List.map_filter f xs @ List.map_filter f ys"
  by (simp add: List.map_filter_def)

lemma captures_frame:
  "frame (d, w) st' \<Longrightarrow> captures env s [] (dg_pcr_cf_default_keys d) [] (d, w) st'"
  by (cases st') (auto simp: frame_def captures_def List.map_filter_def option.map_ident)

lemma captures_trans:
  "captures env s kvs seen evs st st' \<Longrightarrow> captures env s kvs' seen' evs' st' st'' \<Longrightarrow>
    captures env s (kvs @ kvs') seen' (evs @ evs') st st''"
  by (cases st; cases st'; cases st'')
    (auto simp: captures_def option.map_comp comp_def batcher_add_kvs_append)

lemma captures_emit:
  assumes "dg_pcr_event_sink d = Some s" "de_ser env ev = Some bs"
  shows "captures env s [] (dg_pcr_cf_default_keys d) [ev] (d, w) (emit_pcr_event bs (d, w))"
  using assms by (auto simp: captures_def emit_pcr_event_def pcr_send_def List.map_filter_def Let_def
      option.map_ident)

lemma captures_delete_range:
  assumes "dg_pcr_event_sink d = Some s"
  shows "captures env s [] (dg_pcr_cf_default_keys d) [mk_event (DeleteRange a b 0)] (d, w)
    (emit_delete_range env a b (d, w))"
proof (cases "de_ser env (mk_event (DeleteRange a b 0))")
  case None
  then show ?thesis
    by (auto simp: emit_delete_range_def captures_def List.map_filter_def option.map_ident)
next
  case (Some bs)
  then show ?thesis using captures_emit [OF assms Some] by (simp add: emit_delete_range_def)
qed

lemma captures_pcr_put:
  assumes "dg_pcr_batcher d \<noteq> None"
  shows "captures env s (request_kvs env (dg_pcr_cf_default_keys d) (ReqPut cf k v))
    (if raw_mode \<and> cf \<noteq> ''lock'' \<and> cf \<noteq> ''write''
     then insert ([0x7a] @ k) (dg_pcr_cf_default_keys d) else dg_pcr_cf_default_keys d) []
    (d, w) (pcr_put raw_mode env cf k v d, w)"
  using assms
  by (auto simp: captures_def pcr_put_def delegate_add_kvs_def List.map_filter_def Let_def
      option.map_ident)

lemma captures_quiet_after:
  assumes "captures env s kvs seen evs st st'" "quiet m"
  shows "captures env s kvs seen evs st (snd (m st'))"
proof -
  obtain d w where st': "st' = (d, w)" by (rule prod.exhaust)
  have "captures env s [] (dg_pcr_cf_default_keys d) [] st' (snd (m st'))"
    unfolding st' by (rule captures_frame) (rule keepsD [OF assms(2)])
  moreover have "dg_pcr_cf_default_keys d = seen"
    using assms(1) st' by (cases st) (simp add: captures_def)
  ultimately show ?thesis using captures_trans [OF assms(1)] by fastforce
qed

lemma captures_sink_put:
  assumes "dg_pcr_batcher d \<noteq> None"
  shows "captures env s (request_kvs env (dg_pcr_cf_default_keys d) (ReqPut cf k v))
    (seen_after (ReqPut cf k v) (dg_pcr_cf_default_keys d)) [] (d, w)
    (snd (sink_put env cf k v rows (d, w)))"
proof (cases "parse_key_mode k = KmRaw")
  case True
  then show ?thesis
    using captures_pcr_put [OF assms, of env s cf k v True w]
    by (simp add: sink_put_def sink_raw_put_def Let_def)
next
  case False
  note put = captures_pcr_put [OF assms, of env s cf k v False w]
  have seen: "seen_after (ReqPut cf k v) S = S" for S using False by simp
  show ?thesis
    using put captures_quiet_after [OF put quiet_txn_put_write [of k v rows]]
      captures_quiet_after [OF put quiet_txn_put_lock [of k v rows]]
      captures_quiet_after [OF put quiet_txn_put_default [of k v rows]]
    unfolding seen by (auto simp: sink_put_def sink_txn_put_def False Let_def simp del: request_kvs.simps)
qed

lemma captures_request:
  assumes "dg_pcr_event_sink d = Some s" "dg_pcr_batcher d \<noteq> None"
  shows "captures env s (request_kvs env (dg_pcr_cf_default_keys d) r)
    (seen_after r (dg_pcr_cf_default_keys d)) (range_events [r]) (d, w)
    (snd (sink_request env r rows (d, w)))"
proof (cases r)
  case (ReqPut cf k v)
  then show ?thesis
    using captures_sink_put [OF assms(2)] by (simp del: request_kvs.simps seen_after.simps)
next
  case (ReqPrewrite k v l)
  then show ?thesis
    by (auto simp: captures_def capture_prewrite_def delegate_add_kvs_def build_default_key_def
        DATA_PREFIX_def List.map_filter_def Let_def)
next
  case (ReqDeleteRange cf a b notify_only)
  then show ?thesis
    using captures_delete_range [OF assms(1), of env a b w] captures_frame [of d w "(d, w)" env s]
    by (cases notify_only) auto
next
  case (ReqIngestSst sst)
  then show ?thesis
    using captures_frame [of d w "(d, w)" env s]
    by (auto simp: sink_ingest_sst_def sbind_def sreturn_def split: option.splits)
qed (use captures_frame [of d w "(d, w)" env s] in auto)

lemma range_events_Cons: "range_events (r # rs) = range_events [r] @ range_events rs"
proof (cases r)
  case (ReqDeleteRange cf a b notify_only)
  then show ?thesis by (cases notify_only) auto
qed auto

lemma captures_requests:
  assumes "sink_requests env rs rows (d, w) = (Inr rows', st')"
    and "dg_pcr_event_sink d = Some s" "dg_pcr_batcher d \<noteq> None"
  shows "captures env s (captured_kvs env (dg_pcr_cf_default_keys d) rs)
    (fold seen_after rs (dg_pcr_cf_default_keys d)) (range_events rs) (d, w) st'"
  using assms
proof (induction rs arbitrary: rows d w)
  case Nil
  then show ?case using captures_frame [of d w "(d, w)" env s] by (simp add: sreturn_def)
next
  case (Cons r rs)
  obtain rows1 d1 w1 where step: "sink_request env r rows (d, w) = (Inr rows1, d1, w1)"
    and rest: "sink_requests env rs rows1 (d1, w1) = (Inr rows', st')"
    using Cons.prems(1) by (auto simp: sbind_Inr_iff)
  have first: "captures env s (request_kvs env (dg_pcr_cf_default_keys d) r)
      (seen_after r (dg_pcr_cf_default_keys d)) (range_events [r]) (d, w) (d1, w1)"
    using captures_request [OF Cons.prems(2,3), of env r w rows] step by simp
  then have "dg_pcr_event_sink d1 = Some s" "dg_pcr_batcher d1 \<noteq> None"
    "dg_pcr_cf_default_keys d1 = seen_after r (dg_pcr_cf_default_keys d)"
    using Cons.prems by (auto simp: captures_def)
  from captures_trans [OF first] Cons.IH [OF rest this(1,2)] this(3) show ?case
    by (simp add: range_events_Cons [of r rs])
qed

section \<open>Flushing and sending\<close>

lemma from_write_cf_key:
  "from_write_cf k v = Some (LmPut dk wk st ct sv) \<Longrightarrow> dk \<noteq> []"
  "from_write_cf k v = Some (LmDelete dk wk st ct) \<Longrightarrow> dk \<noteq> []"
  by (auto simp: from_write_cf_def build_default_key_def Let_def split: sum.splits write_type.splits)

lemma write_cf_kvs_keys: "kv \<in> set (write_cf_kvs env seen k v) \<Longrightarrow> kv_key kv \<noteq> []"
  by (auto simp: write_cf_kvs_def commit_put_kvs_def fallback_kvs_def mk_kv_def Let_def
      dest: from_write_cf_key split: option.splits logical_mutation.splits if_splits sum.splits)

lemma captured_kvs_keys: "kv \<in> set (captured_kvs env seen rs) \<Longrightarrow> kv_key kv \<noteq> []"
proof (induction rs arbitrary: seen)
  case (Cons r rs)
  have "kv_key kv \<noteq> []" if "kv \<in> set (request_kvs env seen r)"
    using that by (cases r) (auto simp: mk_kv_def build_default_key_def dest: write_cf_kvs_keys split: if_splits)
  with Cons show ?case by auto
qed simp

text \<open>A batcher whose size is exact and whose pairs have keys: it is empty exactly when its size is zero.\<close>

definition batcher_sound :: "event_batcher \<Rightarrow> bool" where
  "batcher_sound b \<longleftrightarrow> batcher_ok b \<and> (\<forall>kv \<in> set (eb_batch b). kv_key kv \<noteq> [])"

lemma batcher_sound_size: "batcher_sound b \<Longrightarrow> eb_size b = 0 \<longleftrightarrow> eb_batch b = []"
  by (cases "eb_batch b") (auto simp: batcher_sound_def batcher_ok_def kv_bytes_def)

lemma batcher_sound_add:
  "batcher_sound b \<Longrightarrow> batcher_sound (batcher_add_kvs (captured_kvs env seen rs) b)"
  using batcher_add_kvs_ok by (auto simp: batcher_sound_def dest: captured_kvs_keys)

lemma batcher_sound_new [simp]: "batcher_sound (batcher_new now n ms)"
  by (simp add: batcher_sound_def batcher_new_ok) (simp add: batcher_new_def)

definition kv_event :: "u64 \<Rightarrow> pcr_kv list \<Rightarrow> pcr_event" where
  "kv_event seq kvs = (mk_event (KvBatch kvs))\<lparr>ev_stream_seq := seq\<rparr>"

definition flushed :: "nat \<Rightarrow> event_batcher \<Rightarrow> event_batcher" where
  "flushed now b = b\<lparr>eb_seq_num := eb_seq_num b + 1, eb_batch := [], eb_size := 0, eb_last_flush := now\<rparr>"

lemma flushed_simps [simp]:
  "eb_batch (flushed now b) = []" "eb_size (flushed now b) = 0" "batcher_sound (flushed now b)"
  "eb_seq_num (flushed now b) = eb_seq_num b + 1"
  by (simp_all add: flushed_def batcher_sound_def batcher_ok_def)

text \<open>Emptying the batcher, as an effect on the delegate and on the sink \<open>s\<close>.\<close>

definition drained ::
  "'w delegate_env \<Rightarrow> nat \<Rightarrow> sink_id \<Rightarrow> event_batcher \<Rightarrow> 'w dstate \<Rightarrow> 'w dstate \<Rightarrow> bool" where
  "drained env now s b st st' \<longleftrightarrow> (case (st, st') of ((d, w), d', w') \<Rightarrow>
    d' = d\<lparr>dg_pcr_batcher := Some (if eb_batch b = [] then b else flushed now b)\<rparr>
    \<and> pch_open (cw_pcr w' s) = pch_open (cw_pcr w s)
    \<and> pch_queue (cw_pcr w' s) = pch_queue (cw_pcr w s) @
        (if pch_open (cw_pcr w s) \<and> eb_batch b \<noteq> []
         then List.map_filter (de_ser env) [kv_event (eb_seq_num b + 1) (eb_batch b)] else []))"

lemma flush_pcr_batcher_drained:
  assumes "dg_pcr_event_sink d = Some s"
  shows "drained env now s b (d, w) (flush_pcr_batcher env now b (d, w))"
  using assms
  by (auto simp: drained_def flush_pcr_batcher_def batcher_flush_def flushed_def kv_event_def
      emit_pcr_event_def pcr_send_def List.map_filter_def Let_def split: option.splits)

lemma force_flush_drained:
  assumes "dg_pcr_event_sink d = Some s" "dg_pcr_batcher d = Some b" "batcher_sound b"
  shows "drained env now s b (d, w) (force_flush env now (d, w))"
proof (cases "batcher_should_flush now b")
  case True
  obtain d1 w1 where f: "flush_pcr_batcher env now b (d, w) = (d1, w1)" by (rule prod.exhaust)
  have dr: "drained env now s b (d, w) (d1, w1)"
    using flush_pcr_batcher_drained [OF assms(1), of env now b w] f by simp
  then have "dg_pcr_batcher d1 = Some (if eb_batch b = [] then b else flushed now b)"
    by (simp add: drained_def)
  then have "force_flush env now (d, w) = (d1, w1)"
    using True f assms batcher_sound_size [OF assms(3)]
    by (auto simp: force_flush_def maybe_flush_pcr_batcher_def Let_def)
  with dr show ?thesis by simp
next
  case False
  then have step: "force_flush env now (d, w) =
      (if eb_size b > 0 then flush_pcr_batcher env now b (d, w) else (d, w))"
    using assms(2) by (simp add: force_flush_def maybe_flush_pcr_batcher_def Let_def)
  show ?thesis
  proof (cases "eb_batch b = []")
    case True
    then show ?thesis
      using step assms batcher_sound_size [OF assms(3)] by (auto simp: drained_def)
  next
    case False
    then show ?thesis
      using step batcher_sound_size [OF assms(3)] flush_pcr_batcher_drained [OF assms(1), of env now b w]
      by simp
  qed
qed

lemma sink_event_pcr [simp]: "cw_pcr (snd (sink_event env ev force ds w)) = cw_pcr w"
  by (auto simp: sink_event_def Let_def split: option.splits prod.splits)

lemma sink_downstream_raw_pcr:
  "sink_downstream_raw env region_id entries index dss w = (r, w') \<Longrightarrow> cw_pcr w' = cw_pcr w"
proof (induction dss arbitrary: w)
  case (Cons ds dss)
  then show ?case
    by (auto simp: sbind_def Let_def split: if_splits prod.splits sum.splits)
      (metis sink_event_pcr snd_conv)+
qed simp

lemma sink_downstream_tidb_pcr:
  "cw_pcr (snd (snd (sink_downstream_tidb env region_id entries dss w))) = cw_pcr w"
proof (induction dss arbitrary: w entries)
  case (Cons ds dss)
  then show ?case
    by (auto simp: apsnd_def apfst_def map_prod_def case_prod_unfold Let_def split: sum.splits prod.splits)
qed simp

text \<open>The replication stream a batch of commands is to produce, from what was pending.\<close>

definition data_requests :: "apply_cmd \<Rightarrow> raft_request list" where
  "data_requests c = (if ac_admin c = None then ac_requests c else [])"

fun batch_events ::
  "'w delegate_env \<Rightarrow> bytes set \<Rightarrow> u64 \<Rightarrow> pcr_kv list \<Rightarrow> apply_cmd list \<Rightarrow> pcr_event list" where
  "batch_events env seen seq pending [] = []"
| "batch_events env seen seq pending (c # cs) =
    (if ac_admin c \<noteq> None then batch_events env seen seq pending cs
     else
       let kvs = pending @ captured_kvs env seen (ac_requests c); seen' = fold seen_after (ac_requests c) seen in
       range_events (ac_requests c)
       @ (if kvs = [] then batch_events env seen' seq [] cs
          else kv_event (seq + 1) kvs # batch_events env seen' (seq + 1) [] cs))"

fun batch_kvs :: "'w delegate_env \<Rightarrow> bytes set \<Rightarrow> apply_cmd list \<Rightarrow> pcr_kv list" where
  "batch_kvs env seen [] = []"
| "batch_kvs env seen (c # cs) =
    captured_kvs env seen (data_requests c) @ batch_kvs env (fold seen_after (data_requests c) seen) cs"

lemma event_kvs_kv_event [simp]: "event_kvs (kv_event seq kvs) = kvs"
  by (simp add: kv_event_def)

lemma range_events_no_kvs [simp]: "concat (map event_kvs (range_events rs)) = []"
  by (induction rs rule: range_events.induct) (auto simp: event_kvs_def mk_event_def)

lemma batch_events_kvs:
  "pending = [] \<or> list_ex (\<lambda>c. ac_admin c = None) cs \<Longrightarrow>
    concat (map event_kvs (batch_events env seen seq pending cs)) = pending @ batch_kvs env seen cs"
  by (induction env seen seq pending cs rule: batch_events.induct) (auto simp: data_requests_def Let_def)

definition streamed ::
  "'w delegate_env \<Rightarrow> sink_id \<Rightarrow> pcr_event list \<Rightarrow> 'w dstate \<Rightarrow> 'w dstate \<Rightarrow> bool" where
  "streamed env s evs st st' \<longleftrightarrow> (case (st, st') of ((d, w), d', w') \<Rightarrow>
    dg_region_id d' = dg_region_id d \<and> dg_handle_id d' = dg_handle_id d
    \<and> dg_pcr_event_sink d' = Some s
    \<and> pch_open (cw_pcr w' s) = pch_open (cw_pcr w s)
    \<and> pch_queue (cw_pcr w' s) = pch_queue (cw_pcr w s) @
        (if pch_open (cw_pcr w s) then List.map_filter (de_ser env) evs else []))"

lemma streamed_trans:
  "streamed env s evs st st' \<Longrightarrow> streamed env s evs' st' st'' \<Longrightarrow> streamed env s (evs @ evs') st st''"
  by (cases st; cases st'; cases st'') (auto simp: streamed_def)

lemma sink_data_streamed:
  assumes run: "sink_data env now index rs one_pc (d, w) = (Inr (), d', w')"
    and s: "dg_pcr_event_sink d = Some s" and b: "dg_pcr_batcher d = Some b" "batcher_sound b"
  defines "kvs \<equiv> eb_batch b @ captured_kvs env (dg_pcr_cf_default_keys d) rs"
  shows "streamed env s (range_events rs @ (if kvs = [] then [] else [kv_event (eb_seq_num b + 1) kvs]))
      (d, w) (d', w')
    \<and> dg_pcr_cf_default_keys d' = fold seen_after rs (dg_pcr_cf_default_keys d)
    \<and> (\<exists>b'. dg_pcr_batcher d' = Some b' \<and> batcher_sound b' \<and> eb_batch b' = []
          \<and> eb_seq_num b' = (if kvs = [] then eb_seq_num b else eb_seq_num b + 1))"
proof -
  let ?b1 = "batcher_add_kvs (captured_kvs env (dg_pcr_cf_default_keys d) rs) b"
  obtain rows d1 w1 where reqs: "sink_requests env rs (rows_builder_default\<lparr>rw_is_one_pc := one_pc\<rparr>) (d, w)
      = (Inr rows, d1, w1)"
    using run by (auto simp: sink_data_def sbind_Inr_iff)
  have c: "captures env s (captured_kvs env (dg_pcr_cf_default_keys d) rs)
      (fold seen_after rs (dg_pcr_cf_default_keys d)) (range_events rs) (d, w) (d1, w1)"
    using captures_requests [OF reqs s] b by simp
  then have b1: "dg_pcr_batcher d1 = Some ?b1" and s1: "dg_pcr_event_sink d1 = Some s"
    using b s by (auto simp: captures_def)
  obtain d2 w2 where ff: "force_flush env now (d1, w1) = (d2, w2)" by (rule prod.exhaust)
  have dr: "drained env now s ?b1 (d1, w1) (d2, w2)"
    using force_flush_drained [OF s1 b1 batcher_sound_add [OF b(2)], of env now w1] ff by simp
  obtain raws txns w3 dss where d': "d' = d2\<lparr>dg_downstreams := dss\<rparr>"
    and raw: "sink_downstream_raw env (dg_region_id d2) raws index (dg_downstreams d2) w2 = (Inr (), w3)"
    and tidb: "sink_downstream_tidb env (dg_region_id d2) txns (dg_downstreams d2) w3 = (Inr (), dss, w')"
    using run reqs ff by (auto simp: sink_data_def sbind_def Let_def split: prod.splits sum.splits)
  have w': "cw_pcr w' = cw_pcr w2"
    using sink_downstream_raw_pcr [OF raw] sink_downstream_tidb_pcr [of env _ txns _ w3] tidb
    by (metis snd_conv)
  have kvs: "eb_batch ?b1 = kvs" by (simp add: kvs_def)
  show ?thesis
    using c dr b1 batcher_sound_add [OF b(2), of env "dg_pcr_cf_default_keys d" rs] kvs
    by (auto simp: streamed_def captures_def drained_def d' w' s1)
qed

lemma streamed_refl: "dg_pcr_event_sink d = Some s \<Longrightarrow> streamed env s [] (d, w) (d, w)"
  by (simp add: streamed_def List.map_filter_def)

lemma sink_cmds_streamed:
  assumes "siter (sink_cmd env now) cs (d, w) = (Inr (), d', w')"
    and "dg_pcr_event_sink d = Some s" "dg_pcr_batcher d = Some b" "batcher_sound b"
  shows "streamed env s (batch_events env (dg_pcr_cf_default_keys d) (eb_seq_num b) (eb_batch b) cs)
      (d, w) (d', w')
    \<and> (\<exists>b'. dg_pcr_batcher d' = Some b' \<and> batcher_sound b'
          \<and> (list_ex (\<lambda>c. ac_admin c = None) cs \<longrightarrow> eb_batch b' = [])
          \<and> (eb_batch b = [] \<longrightarrow> eb_batch b' = []))"
  using assms
proof (induction cs arbitrary: d w b)
  case Nil
  then show ?case using streamed_refl by auto
next
  case (Cons c cs)
  obtain d1 w1 where cmd: "sink_cmd env now c (d, w) = (Inr (), d1, w1)"
    and rest: "siter (sink_cmd env now) cs (d1, w1) = (Inr (), d', w')"
    using Cons.prems(1) by (auto split: prod.splits sum.splits)
  show ?case
  proof (cases "ac_admin c")
    case None
    with cmd have data: "sink_data env now (ac_index c) (ac_requests c) (ac_one_pc c) (d, w) = (Inr (), d1, w1)"
      by (auto simp: sink_cmd_def slift_def split: option.splits)
    note step = sink_data_streamed [OF data Cons.prems(2-4)]
    then obtain b1 where b1: "dg_pcr_batcher d1 = Some b1" "batcher_sound b1" "eb_batch b1 = []"
      "eb_seq_num b1 = (if eb_batch b @ captured_kvs env (dg_pcr_cf_default_keys d) (ac_requests c) = []
         then eb_seq_num b else eb_seq_num b + 1)" by blast
    have s1: "dg_pcr_event_sink d1 = Some s" using step by (simp add: streamed_def)
    show ?thesis
      using streamed_trans [OF conjunct1 [OF step] conjunct1 [OF Cons.IH [OF rest s1 b1(1,2)]]]
        conjunct2 [OF Cons.IH [OF rest s1 b1(1,2)]] step b1(3,4) None
      by (auto simp: Let_def split: if_splits)
  next
    case (Some a)
    with cmd have "(d1, w1) = (d, w)"
      by (cases a) (auto simp: sink_cmd_def slift_def split: option.splits)
    with Cons.IH [of d w b] rest Cons.prems Some show ?thesis by auto
  qed
qed

lemma delete_ranges_streamed:
  assumes "dg_pcr_event_sink d = Some s"
  shows "\<exists>w'. fold (\<lambda>(cf, a, b). emit_delete_range env a b) drs (d, w) = (d, w')
    \<and> streamed env s (map (\<lambda>(cf, a, b). mk_event (DeleteRange a b 0)) drs) (d, w) (d, w')"
proof (induction drs arbitrary: w)
  case Nil
  then show ?case using streamed_refl [OF assms] by auto
next
  case (Cons x drs)
  obtain cf a b where x: "x = (cf, a, b)" by (rule prod_cases3)
  have "fst (emit_delete_range env a b (d, w)) = d"
    by (simp add: emit_delete_range_def emit_pcr_event_def split: option.split)
  then obtain w1 where w1: "emit_delete_range env a b (d, w) = (d, w1)" by (metis prod.collapse)
  have "streamed env s [mk_event (DeleteRange a b 0)] (d, w) (d, w1)"
    using captures_delete_range [OF assms, of env a b w] w1 assms
    by (simp add: captures_def streamed_def)
  then show ?case using Cons.IH [of w1] w1 x streamed_trans by fastforce
qed

lemma on_batch_streamed:
  assumes run: "on_batch env now batch (d, w) = (Inr (), d', w')" "cb_cdc_id batch = dg_handle_id d"
    and s: "dg_pcr_event_sink d = Some s" and b: "dg_pcr_batcher d = Some b" "batcher_sound b"
  shows "streamed env s (batch_events env (dg_pcr_cf_default_keys d) (eb_seq_num b) (eb_batch b) (cb_cmds batch)
        @ map (\<lambda>(cf, a, b). mk_event (DeleteRange a b 0)) (cb_delete_ranges batch)) (d, w) (d', w')
    \<and> dg_pcr_cf_default_keys d' = {}
    \<and> (\<exists>b'. dg_pcr_batcher d' = Some b' \<and> batcher_sound b'
          \<and> (list_ex (\<lambda>c. ac_admin c = None) (cb_cmds batch) \<longrightarrow> eb_batch b' = [])
          \<and> (eb_batch b = [] \<longrightarrow> eb_batch b' = []))"
proof -
  obtain d1 w1 where cmds: "siter (sink_cmd env now) (cb_cmds batch) (d, w) = (Inr (), d1, w1)"
    and fin: "(d', w') = apfst (\<lambda>d. d\<lparr>dg_pcr_cf_default_keys := {}\<rparr>)
      (fold (\<lambda>(cf, a, b). emit_delete_range env a b) (cb_delete_ranges batch) (d1, w1))"
    using run by (auto simp: on_batch_def sbind_Inr_iff split: if_splits)
  note step = sink_cmds_streamed [OF cmds s b]
  have s1: "dg_pcr_event_sink d1 = Some s" using step by (simp add: streamed_def)
  obtain w2 where w2: "fold (\<lambda>(cf, a, b). emit_delete_range env a b) (cb_delete_ranges batch) (d1, w1) = (d1, w2)"
    "streamed env s (map (\<lambda>(cf, a, b). mk_event (DeleteRange a b 0)) (cb_delete_ranges batch)) (d1, w1) (d1, w2)"
    using delete_ranges_streamed [OF s1] by blast
  have d': "d' = d1\<lparr>dg_pcr_cf_default_keys := {}\<rparr>" "w' = w2" using fin w2(1) by auto
  have "streamed env s evs (d, w) (d1, w2) \<Longrightarrow> streamed env s evs (d, w) (d', w')" for evs
    by (simp add: streamed_def d')
  with streamed_trans [OF conjunct1 [OF step] w2(2)] step show ?thesis by (auto simp: d')
qed

section \<open>What a commit record captures\<close>

definition data_kv :: "bytes \<Rightarrow> timestamp \<Rightarrow> bytes \<Rightarrow> op_type \<Rightarrow> pcr_kv" where
  "data_kv uk start_ts v op = mk_kv (build_data_key (append_ts uk start_ts)) v op ''default''"

definition write_kv :: "bytes \<Rightarrow> timestamp \<Rightarrow> bytes \<Rightarrow> pcr_kv" where
  "write_kv uk commit_ts v = mk_kv (build_data_key (append_ts uk commit_ts)) v OpPut ''write''"

lemma write_cf_kvs_commit:
  assumes "write_wf w" and "w_type w \<noteq> WLock"
    and "build_data_key (append_ts uk (w_start_ts w)) \<notin> seen"
  shows "write_cf_kvs env seen (append_ts uk commit_ts) (write_to_bytes w) =
    (case w_type w of
       WPut \<Rightarrow>
         [data_kv uk (w_start_ts w)
            (case w_short_value w of
               Some v \<Rightarrow> v
             | None \<Rightarrow> (case de_old_value_cb env (build_data_key (append_ts uk (w_start_ts w))) (w_start_ts w) of
                          Inr (Some v) \<Rightarrow> v | _ \<Rightarrow> [])) OpPut,
          write_kv uk commit_ts (write_to_bytes w)]
     | WDelete \<Rightarrow> [data_kv uk (w_start_ts w) [] OpDelete, write_kv uk commit_ts (write_to_bytes w)]
     | _ \<Rightarrow> [])"
  using assms
  by (auto simp: write_cf_kvs_def from_write_cf_commit commit_put_kvs_def data_kv_def write_kv_def
      build_data_key_def DATA_PREFIX_def Let_def split: write_type.splits option.splits sum.splits)

lemma write_cf_kvs_lock:
  assumes "write_wf w" "w_type w = WLock"
  shows "write_cf_kvs env seen (append_ts uk commit_ts) (write_to_bytes w) =
    [write_kv uk commit_ts (write_to_bytes w),
     data_kv uk (fallback_varint 0 (tl (write_to_bytes w))) (write_to_bytes w) OpPut]"
proof -
  let ?v = "write_to_bytes w"
  have v: "?v \<noteq> []" "hd ?v = 0x4c"
    using assms(2) by (simp_all add: write_to_bytes_def FLAG_LOCK_def)
  have k: "length (append_ts uk commit_ts) \<ge> 8"
    "take (length (append_ts uk commit_ts) - 8) (append_ts uk commit_ts) = uk"
    by (simp_all add: append_ts_def encode_u64_desc_def)
  have "from_write_cf (append_ts uk commit_ts) ?v = None"
    using from_write_cf_commit [OF assms(1), of uk commit_ts] assms(2) by (simp add: Let_def)
  then have "write_cf_kvs env seen (append_ts uk commit_ts) ?v = fallback_kvs (append_ts uk commit_ts) ?v"
    by (simp add: write_cf_kvs_def)
  also have "\<dots> = [mk_kv ([0x7a] @ append_ts uk commit_ts) ?v OpPut ''write'',
      mk_kv ([0x7a] @ uk @ be_bytes 8 (unat (NOT (fallback_varint 0 (tl ?v))))) ?v OpPut ''default'']"
    using v k by (simp add: fallback_kvs_def Let_def)
  finally show ?thesis
    by (simp add: data_kv_def write_kv_def build_data_key_def DATA_PREFIX_def append_ts_def
        encode_u64_desc_def)
qed

section \<open>Properties\<close>

lemma map_filter_total:
  assumes "\<And>e. \<exists>bs. ser e = Some bs \<and> deser bs = Some e"
  shows "map deser (List.map_filter ser evs) = map Some evs"
proof (induction evs)
  case (Cons e evs)
  with assms [of e] show ?case by (auto simp: List.map_filter_def)
qed (simp add: List.map_filter_def)

text \<open>C26: a delegate with a connected replication sink streams every batch of commands completely.
  When a batch of the delegate's own observation succeeds, the events it appends to the sink are, for
  each data command in turn, its range deletions followed by one event with the pairs captured from
  it, numbered consecutively, and at the end the range deletions reported with the batch; together
  they carry exactly the pairs that were pending and those captured from the batch, and nothing stays
  behind in the batcher.  (The range deletions of a command thus precede the pairs captured before
  them.)  The protobuf encoder is assumed to succeed and to be inverted by its decoder.\<close>

theorem delegate_replicates_batch:
  assumes "\<And>e. \<exists>bs. de_ser env e = Some bs \<and> deser bs = Some e"
    and "dg_pcr_event_sink d = Some s" "pch_open (cw_pcr w s)"
    and "dg_pcr_batcher d = Some b" "batcher_sound b"
    and "cb_cdc_id batch = dg_handle_id d" "list_ex (\<lambda>c. ac_admin c = None) (cb_cmds batch)"
    and "on_batch env now batch (d, w) = (Inr (), d', w')"
  shows "\<exists>outs evs b'. pch_queue (cw_pcr w' s) = pch_queue (cw_pcr w s) @ outs
    \<and> map deser outs = map Some (evs @ map (\<lambda>(cf, x, y). mk_event (DeleteRange x y 0)) (cb_delete_ranges batch))
    \<and> evs = batch_events env (dg_pcr_cf_default_keys d) (eb_seq_num b) (eb_batch b) (cb_cmds batch)
    \<and> concat (map event_kvs evs) = eb_batch b @ batch_kvs env (dg_pcr_cf_default_keys d) (cb_cmds batch)
    \<and> dg_pcr_batcher d' = Some b' \<and> eb_batch b' = [] \<and> batcher_sound b'"
proof -
  let ?evs = "batch_events env (dg_pcr_cf_default_keys d) (eb_seq_num b) (eb_batch b) (cb_cmds batch)"
  note step = on_batch_streamed [OF assms(8,6,2,4,5)]
  have "concat (map event_kvs ?evs) = eb_batch b @ batch_kvs env (dg_pcr_cf_default_keys d) (cb_cmds batch)"
    using assms(7) by (intro batch_events_kvs) simp
  moreover obtain b' where "dg_pcr_batcher d' = Some b'" "batcher_sound b'" "eb_batch b' = []"
    using step assms(7) by blast
  moreover have "pch_queue (cw_pcr w' s) = pch_queue (cw_pcr w s) @ List.map_filter (de_ser env)
      (?evs @ map (\<lambda>(cf, x, y). mk_event (DeleteRange x y 0)) (cb_delete_ranges batch))"
    using conjunct1 [OF step] assms(3) by (simp add: streamed_def)
  ultimately show ?thesis
    using map_filter_total [of "de_ser env" deser, OF assms(1)] by blast
qed

definition example_delegate_env :: "pcr_event delegate_env" where
  "example_delegate_env = \<lparr>de_ser = Some, de_esize = (\<lambda>_. 1), de_old_value_cb = (\<lambda>_ _. Inr None),
     de_order = (\<lambda>rows. rows), de_validate_sst = (\<lambda>_ _. True)\<rparr>"

definition example_delegate :: delegate where
  "example_delegate = enable_pcr 0 7 1000 150 (delegate_new 0 3 1 ExtraNoop)"

definition example_world :: "bool \<Rightarrow> pcr_event cdc_world" where
  "example_world connected = \<lparr>cw_quota = quota_new 1000, cw_conns = (\<lambda>_. cdc_channel_new),
     cw_pcr = (\<lambda>_. \<lparr>pch_open = connected, pch_queue = []\<rparr>)\<rparr>"

definition example_batch :: cmd_batch where
  "example_batch = \<lparr>cb_level = 2, cb_cdc_id = 1, cb_region_id = 3,
     cb_cmds = [\<lparr>ac_index = 5, ac_error = None, ac_admin = None,
       ac_requests = [ReqPrewrite [0x74] [9] [], ReqDeleteRange ''default'' [1] [2] False], ac_one_pc = False\<rparr>],
     cb_delete_ranges = []\<rparr>"

text \<open>Without downstreams a command whose requests are captured succeeds.\<close>

lemma on_batch_succeeds:
  assumes reqs: "sink_requests env rs (rows_builder_default\<lparr>rw_is_one_pc := one_pc\<rparr>) (d, w) = (Inr rows, st1)"
    and batch: "cb_cdc_id batch = dg_handle_id d" "cb_region_id batch = dg_region_id d"
      "cb_cmds batch = [\<lparr>ac_index = i, ac_error = None, ac_admin = None, ac_requests = rs, ac_one_pc = one_pc\<rparr>]"
    and d: "dg_downstreams d = []" "dg_pcr_event_sink d = Some s" "dg_pcr_batcher d = Some b" "batcher_sound b"
  shows "\<exists>d' w'. on_batch env now batch (d, w) = (Inr (), d', w')"
proof -
  obtain d1 w1 where st1: "st1 = (d1, w1)" by (rule prod.exhaust)
  have c: "captures env s (captured_kvs env (dg_pcr_cf_default_keys d) rs)
      (fold seen_after rs (dg_pcr_cf_default_keys d)) (range_events rs) (d, w) (d1, w1)"
    using captures_requests [OF reqs d(2)] d(3) st1 by simp
  obtain d2 w2 where ff: "force_flush env now (d1, w1) = (d2, w2)" by (rule prod.exhaust)
  have "dg_pcr_event_sink d1 = Some s" "dg_downstreams d1 = []" "dg_pcr_batcher d1 =
      Some (batcher_add_kvs (captured_kvs env (dg_pcr_cf_default_keys d) rs) b)"
    using c d by (auto simp: captures_def)
  then have "dg_downstreams d2 = []"
    using force_flush_drained [OF _ _ batcher_sound_add [OF d(4)], of d1 s env _ rs env now w1] ff
    by (simp add: drained_def)
  then have "\<exists>st2. sink_cmd env now (hd (cb_cmds batch)) (d, w) = (Inr (), st2)"
    using reqs st1 ff by (simp add: batch sink_cmd_def sink_data_def sbind_def Let_def split: prod.split)
  then have "fst (on_batch env now batch (d, w)) = Inr ()"
    using batch by (auto simp: on_batch_def sbind_def Let_def)
  then show ?thesis by (metis prod.collapse)
qed

lemma example_batch_runs:
  "\<exists>d' w'. on_batch example_delegate_env 10 example_batch (example_delegate, example_world c) = (Inr (), d', w')"
proof -
  let ?rs = "[ReqPrewrite [0x74] [9] [], ReqDeleteRange ''default'' [1] [2] False]"
  have "\<exists>st. sink_requests example_delegate_env ?rs rows (example_delegate, example_world c) = (Inr rows, st)" for rows
    by (simp add: sbind_def sreturn_def)
  then obtain st where "sink_requests example_delegate_env ?rs (rows_builder_default\<lparr>rw_is_one_pc := False\<rparr>)
      (example_delegate, example_world c) = (Inr (rows_builder_default\<lparr>rw_is_one_pc := False\<rparr>), st)" by blast
  then show ?thesis
    by (rule on_batch_succeeds [where i = 5 and s = 7 and b = "batcher_new 0 1000 150"])
      (simp_all add: example_batch_def example_delegate_def enable_pcr_def delegate_new_def)
qed

lemma example_delegate_simps:
  "dg_pcr_event_sink example_delegate = Some 7" "dg_pcr_batcher example_delegate = Some (batcher_new 0 1000 150)"
  "dg_handle_id example_delegate = 1" "dg_pcr_cf_default_keys example_delegate = {}"
  by (simp_all add: example_delegate_def enable_pcr_def delegate_new_def)

lemma example_batch_kvs:
  "batch_kvs example_delegate_env {} (cb_cmds example_batch)
    = [mk_kv (build_default_key [0x74] 0) [9] OpPut ''default'']"
  by (simp add: example_batch_def data_requests_def parse_lock_def)

theorem delegate_replicates_batch_witness:
  "\<exists>d' w' evs. on_batch example_delegate_env 10 example_batch (example_delegate, example_world True) = (Inr (), d', w')
    \<and> pch_queue (cw_pcr w' 7) = evs
    \<and> concat (map event_kvs evs) = [mk_kv (build_default_key [0x74] 0) [9] OpPut ''default'']"
proof -
  obtain d' w' where run: "on_batch example_delegate_env 10 example_batch (example_delegate, example_world True)
      = (Inr (), d', w')" using example_batch_runs by blast
  have "list_ex (\<lambda>c. ac_admin c = None) (cb_cmds example_batch)" "cb_cdc_id example_batch = 1"
    "cb_delete_ranges example_batch = []" by (simp_all add: example_batch_def)
  moreover have "de_ser example_delegate_env = Some" by (simp add: example_delegate_env_def)
  moreover have "eb_batch (batcher_new 0 1000 150) = []" by (simp add: batcher_new_def)
  ultimately obtain outs evs where "pch_queue (cw_pcr w' 7) = pch_queue (cw_pcr (example_world True) 7) @ outs"
    "map Some outs = map Some evs" "concat (map event_kvs evs) = batch_kvs example_delegate_env {} (cb_cmds example_batch)"
    using delegate_replicates_batch [of example_delegate_env Some example_delegate 7 "example_world True"
        "batcher_new 0 1000 150" example_batch 10 d' w', OF _ _ _ _ _ _ _ run]
    by (auto simp: example_delegate_simps) (simp add: example_world_def)
  moreover have "pch_queue (cw_pcr (example_world True) 7) = []" by (simp add: example_world_def)
  moreover have "outs = evs" using \<open>map Some outs = _\<close> by (rule map_injective) simp
  ultimately show ?thesis using run by (simp add: example_batch_kvs)
qed

text \<open>a disconnected sink loses pairs.  When the consumer's end of the sink is gone, a successful batch
  still empties the batcher, but nothing arrives in the sink: the captured pairs are dropped, and a
  sink attached later does not get them.\<close>

theorem disconnected_sink_loses_pairs:
  assumes "dg_pcr_event_sink d = Some s" "\<not> pch_open (cw_pcr w s)"
    and "dg_pcr_batcher d = Some b" "batcher_sound b"
    and "cb_cdc_id batch = dg_handle_id d" "list_ex (\<lambda>c. ac_admin c = None) (cb_cmds batch)"
    and "on_batch env now batch (d, w) = (Inr (), d', w')"
  shows "pch_queue (cw_pcr w' s) = pch_queue (cw_pcr w s)
    \<and> (\<exists>b'. dg_pcr_batcher (enable_pcr now2 s2 n ms d') = Some b' \<and> eb_batch b' = [])"
proof -
  note step = on_batch_streamed [OF assms(7,5,1,3,4)]
  obtain b' where "dg_pcr_batcher d' = Some b'" "eb_batch b' = []" using step assms(6) by blast
  moreover have "pch_queue (cw_pcr w' s) = pch_queue (cw_pcr w s)"
    using conjunct1 [OF step] assms(2) by (simp add: streamed_def)
  ultimately show ?thesis by (simp add: enable_pcr_def)
qed

theorem disconnected_sink_loses_pairs_witness:
  "\<exists>d' w'. on_batch example_delegate_env 10 example_batch (example_delegate, example_world False) = (Inr (), d', w')
    \<and> pch_queue (cw_pcr w' 7) = []
    \<and> batch_kvs example_delegate_env {} (cb_cmds example_batch) \<noteq> []"
proof -
  obtain d' w' where run: "on_batch example_delegate_env 10 example_batch (example_delegate, example_world False)
      = (Inr (), d', w')" using example_batch_runs by blast
  have "list_ex (\<lambda>c. ac_admin c = None) (cb_cmds example_batch)" "cb_cdc_id example_batch = 1"
    by (simp_all add: example_batch_def)
  then show ?thesis
    using disconnected_sink_loses_pairs [of example_delegate 7 "example_world False"
        "batcher_new 0 1000 150" example_batch example_delegate_env 10 d' w'] run
    by (auto simp: example_delegate_simps example_batch_kvs) (simp add: example_world_def)
qed

text \<open>C34: what replication captures from a commit record.  For a well-formed record of a put, a deletion or
  a rollback whose data key was not captured before in the batch, the pairs are: for a put the data
  key with the short value, or with the value looked up (an empty one if the lookup fails), and the
  commit key with the record; for a deletion the data key as deleted and the commit key with the
  record; for a rollback nothing.  A lock record is not recognised: its commit key is followed by a
  data key, with a timestamp read from the wrong end of the variable-length integer, that holds the
  commit record itself as if it were a value.\<close>

theorem commit_record_capture:
  assumes "write_wf w" and "build_data_key (append_ts uk (w_start_ts w)) \<notin> seen"
  shows "write_cf_kvs env seen (append_ts uk commit_ts) (write_to_bytes w) =
    (let wkv = write_kv uk commit_ts (write_to_bytes w); start_ts = w_start_ts w in
     case w_type w of
       WPut \<Rightarrow>
         [data_kv uk start_ts
            (case w_short_value w of
               Some v \<Rightarrow> v
             | None \<Rightarrow> (case de_old_value_cb env (build_data_key (append_ts uk start_ts)) start_ts of
                          Inr (Some v) \<Rightarrow> v | _ \<Rightarrow> [])) OpPut, wkv]
     | WDelete \<Rightarrow> [data_kv uk start_ts [] OpDelete, wkv]
     | WRollback \<Rightarrow> []
     | WLock \<Rightarrow> [wkv, data_kv uk (fallback_varint 0 (tl (write_to_bytes w))) (write_to_bytes w) OpPut])"
  using write_cf_kvs_commit [OF assms(1) _ assms(2), of env commit_ts] write_cf_kvs_lock [OF assms(1)]
  by (cases "w_type w") (simp_all add: Let_def)

theorem commit_record_capture_witness:
  "write_cf_kvs example_delegate_env {} (append_ts [0x74] 20) (write_to_bytes (write_new WPut 10 (Some [1]))) =
    [data_kv [0x74] 10 [1] OpPut, write_kv [0x74] 20 (write_to_bytes (write_new WPut 10 (Some [1])))]"
proof -
  have "write_wf (write_new WPut 10 (Some [1]))"
    by (simp add: write_wf_def write_new_def is_short_value_def SHORT_VALUE_MAX_LEN_def)
  from commit_record_capture [OF this, of "[0x74]" "{}" example_delegate_env 20]
  show ?thesis by (simp add: write_new_def Let_def)
qed

text \<open>switching replication on forgets the locks.  A delegate that tracks a lock older than \<open>min_ts\<close> and
  has an initialized downstream resolves up to \<open>min_ts\<close> as soon as replication is switched on: the
  tracked locks are discarded, so the downstream is told a resolved timestamp above a transaction that
  is still open, and the bytes the locks were charged for stay charged after the delegate is gone.\<close>

theorem enabling_pcr_forgets_locks:
  assumes "dg_lock_tracker d = Prepared r locks" "bt_get locks k = Some (cap, l)" "ml_ts l < min_ts"
    and "dg_downstreams d = [ds]" "ds_state ds = Normal" "ds_lock_heap ds = None" "ds_advanced_to ds < min_ts"
    and "conns (ds_conn_id ds) = Some features"
  shows "\<exists>adv' d' w' ds'. delegate_on_min_ts env now conns min_ts current_ts adv (enable_pcr t s n ms d, w)
      = (Inr adv', d', w') \<and> dg_downstreams d' = [ds'] \<and> ds_advanced_to ds' = min_ts
      \<and> mq_in_use (cw_quota (drop_delegate (enable_pcr t s n ms d, w))) = mq_in_use (cw_quota w)"
proof -
  let ?d = "enable_pcr t s n ms d"
  have d: "dg_lock_tracker ?d = Prepared region_default []" "dg_downstreams ?d = [ds]"
    using assms(4) by (simp_all add: enable_pcr_def Let_def)
  have h: "handle_downstream [] min_ts adv ds =
      (Some min_ts, adv\<lparr>adv_scan_finished := adv_scan_finished adv + 1\<rparr>,
       ds\<lparr>ds_lock_heap := Some [], ds_advanced_to := min_ts\<rparr>)"
    using assms(5-7) by (simp add: handle_downstream_def build_lock_heap_def bt_range_def bt_first_key_def
        Let_def)
  have "dg_downstreams (fst (maybe_flush_pcr_batcher env now st)) = dg_downstreams (fst st)" for st :: "'a dstate"
    by (cases st) (auto simp: maybe_flush_pcr_batcher_def flush_pcr_batcher_def emit_pcr_event_def Let_def
        split: option.splits prod.splits)
  moreover have "cw_quota (drop_delegate (?d, w)) = quota_free 0 (cw_quota w)"
    by (simp add: drop_delegate_def drop_tracking_def d tracker_heap_size_def locks_heap_size_def bt_sum_def)
  moreover have "mq_in_use (quota_free 0 (cw_quota w)) = mq_in_use (cw_quota w)"
    by (simp add: quota_free_def Let_def)
  moreover define m where "m = delegate_on_min_ts env now conns min_ts current_ts adv (?d, w)"
  ultimately have "is_ok (fst m)"
    "dg_downstreams (fst (snd m)) = [ds\<lparr>ds_lock_heap := Some [], ds_advanced_to := min_ts\<rparr>]"
    "mq_in_use (cw_quota (drop_delegate (?d, w))) = mq_in_use (cw_quota w)"
    using assms(8) by (simp_all add: delegate_on_min_ts_def d h Let_def)
  moreover obtain res d' w' where "m = (res, d', w')" by (rule prod_cases3)
  ultimately show ?thesis unfolding m_def by (cases res) auto
qed

definition locked_delegate :: delegate where
  "locked_delegate = (delegate_new 0 3 1 ExtraReadOldValue)
     \<lparr>dg_lock_tracker := Prepared region_default [([5], 9, mini_lock_new 10 0)],
      dg_downstreams := [(downstream_new 0 (rg_epoch region_default) 1 2 TiDb False observed_range_default)
        \<lparr>ds_state := Normal\<rparr>]\<rparr>"

theorem enabling_pcr_forgets_locks_witness:
  "\<exists>adv' d' w' ds'. delegate_on_min_ts example_delegate_env 10 (\<lambda>_. Some 0) 50 60 advance_default
      (enable_pcr 0 7 1000 150 locked_delegate, example_world True) = (Inr adv', d', w')
    \<and> dg_downstreams d' = [ds'] \<and> ds_advanced_to ds' = 50"
  using enabling_pcr_forgets_locks [of locked_delegate region_default "[([5], 9, mini_lock_new 10 0)]" "[5]" 9
      "mini_lock_new 10 0" 50 _ "\<lambda>_. Some 0" 0 example_delegate_env 10 60 advance_default 0 7 1000 150
      "example_world True"]
  by (fastforce simp: locked_delegate_def bt_get_def mini_lock_new_def downstream_new_def)

end
