(* ===== verification/PcrSnapshot.thy ===== *)
theory PcrSnapshot
  imports PcrDelegate
begin

text \<open>
  Snapshot scans of the producer (\<open>components/cdc/src/pcr_snapshot.rs\<close>) and the scan of a region by the
  span bridge (\<open>span_bridge.rs\<close>, \<open>scan_region\<close>): reading a column family, the changes committed after a
  timestamp, and the stream of snapshot events built from them.

  A snapshot gives for each column family the pairs an iterator yields, in the order of the keys, or
  \<open>None\<close> when the iterator cannot be opened.  A snapshot is taken per call, so a scan of two column
  families has two.
\<close>

section \<open>Reading a column family\<close>

type_synonym rocks_snapshot = "string \<Rightarrow> (bytes, bytes) btree option"

definition stream_cf_full :: "rocks_snapshot \<Rightarrow> string \<Rightarrow> (bytes \<times> bytes) list" where
  "stream_cf_full snap cf = (case snap cf of None \<Rightarrow> [] | Some m \<Rightarrow> m)"

definition encode_bound :: "bytes \<Rightarrow> bytes" where
  "encode_bound pd_key = append_ts pd_key (- 1)"

text \<open>The iterator positioned at the lower bound, or at the first key.\<close>

definition iter_from :: "rocks_snapshot \<Rightarrow> string \<Rightarrow> bytes \<Rightarrow> (bytes \<times> bytes) list" where
  "iter_from snap cf from =
    (let seek_target = (if from \<noteq> [] then encode_bound from else [])
     in dropWhile (\<lambda>(k, v). k < seek_target) (stream_cf_full snap cf))"

definition scan_default_cf :: "rocks_snapshot \<Rightarrow> bytes \<Rightarrow> bytes \<Rightarrow> nat \<Rightarrow> (bytes \<times> bytes) list" where
  "scan_default_cf snap from to limit = take limit (iter_from snap ''default'' from)"

definition scan_write_cf_raw :: "rocks_snapshot \<Rightarrow> bytes \<Rightarrow> bytes \<Rightarrow> nat \<Rightarrow> (bytes \<times> bytes) list" where
  "scan_write_cf_raw snap from to limit = take limit (iter_from snap ''write'' from)"

text \<open>The user key of a record committed after \<open>since_ts\<close>.\<close>

definition key_since :: "u64 \<Rightarrow> bytes \<Rightarrow> bytes option" where
  "key_since since_ts ek =
    (case decode_ts_from ek of
       Inl e \<Rightarrow> None
     | Inr commit_ts \<Rightarrow>
         if commit_ts > since_ts
         then (case truncate_ts_for ek of Inl e \<Rightarrow> None | Inr user_key \<Rightarrow> Some user_key) else None)"

fun raw_since_loop ::
  "u64 \<Rightarrow> nat \<Rightarrow> bytes \<Rightarrow> (bytes \<times> bytes) list \<Rightarrow> (bytes \<times> bytes) list \<Rightarrow> (bytes \<times> bytes) list" where
  "raw_since_loop since_ts limit to [] results = results"
| "raw_since_loop since_ts limit to ((ek, v) # it) results =
    (if length results \<ge> limit then results
     else (case key_since since_ts ek of
             None \<Rightarrow> raw_since_loop since_ts limit to it results
           | Some user_key \<Rightarrow>
               if to \<noteq> [] \<and> user_key \<ge> to then results
               else raw_since_loop since_ts limit to it (results @ [(ek, v)])))"

definition scan_write_cf_raw_since ::
  "rocks_snapshot \<Rightarrow> u64 \<Rightarrow> nat \<Rightarrow> bytes \<Rightarrow> bytes \<Rightarrow> (bytes \<times> bytes) list" where
  "scan_write_cf_raw_since snap since_ts limit from to =
    raw_since_loop since_ts limit to (iter_from snap ''write'' from) []"

section \<open>Changes since a timestamp\<close>

text \<open>What one record adds to the two result lists.\<close>

definition delta_record ::
  "rocks_snapshot \<Rightarrow> bytes \<Rightarrow> bytes \<Rightarrow> bytes \<Rightarrow> (bytes \<times> bytes) list \<times> (bytes \<times> bytes \<times> op_type) list" where
  "delta_record snap encoded_key user_key write_bytes =
    (case parse_write write_bytes of
       Inl e \<Rightarrow> ([], [])
     | Inr w \<Rightarrow>
         let default_key = append_ts user_key (w_start_ts w) in
         (case w_type w of
            WPut \<Rightarrow>
              ([(encoded_key, write_bytes)],
               if w_short_value w = None
               then (case snap ''default'' of
                       None \<Rightarrow> []
                     | Some m \<Rightarrow> (case bt_get m default_key of
                                    None \<Rightarrow> [] | Some v \<Rightarrow> [(default_key, v, OpPut)]))
               else [])
          | WDelete \<Rightarrow> ([(encoded_key, write_bytes)], [(default_key, [], OpDelete)])
          | _ \<Rightarrow> ([], [])))"

fun delta_loop ::
  "rocks_snapshot \<Rightarrow> u64 \<Rightarrow> bytes \<Rightarrow> (bytes \<times> bytes) list
    \<Rightarrow> (bytes \<times> bytes) list \<times> (bytes \<times> bytes \<times> op_type) list" where
  "delta_loop snap since_ts to [] = ([], [])"
| "delta_loop snap since_ts to ((ek, v) # it) =
    (case key_since since_ts ek of
       None \<Rightarrow> delta_loop snap since_ts to it
     | Some user_key \<Rightarrow>
         if to \<noteq> [] \<and> user_key \<ge> to then ([], [])
         else let (wr, dr) = delta_record snap ek user_key v; (wrs, drs) = delta_loop snap since_ts to it
              in (wr @ wrs, dr @ drs))"

definition scan_delta_entries ::
  "rocks_snapshot \<Rightarrow> u64 \<Rightarrow> bytes \<Rightarrow> bytes \<Rightarrow> (bytes \<times> bytes) list \<times> (bytes \<times> bytes \<times> op_type) list" where
  "scan_delta_entries snap since_ts from to = delta_loop snap since_ts to (iter_from snap ''write'' from)"

section \<open>The scan of a region\<close>

definition BATCH_BYTES :: nat where
  "BATCH_BYTES = 1048576"

record scan_state =
  sn_kvs :: "pcr_kv list"
  sn_bytes :: nat
  sn_sent :: "pcr_event list"

definition scan_state_new :: scan_state where
  "scan_state_new = \<lparr>sn_kvs = [], sn_bytes = 0, sn_sent = []\<rparr>"

definition scan_maybe_flush :: "scan_state \<Rightarrow> scan_state" where
  "scan_maybe_flush st =
    (if sn_bytes st \<ge> BATCH_BYTES
     then st\<lparr>sn_sent := sn_sent st @ [snapshot_event (sn_kvs st)], sn_kvs := [], sn_bytes := 0\<rparr> else st)"

definition scan_add_kv :: "pcr_kv \<Rightarrow> scan_state \<Rightarrow> scan_state" where
  "scan_add_kv kv st =
    scan_maybe_flush (st\<lparr>sn_bytes := sn_bytes st + kv_bytes kv, sn_kvs := sn_kvs st @ [kv]\<rparr>)"

text \<open>A key that contains the five bytes \<open>mDB:1\<close>.\<close>

definition is_meta_key :: "bytes \<Rightarrow> bool" where
  "is_meta_key k = list_ex (\<lambda>i. take 5 (drop i k) = [0x6d, 0x44, 0x42, 0x3a, 0x31]) [0..<length k - 4]"

definition synthesized_key :: "bytes \<Rightarrow> bytes \<Rightarrow> bytes" where
  "synthesized_key k v = take (length k - 8) k @ be_bytes 8 (unat (NOT (fallback_varint 0 (drop 1 v))))"

text \<open>The pair of the default column family made up for the commit record of a metadata key; \<open>live\<close>
  reads the engine, not the snapshot.\<close>

definition meta_kvs :: "(string \<Rightarrow> bytes \<Rightarrow> bytes option) \<Rightarrow> bytes \<Rightarrow> bytes \<Rightarrow> pcr_kv list" where
  "meta_kvs live k v =
    (case drop 1 (dropWhile (\<lambda>b. b AND 0x80 \<noteq> 0) (drop 1 v)) of
       b # rest \<Rightarrow>
         if b = 0x76
         then (case rest of
                 [] \<Rightarrow> []
               | sv_len # body \<Rightarrow>
                   if unat sv_len \<le> length body \<and> length k \<ge> 9
                   then [mk_kv (synthesized_key k v) (take (unat sv_len) body) OpPut ''default''] else [])
         else if length k \<ge> 9
         then [mk_kv (synthesized_key k v)
                 (case live ''default'' (synthesized_key k v) of None \<Rightarrow> [] | Some x \<Rightarrow> x) OpPut ''default'']
         else []
     | [] \<Rightarrow>
         if length k \<ge> 9
         then [mk_kv (synthesized_key k v)
                 (case live ''default'' (synthesized_key k v) of None \<Rightarrow> [] | Some x \<Rightarrow> x) OpPut ''default'']
         else [])"

text \<open>The pairs of a scan in the order they are added.  A full scan reads both column families of the
  whole engine, each with a snapshot of its own; a delta scan has one.\<close>

definition scan_kvs ::
  "(string \<Rightarrow> bytes \<Rightarrow> bytes option) \<Rightarrow> rocks_snapshot \<Rightarrow> rocks_snapshot \<Rightarrow> bool \<Rightarrow> u64 \<Rightarrow> pcr_kv list" where
  "scan_kvs live snap_default snap_write is_full start_ts =
    (if is_full
     then map (\<lambda>(k, v). mk_kv k v OpPut ''default'') (stream_cf_full snap_default ''default'')
       @ concat (map (\<lambda>(k, v). (if is_meta_key k then meta_kvs live k v else []) @ [mk_kv k v OpPut ''write''])
           (stream_cf_full snap_write ''write''))
     else
       let (wr, dr) = scan_delta_entries snap_write start_ts [] []
       in map (\<lambda>(k, v). mk_kv k v OpPut ''write'') wr @ map (\<lambda>(k, v, op). mk_kv k v op ''default'') dr)"

definition scan_region ::
  "(string \<Rightarrow> bytes \<Rightarrow> bytes option) \<Rightarrow> rocks_snapshot \<Rightarrow> rocks_snapshot \<Rightarrow> bool \<Rightarrow> u64 \<Rightarrow> pcr_event list" where
  "scan_region live snap_default snap_write is_full start_ts =
    (let st = fold scan_add_kv (scan_kvs live snap_default snap_write is_full start_ts) scan_state_new
     in sn_sent st @ (if sn_kvs st \<noteq> [] then [snapshot_event (sn_kvs st)] else []))"

section \<open>Delta scans\<close>

lemma stream_cf_full_Some [simp]: "snap cf = Some m \<Longrightarrow> stream_cf_full snap cf = m"
  by (simp add: stream_cf_full_def)

lemma iter_from_start [simp]: "iter_from snap cf [] = stream_cf_full snap cf"
  by (cases "stream_cf_full snap cf") (auto simp: iter_from_def)

text \<open>The records a delta scan reports.\<close>

definition changed_since :: "u64 \<Rightarrow> bytes \<times> bytes \<Rightarrow> bool" where
  "changed_since since_ts rec \<longleftrightarrow> (case rec of (ek, v) \<Rightarrow>
     key_since since_ts ek \<noteq> None
     \<and> (case parse_write v of Inl e \<Rightarrow> False | Inr w \<Rightarrow> w_type w = WPut \<or> w_type w = WDelete))"

lemma delta_loop_writes: "fst (delta_loop snap since_ts [] it) = filter (changed_since since_ts) it"
  by (induction snap since_ts "[] :: bytes" it rule: delta_loop.induct)
    (auto simp: changed_since_def delta_record_def Let_def split: option.split sum.split write_type.split prod.split)

lemma delta_loop_values:
  assumes "(ek, v) \<in> set it" "key_since since_ts ek = Some user_key"
  shows "set (snd (delta_record snap ek user_key v)) \<subseteq> set (snd (delta_loop snap since_ts [] it))"
  using assms
proof (induction snap since_ts "[] :: bytes" it rule: delta_loop.induct)
  case (2 snap since_ts ek' v' it)
  then show ?case by (fastforce split: option.split prod.split)
qed simp

lemma key_since_append: "key_since since_ts (append_ts k ts) = (if ts > since_ts then Some k else None)"
  by (simp add: key_since_def)

text \<open>C32: A delta scan of the whole engine reports exactly what was committed after its timestamp.  The
  commit records it returns are, in the order of the keys, the puts and deletions committed later than
  the timestamp; for such a put whose value is not in the record it returns the value stored under the
  data key, if there is one, and for such a deletion a deletion of the data key.\<close>

theorem delta_scan_reports_changes:
  assumes "snap ''write'' = Some m" "(append_ts k ts, bs) \<in> set m" "parse_write bs = Inr w"
  shows "fst (scan_delta_entries snap since_ts [] []) = filter (changed_since since_ts) m
    \<and> (changed_since since_ts (append_ts k ts, bs) \<longleftrightarrow> ts > since_ts \<and> (w_type w = WPut \<or> w_type w = WDelete))
    \<and> (ts > since_ts \<and> w_type w = WPut \<and> w_short_value w = None \<and> snap ''default'' = Some d
        \<and> bt_get d (append_ts k (w_start_ts w)) = Some v \<longrightarrow>
        (append_ts k (w_start_ts w), v, OpPut) \<in> set (snd (scan_delta_entries snap since_ts [] [])))
    \<and> (ts > since_ts \<and> w_type w = WDelete \<longrightarrow>
        (append_ts k (w_start_ts w), [], OpDelete) \<in> set (snd (scan_delta_entries snap since_ts [] [])))"
proof -
  have "set (snd (delta_record snap (append_ts k ts) k bs)) \<subseteq> set (snd (scan_delta_entries snap since_ts [] []))"
    if "ts > since_ts"
    using that assms(1) delta_loop_values [OF assms(2), of since_ts k snap]
    by (simp add: scan_delta_entries_def key_since_append)
  moreover have "fst (scan_delta_entries snap since_ts [] []) = filter (changed_since since_ts) m"
    by (simp add: scan_delta_entries_def assms(1) delta_loop_writes)
  ultimately show ?thesis
    using assms(3) by (auto simp: changed_since_def key_since_append delta_record_def)
qed

definition example_snapshot :: rocks_snapshot where
  "example_snapshot cf = Some (if cf = ''write'' then [(append_ts [1] 9, write_to_bytes (write_new WPut 3 None))]
     else [(append_ts [1] 3, [7])])"

lemma parse_example_write: "parse_write (write_to_bytes (write_new WPut 3 None)) = Inr (write_new WPut 3 None)"
  using parse_write_to_bytes [of "write_new WPut 3 None" "[]"] by (simp add: write_wf_def write_new_def)

theorem delta_scan_reports_changes_witness:
  "fst (scan_delta_entries example_snapshot 5 [] []) = [(append_ts [1] 9, write_to_bytes (write_new WPut 3 None))]
    \<and> (append_ts [1] 3, [7], OpPut) \<in> set (snd (scan_delta_entries example_snapshot 5 [] []))"
  using delta_scan_reports_changes [of example_snapshot "[(append_ts [1] 9, write_to_bytes (write_new WPut 3 None))]"
      "[1]" 9 "write_to_bytes (write_new WPut 3 None)" "write_new WPut 3 None" 5 "[(append_ts [1] 3, [7])]" "[7]"]
    parse_example_write
  by (auto simp: example_snapshot_def write_new_def)

section \<open>What a scan streams\<close>

lemma snapshot_event_kvs [simp]: "event_kvs (snapshot_event kvs) = kvs" "ev_is_snapshot (snapshot_event kvs)"
  by (simp_all add: snapshot_event_def)

definition scan_event_ok :: "pcr_event \<Rightarrow> bool" where
  "scan_event_ok e \<longleftrightarrow> ev_is_snapshot e \<and> event_kvs e \<noteq> []
     \<and> sum_list (map kv_bytes (butlast (event_kvs e))) < BATCH_BYTES"

definition scan_inv :: "pcr_kv list \<Rightarrow> scan_state \<Rightarrow> bool" where
  "scan_inv kvs st \<longleftrightarrow> concat (map event_kvs (sn_sent st)) @ sn_kvs st = kvs
     \<and> sn_bytes st = sum_list (map kv_bytes (sn_kvs st)) \<and> sn_bytes st < BATCH_BYTES
     \<and> list_all scan_event_ok (sn_sent st)"

lemma scan_add_kv_inv: "scan_inv kvs st \<Longrightarrow> scan_inv (kvs @ [kv]) (scan_add_kv kv st)"
  by (auto simp: scan_inv_def scan_add_kv_def scan_maybe_flush_def scan_event_ok_def BATCH_BYTES_def)

lemma scan_add_kvs_inv: "scan_inv kvs st \<Longrightarrow> scan_inv (kvs @ kvs') (fold scan_add_kv kvs' st)"
proof (induction kvs' arbitrary: kvs st)
  case (Cons kv kvs')
  from Cons.IH [OF scan_add_kv_inv [OF Cons.prems]] show ?case by simp
qed simp

lemma sum_butlast_le: "sum_list (map f (butlast xs)) \<le> (sum_list (map f xs) :: nat)"
  by (induction xs) auto

lemma scan_region_events:
  "concat (map event_kvs (scan_region live snap_default snap_write is_full start_ts))
      = scan_kvs live snap_default snap_write is_full start_ts
    \<and> list_all scan_event_ok (scan_region live snap_default snap_write is_full start_ts)"
proof -
  define st where "st = fold scan_add_kv (scan_kvs live snap_default snap_write is_full start_ts) scan_state_new"
  have "scan_inv [] scan_state_new"
    by (simp add: scan_inv_def scan_state_new_def BATCH_BYTES_def)
  then have "scan_inv (scan_kvs live snap_default snap_write is_full start_ts) st"
    using scan_add_kvs_inv unfolding st_def by fastforce
  then show ?thesis
    using sum_butlast_le [of kv_bytes "sn_kvs st"]
    by (auto simp: scan_region_def st_def [symmetric] scan_inv_def scan_event_ok_def)
qed

text \<open>C31: The events of a region scan carry every pair of the scan once and in order.  All of them are
  marked as snapshot events, none is empty, and each stays below the batch limit of one megabyte but
  for its last pair.\<close>

theorem scan_streams_everything:
  "concat (map event_kvs (scan_region live snap_default snap_write is_full start_ts))
      = scan_kvs live snap_default snap_write is_full start_ts
    \<and> list_all scan_event_ok (scan_region live snap_default snap_write is_full start_ts)"
  by (rule scan_region_events)

lemma full_scan_contains:
  "(k, v) \<in> set (stream_cf_full snap_default ''default'') \<Longrightarrow>
    mk_kv k v OpPut ''default'' \<in> set (scan_kvs live snap_default snap_write True start_ts)"
  "(k, v) \<in> set (stream_cf_full snap_write ''write'') \<Longrightarrow>
    mk_kv k v OpPut ''write'' \<in> set (scan_kvs live snap_default snap_write True start_ts)"
  by (force simp: scan_kvs_def)+

end
