(* ===== verification/CdcEndpoint.thy ===== *)
theory CdcEndpoint
  imports PcrDelegate
begin

text \<open>
  The change-data endpoint (\<open>components/cdc/src/endpoint.rs\<close>) with the connections it serves
  (\<open>service.rs\<close>) and the observer that feeds it from the apply path (\<open>observer.rs\<close>): registering and
  removing downstreams and delegates, batches of commands, resolved timestamps, and the replication
  subscriptions.  The region readers of the store and the placement driver are fields of
  \<open>endpoint_env\<close>, and so are the order in which a heap pops regions with equal timestamps and the
  order in which a hash set is listed.  Scans and capture requests that the endpoint starts are recorded in its state; the
  scans themselves are not modelled.  Hash maps are ordered maps.  A failed assertion is \<open>CdcPanic\<close>.
\<close>

section \<open>Connections\<close>

record conn =
  cn_id :: nat
  cn_sink :: sink_id
  cn_downstreams :: "((u64 \<times> u64) \<times> nat) list"
  cn_version :: "byte option"

definition conn_new :: "nat \<Rightarrow> sink_id \<Rightarrow> conn" where
  "conn_new i sink = \<lparr>cn_id = i, cn_sink = sink, cn_downstreams = [], cn_version = None\<rparr>"

text \<open>A client version is its three numbers, compared lexicographically.\<close>

type_synonym version = "nat \<times> nat \<times> nat"

fun version_ge :: "version \<Rightarrow> version \<Rightarrow> bool" where
  "version_ge (a, b, c) (a', b', c') = (a > a' \<or> a = a' \<and> (b > b' \<or> b = b' \<and> c \<ge> c'))"

definition default_features :: "version \<Rightarrow> byte" where
  "default_features v =
    (let features = (if version_ge v (4, 0, 8) then BATCH_RESOLVED_TS else 0)
     in if version_ge v (5, 3, 0) then features OR VALIDATE_CLUSTER_ID else features)"

definition check_version_and_set_feature :: "version \<Rightarrow> string list \<Rightarrow> conn \<Rightarrow> conn option" where
  "check_version_and_set_feature v explicit_features c =
    (let features = default_features v;
         features = (if ''stream-multiplexing'' \<in> set explicit_features
                     then features OR STREAM_MULTIPLEXING else features)
     in if cn_version c \<noteq> None then None else Some (c\<lparr>cn_version := Some features\<rparr>))"

definition conn_get_downstream :: "u64 \<Rightarrow> u64 \<Rightarrow> conn \<Rightarrow> nat option" where
  "conn_get_downstream request_id region_id c = map_of (cn_downstreams c) (request_id, region_id)"

definition conn_subscribe :: "u64 \<Rightarrow> u64 \<Rightarrow> nat \<Rightarrow> conn \<Rightarrow> nat option \<times> conn" where
  "conn_subscribe request_id region_id downstream_id c =
    (case map_of (cn_downstreams c) (request_id, region_id) of
       Some i \<Rightarrow> (Some i, c)
     | None \<Rightarrow> (None, c\<lparr>cn_downstreams := cn_downstreams c @ [((request_id, region_id), downstream_id)]\<rparr>))"

definition conn_unsubscribe :: "u64 \<Rightarrow> u64 \<Rightarrow> conn \<Rightarrow> nat option \<times> conn" where
  "conn_unsubscribe request_id region_id c =
    (map_of (cn_downstreams c) (request_id, region_id),
     c\<lparr>cn_downstreams := filter (\<lambda>(k, i). k \<noteq> (request_id, region_id)) (cn_downstreams c)\<rparr>)"

definition conn_unsubscribe_request :: "u64 \<Rightarrow> conn \<Rightarrow> (u64 \<times> nat) list \<times> conn" where
  "conn_unsubscribe_request request_id c =
    (map (\<lambda>((q, r), i). (r, i)) (filter (\<lambda>((q, r), i). q = request_id) (cn_downstreams c)),
     c\<lparr>cn_downstreams := filter (\<lambda>((q, r), i). q \<noteq> request_id) (cn_downstreams c)\<rparr>)"

section \<open>The state of the endpoint\<close>

record scan_init =
  si_region_id :: u64
  si_conn_id :: nat
  si_request_id :: u64
  si_downstream_id :: nat
  si_observe_id :: nat

record 'w endpoint =
  ep_cluster_id :: u64
  ep_api_v2 :: bool
  ep_capture_regions :: "(u64, delegate) btree"
  ep_connections :: "(nat, conn) btree"
  ep_observe_regions :: "(u64, nat) btree"
  ep_world :: "'w cdc_world"
  ep_next_observe_id :: nat
  ep_sst_importer :: "nat option"
  ep_scan_task_counter :: nat
  ep_scan_concurrency_limit :: nat
  ep_scans :: "scan_init list"
  ep_build_resolver :: "nat set"
  ep_captures :: "(u64 \<times> region_epoch \<times> nat) list"
  ep_current_ts :: timestamp
  ep_min_resolved_ts :: timestamp
  ep_min_ts_region_id :: u64
  ep_resolved_region_count :: nat
  ep_unresolved_region_count :: nat
  ep_pcr_resolved_ts :: u64
  ep_pcr_registry :: pcr_registry

record 'w endpoint_env =
  ee_delegate :: "'w delegate_env"
  ee_reader :: "u64 \<Rightarrow> txn_extra_op option"
  ee_pd_region :: "u64 \<Rightarrow> region option"
  ee_heap_order :: "(u64 \<times> timestamp) list \<Rightarrow> (u64 \<times> timestamp) list"
  ee_set_order :: "u64 list \<Rightarrow> u64 list"

definition endpoint_new :: "u64 \<Rightarrow> bool \<Rightarrow> nat \<Rightarrow> 'w cdc_world \<Rightarrow> 'w endpoint" where
  "endpoint_new cluster_id api_v2 scan_limit w =
    \<lparr>ep_cluster_id = cluster_id, ep_api_v2 = api_v2, ep_capture_regions = [], ep_connections = [],
     ep_observe_regions = [], ep_world = w, ep_next_observe_id = 0, ep_sst_importer = None,
     ep_scan_task_counter = 0, ep_scan_concurrency_limit = scan_limit, ep_scans = [],
     ep_build_resolver = {}, ep_captures = [], ep_current_ts = 0, ep_min_resolved_ts = -1,
     ep_min_ts_region_id = 0, ep_resolved_region_count = 0, ep_unresolved_region_count = 0,
     ep_pcr_resolved_ts = 0, ep_pcr_registry = []\<rparr>"

section \<open>The observer\<close>

definition subscribe_region :: "u64 \<Rightarrow> nat \<Rightarrow> (u64, nat) btree \<Rightarrow> nat option \<times> (u64, nat) btree" where
  "subscribe_region region_id observe_id regions =
    (bt_get regions region_id, bt_insert region_id observe_id regions)"

definition unsubscribe_region :: "u64 \<Rightarrow> nat \<Rightarrow> (u64, nat) btree \<Rightarrow> nat option \<times> (u64, nat) btree" where
  "unsubscribe_region region_id observe_id regions =
    (if bt_get regions region_id = Some observe_id
     then (Some observe_id, bt_remove region_id regions) else (None, regions))"

definition is_subscribed :: "u64 \<Rightarrow> (u64, nat) btree \<Rightarrow> nat option" where
  "is_subscribed region_id regions = bt_get regions region_id"

text \<open>Observation levels are numbers: none 0, lock related 1, all 2.\<close>

definition LEVEL_LOCK_RELATED :: nat where "LEVEL_LOCK_RELATED = 1"
definition LEVEL_ALL :: nat where "LEVEL_ALL = 2"

fun request_bytes :: "raft_request \<Rightarrow> nat" where
  "request_bytes (ReqPut cf k v) = length k + length v"
| "request_bytes _ = 0"

definition cmd_batch_size :: "cmd_batch \<Rightarrow> nat" where
  "cmd_batch_size b =
    sum_list (map (\<lambda>c. if ac_error c = None \<and> ac_admin c = None
                       then sum_list (map request_bytes (ac_requests c)) else 0) (cb_cmds b))"

definition on_flush_applied_cmd_batch ::
  "nat \<Rightarrow> cmd_batch list \<Rightarrow> memory_quota \<Rightarrow> cmd_batch list option \<times> memory_quota" where
  "on_flush_applied_cmd_batch max_level cmd_batches q =
    (if max_level < LEVEL_LOCK_RELATED then (None, q)
     else
       let min_level = (if max_level \<ge> LEVEL_ALL then LEVEL_ALL else LEVEL_LOCK_RELATED);
           cmd_batches = filter (\<lambda>cb. cb_level cb \<ge> min_level \<and> cb_cmds cb \<noteq> []) cmd_batches in
       if cmd_batches = [] then (None, q)
       else (Some cmd_batches, quota_alloc_force (sum_list (map cmd_batch_size cmd_batches)) q))"

datatype deregister =
    DeregConn nat
  | DeregRequest nat u64
  | DeregRegion nat u64 u64
  | DeregDownstream nat u64 u64 nat "cdc_error option"
  | DeregDelegate u64 nat cdc_error

text \<open>The leader reported with the error is the new one, or the peer the leadership was transferred to
  when this peer voted for it, provided it is a peer of the region.\<close>

definition on_role_change ::
  "bool \<Rightarrow> u64 \<Rightarrow> u64 \<Rightarrow> u64 \<Rightarrow> u64 list \<Rightarrow> u64 \<Rightarrow> (u64, nat) btree \<Rightarrow> deregister option" where
  "on_role_change is_leader leader_id prev_lead_transferee vote peers region_id regions =
    (if is_leader then None
     else (case is_subscribed region_id regions of
             None \<Rightarrow> None
           | Some observe_id \<Rightarrow>
               let leader = (if leader_id \<noteq> 0 then Some leader_id
                             else if prev_lead_transferee = vote then Some prev_lead_transferee else None);
                   leader = (case leader of None \<Rightarrow> 0 | Some x \<Rightarrow> if x \<in> set peers then x else 0)
               in Some (DeregDelegate region_id observe_id (CdcRequest (NotLeader leader)))))"

datatype region_change = RcCreate | RcUpdateSplit | RcUpdateCommitMerge | RcUpdateOther | RcDestroy

definition on_region_changed :: "region_change \<Rightarrow> u64 \<Rightarrow> (u64, nat) btree \<Rightarrow> deregister option" where
  "on_region_changed ev region_id regions =
    (if ev = RcDestroy \<or> ev = RcUpdateSplit \<or> ev = RcUpdateCommitMerge
     then map_option (\<lambda>observe_id. DeregDelegate region_id observe_id
            (CdcRequest (OtherRegionError ''region not found''))) (is_subscribed region_id regions)
     else None)"

section \<open>Removing downstreams and delegates\<close>

definition ep_delegate_step ::
  "('w dstate \<Rightarrow> 'a \<times> 'w dstate) \<Rightarrow> u64 \<Rightarrow> delegate \<Rightarrow> 'w endpoint \<Rightarrow> 'a \<times> 'w endpoint" where
  "ep_delegate_step f region_id d ep =
    (let (r, d, w) = f (d, ep_world ep)
     in (r, ep\<lparr>ep_capture_regions := bt_insert region_id d (ep_capture_regions ep), ep_world := w\<rparr>))"

text \<open>Removing an entry of the map of captured regions drops the delegate.\<close>

definition ep_remove_delegate :: "u64 \<Rightarrow> 'w endpoint \<Rightarrow> 'w endpoint" where
  "ep_remove_delegate region_id ep =
    (case bt_get (ep_capture_regions ep) region_id of
       None \<Rightarrow> ep
     | Some d \<Rightarrow> ep\<lparr>ep_capture_regions := bt_remove region_id (ep_capture_regions ep),
                    ep_world := drop_delegate (d, ep_world ep)\<rparr>)"

definition deregister_observe :: "u64 \<Rightarrow> nat \<Rightarrow> ('w endpoint, unit) cdc_m" where
  "deregister_observe region_id observe_id ep =
    (let (oid, regions) = unsubscribe_region region_id observe_id (ep_observe_regions ep);
         ep = ep\<lparr>ep_observe_regions := regions\<rparr>
     in (if oid = None then Inl CdcPanic else Inr (), ep))"

definition deregister_downstream ::
  "'w endpoint_env \<Rightarrow> u64 \<Rightarrow> nat \<Rightarrow> cdc_error option \<Rightarrow> ('w endpoint, unit) cdc_m" where
  "deregister_downstream env region_id downstream_id err ep =
    (case bt_get (ep_capture_regions ep) region_id of
       None \<Rightarrow> (Inr (), ep)
     | Some d \<Rightarrow>
         let (emptied, ep) = ep_delegate_step (delegate_unsubscribe (ee_delegate env) downstream_id err)
               region_id d ep in
         if emptied then deregister_observe region_id (dg_handle_id d) (ep_remove_delegate region_id ep)
         else (Inr (), ep))"

definition with_conn :: "nat \<Rightarrow> (conn \<Rightarrow> 'a \<times> conn) \<Rightarrow> 'w endpoint \<Rightarrow> 'a option \<times> 'w endpoint" where
  "with_conn conn_id f ep =
    (case bt_get (ep_connections ep) conn_id of
       None \<Rightarrow> (None, ep)
     | Some c \<Rightarrow> let (r, c) = f c
                 in (Some r, ep\<lparr>ep_connections := bt_insert conn_id c (ep_connections ep)\<rparr>))"

definition on_deregister :: "'w endpoint_env \<Rightarrow> deregister \<Rightarrow> ('w endpoint, unit) cdc_m" where
  "on_deregister env dereg ep =
    (case dereg of
       DeregConn conn_id \<Rightarrow>
         (case bt_get (ep_connections ep) conn_id of
            None \<Rightarrow> (Inr (), ep)
          | Some c \<Rightarrow>
              siter (\<lambda>((q, region_id), i). deregister_downstream env region_id i None) (cn_downstreams c)
                (ep\<lparr>ep_connections := bt_remove conn_id (ep_connections ep)\<rparr>))
     | DeregRequest conn_id request_id \<Rightarrow>
         (case with_conn conn_id (conn_unsubscribe_request request_id) ep of
            (None, ep) \<Rightarrow> (Inr (), ep)
          | (Some removed, ep) \<Rightarrow>
              siter (\<lambda>(region_id, i). deregister_downstream env region_id i (Some (CdcOther (OtherMessage ''region not found''))))
                removed ep)
     | DeregRegion conn_id request_id region_id \<Rightarrow>
         (case with_conn conn_id (conn_unsubscribe request_id region_id) ep of
            (Some (Some i), ep) \<Rightarrow> deregister_downstream env region_id i (Some (CdcOther (OtherMessage ''region not found''))) ep
          | (_, ep) \<Rightarrow> (Inr (), ep))
     | DeregDownstream conn_id request_id region_id downstream_id err \<Rightarrow>
         (case bt_get (ep_connections ep) conn_id of
            None \<Rightarrow> (Inr (), ep)
          | Some c \<Rightarrow>
              if conn_get_downstream request_id region_id c = Some downstream_id
              then deregister_downstream env region_id downstream_id err
                     (snd (with_conn conn_id (conn_unsubscribe request_id region_id) ep))
              else (Inr (), ep))
     | DeregDelegate region_id observe_id err \<Rightarrow>
         (case bt_get (ep_capture_regions ep) region_id of
            None \<Rightarrow> (Inr (), ep)
          | Some d \<Rightarrow>
              if dg_handle_id d \<noteq> observe_id then (Inr (), ep)
              else
                let (d, w) = delegate_stop (ee_delegate env) err (d, ep_world ep);
                    conns = map (\<lambda>(i, c). (i, fold (\<lambda>ds c. snd (conn_unsubscribe (ds_req_id ds) region_id c))
                                                (dg_downstreams d) c)) (ep_connections ep);
                    ep = ep\<lparr>ep_capture_regions := bt_remove region_id (ep_capture_regions ep),
                            ep_connections := conns, ep_world := drop_delegate (d, w)\<rparr>
                in deregister_observe region_id (dg_handle_id d) ep))"

section \<open>Registering a downstream\<close>

record register_request =
  rr_region_id :: u64
  rr_request_id :: u64
  rr_cluster_id :: u64
  rr_kv_api :: kv_api

definition validate_kv_api :: "kv_api \<Rightarrow> bool \<Rightarrow> bool" where
  "validate_kv_api api api_v2 = (api = TiDb \<or> api = RawKv \<and> api_v2)"

definition auto_match_pcr :: "nat \<Rightarrow> pcr_registry \<Rightarrow> bytes \<Rightarrow> bytes \<Rightarrow> delegate \<Rightarrow> delegate" where
  "auto_match_pcr now registry r_start r_end d =
    (case match_region registry r_start r_end of
       None \<Rightarrow> d
     | Some (sink, buf_size, flush_ms) \<Rightarrow> enable_pcr now sink buf_size flush_ms d)"

definition new_delegate :: "nat \<Rightarrow> u64 \<Rightarrow> txn_extra_op \<Rightarrow> 'w endpoint \<Rightarrow> delegate \<times> 'w endpoint" where
  "new_delegate now region_id extra_op ep =
    (let d = delegate_new now region_id (ep_next_observe_id ep) extra_op;
         d = (case ep_sst_importer ep of None \<Rightarrow> d | Some importer \<Rightarrow> delegate_set_sst_importer importer d)
     in (d, ep\<lparr>ep_next_observe_id := ep_next_observe_id ep + 1\<rparr>))"

definition reject :: "'w endpoint_env \<Rightarrow> u64 \<Rightarrow> error_event \<Rightarrow> downstream \<Rightarrow> 'w endpoint \<Rightarrow> 'w endpoint" where
  "reject env region_id err ds ep =
    ep\<lparr>ep_world := snd (snd (sink_error_event (ee_delegate env) region_id err ds (ep_world ep)))\<rparr>"

text \<open>The checks that end a registration before a delegate is touched; \<open>None\<close> lets it pass.\<close>

definition register_refused :: "'w endpoint_env \<Rightarrow> register_request \<Rightarrow> byte \<Rightarrow> 'w endpoint \<Rightarrow> error_event option" where
  "register_refused env req features ep =
    (if features AND VALIDATE_CLUSTER_ID = VALIDATE_CLUSTER_ID \<and> ep_cluster_id ep \<noteq> rr_cluster_id req
     then Some (ErrClusterIdMismatch (ep_cluster_id ep) (rr_cluster_id req))
     else if \<not> validate_kv_api (rr_kv_api req) (ep_api_v2 ep) then Some ErrCompatibility
     else if ep_scan_task_counter ep \<ge> ep_scan_concurrency_limit ep then Some ErrServerIsBusy
     else if ee_reader env (rr_region_id req) = None then Some (ErrRegionNotFound (rr_region_id req))
     else None)"

text \<open>The rest of a registration once the connection has accepted it: the delegate is found or
  created, attached to a matching subscription, and given the downstream; a scan is started.\<close>

definition register_delegate ::
  "'w endpoint_env \<Rightarrow> nat \<Rightarrow> u64 \<Rightarrow> u64 \<Rightarrow> txn_extra_op \<Rightarrow> downstream \<Rightarrow> ('w endpoint, unit) cdc_m" where
  "register_delegate env now region_id request_id extra_op ds ep =
    (let is_new = (bt_get (ep_capture_regions ep) region_id = None);
         (d, ep) = (case bt_get (ep_capture_regions ep) region_id of
                      Some d \<Rightarrow> (d, ep) | None \<Rightarrow> new_delegate now region_id extra_op ep);
         (r_start, r_end) = (case ee_pd_region env region_id of
                               None \<Rightarrow> ([], []) | Some r \<Rightarrow> (rg_start_key r, rg_end_key r));
         d = auto_match_pcr now (ep_pcr_registry ep) r_start r_end d in
     (case delegate_subscribe ds d of
        (Inl (err, ds), d) \<Rightarrow>
          let ep = reject env region_id (into_error_event region_id err) ds ep;
              ep = snd (with_conn (ds_conn_id ds) (conn_unsubscribe request_id region_id) ep) in
          if is_new then (Inr (), ep\<lparr>ep_world := drop_delegate (d, ep_world ep)\<rparr>)
          else (Inr (), ep\<lparr>ep_capture_regions := bt_insert region_id d (ep_capture_regions ep)\<rparr>)
      | (Inr _, d) \<Rightarrow>
          let (old, regions) = (if is_new
                then subscribe_region region_id (dg_handle_id d) (ep_observe_regions ep)
                else (None, ep_observe_regions ep));
              ep = ep\<lparr>ep_capture_regions := bt_insert region_id d (ep_capture_regions ep),
                      ep_observe_regions := regions,
                      ep_scan_task_counter := ep_scan_task_counter ep + 1,
                      ep_scans := ep_scans ep @ [\<lparr>si_region_id = region_id, si_conn_id = ds_conn_id ds,
                        si_request_id = request_id, si_downstream_id = ds_id ds,
                        si_observe_id = dg_handle_id d\<rparr>]\<rparr>
          in (if old \<noteq> None then Inl CdcPanic else Inr (), ep)))"

definition on_register ::
  "'w endpoint_env \<Rightarrow> nat \<Rightarrow> register_request \<Rightarrow> downstream \<Rightarrow> ('w endpoint, unit) cdc_m" where
  "on_register env now req ds ep =
    (let region_id = rr_region_id req; request_id = rr_request_id req; conn_id = ds_conn_id ds in
     case bt_get (ep_connections ep) conn_id of
       None \<Rightarrow> (Inr (), ep)
     | Some c \<Rightarrow>
       let ds = ds\<lparr>ds_sink := Some (cn_sink c)\<rparr> in
       (case cn_version c of
          None \<Rightarrow> (Inl CdcPanic, ep)
        | Some features \<Rightarrow>
          (case (register_refused env req features ep, ee_reader env region_id) of
             (Some err, _) \<Rightarrow> (Inr (), reject env region_id err ds ep)
           | (None, None) \<Rightarrow> (Inr (), ep)
           | (None, Some extra_op) \<Rightarrow>
             (case conn_subscribe request_id region_id (ds_id ds) c of
                (Some _, _) \<Rightarrow> (Inr (), reject env region_id (ErrDuplicateRequest region_id) ds ep)
              | (None, c) \<Rightarrow>
                  register_delegate env now region_id request_id extra_op ds
                    (ep\<lparr>ep_connections := bt_insert conn_id c (ep_connections ep)\<rparr>)))))"

section \<open>Replication subscriptions\<close>

definition on_start_pcr_stream ::
  "'w endpoint_env \<Rightarrow> nat \<Rightarrow> u64 \<Rightarrow> sink_id \<Rightarrow> nat \<Rightarrow> nat \<Rightarrow> 'w endpoint \<Rightarrow> 'w endpoint" where
  "on_start_pcr_stream env now region_id event_sink buffer_size flush_ms ep =
    (let found = (case bt_get (ep_capture_regions ep) region_id of
                    Some d \<Rightarrow> Some (d, ep)
                  | None \<Rightarrow>
                      (case ee_reader env region_id of
                         None \<Rightarrow> None
                       | Some extra_op \<Rightarrow>
                           let (d, ep) = new_delegate now region_id extra_op ep
                           in Some (d, ep\<lparr>ep_observe_regions :=
                                snd (subscribe_region region_id (dg_handle_id d) (ep_observe_regions ep))\<rparr>)))
     in case found of
          None \<Rightarrow> ep
        | Some (d, ep) \<Rightarrow>
            let (epoch, r_start, r_end) =
                  (case ee_pd_region env region_id of
                     Some r \<Rightarrow> (rg_epoch r, rg_start_key r, rg_end_key r)
                   | None \<Rightarrow> (\<lparr>re_conf_ver = 1, re_version = 1\<rparr>, [], []));
                d = auto_match_pcr now (ep_pcr_registry ep) r_start r_end d;
                ep = ep\<lparr>ep_captures := ep_captures ep @ [(region_id, epoch, dg_handle_id d)]\<rparr>;
                d = (if \<not> has_pcr d then enable_pcr now event_sink buffer_size flush_ms d else d)
            in ep\<lparr>ep_capture_regions := bt_insert region_id d (ep_capture_regions ep)\<rparr>)"

definition on_register_span :: "nat \<Rightarrow> span_subscription \<Rightarrow> 'w endpoint \<Rightarrow> 'w endpoint" where
  "on_register_span now sub ep =
    (let has_sub = (match_region (ep_pcr_registry ep) [] [] \<noteq> None) in
     ep\<lparr>ep_capture_regions := map (\<lambda>(r, d). (r, if has_sub
           then enable_pcr now (ss_sink sub) (ss_buffer_size sub) (ss_flush_interval_ms sub) d else d))
         (ep_capture_regions ep),
       ep_pcr_registry := registry_register sub (registry_clear (ep_pcr_registry ep))\<rparr>)"

section \<open>Batches of commands\<close>

definition on_multi_batch1 ::
  "'w endpoint_env \<Rightarrow> nat \<Rightarrow> cmd_batch \<Rightarrow> ('w endpoint, unit) cdc_m" where
  "on_multi_batch1 env now batch ep =
    (case bt_get (ep_capture_regions ep) (cb_region_id batch) of
       None \<Rightarrow> (Inr (), ep)
     | Some d \<Rightarrow>
         if has_failed d then (Inr (), ep)
         else
           (case ep_delegate_step (on_batch (ee_delegate env) now batch) (cb_region_id batch) d ep of
              (Inr _, ep) \<Rightarrow> (Inr (), ep)
            | (Inl e, ep) \<Rightarrow>
                if e = CdcPanic then (Inl CdcPanic, ep)
                else
                  let ep = ep\<lparr>ep_capture_regions := map (\<lambda>(r, d). (r, if r = cb_region_id batch
                              then mark_failed d else d)) (ep_capture_regions ep)\<rparr>
                  in on_deregister env (DeregDelegate (cb_region_id batch) (dg_handle_id d) e) ep))"

definition on_multi_batch :: "'w endpoint_env \<Rightarrow> nat \<Rightarrow> cmd_batch list \<Rightarrow> ('w endpoint, unit) cdc_m" where
  "on_multi_batch env now multi ep =
    siter (on_multi_batch1 env now) multi
      (ep\<lparr>ep_world := (ep_world ep)\<lparr>cw_quota :=
         quota_free (sum_list (map cmd_batch_size multi)) (cw_quota (ep_world ep))\<rparr>\<rparr>)"

definition ep_finish_scan_locks ::
  "'w endpoint_env \<Rightarrow> nat \<Rightarrow> region \<Rightarrow> lock_map \<Rightarrow> ('w endpoint, unit) cdc_m" where
  "ep_finish_scan_locks env observe_id r locks ep =
    (case bt_get (ep_capture_regions ep) (rg_id r) of
       None \<Rightarrow> (Inr (), ep)
     | Some d \<Rightarrow>
         if dg_handle_id d \<noteq> observe_id then (Inr (), ep)
         else
           (case ep_delegate_step (delegate_finish_scan_locks r locks) (rg_id r) d ep of
              (Inr fails, ep) \<Rightarrow>
                siter (\<lambda>(ds, e). on_deregister env (DeregDownstream (ds_conn_id ds) (ds_req_id ds)
                        (rg_id r) (ds_id ds) (Some e))) fails ep
            | (Inl e, ep) \<Rightarrow>
                if e = CdcPanic then (Inl CdcPanic, ep)
                else on_deregister env (DeregDelegate (rg_id r) observe_id e) ep))"

section \<open>Emitting resolved timestamps\<close>

text \<open>The heap of a connection is the sequence in which it pops its regions, smallest timestamp first.\<close>

definition heap_pop ::
  "(u64 list \<Rightarrow> u64 list) \<Rightarrow> nat \<Rightarrow> (u64 \<times> timestamp) list \<Rightarrow> (timestamp \<times> u64 list) \<times> (u64 \<times> timestamp) list" where
  "heap_pop set_order n heap =
    (let outliers = take n heap;
         min_resolved_ts = fold (\<lambda>(r, ts) m. if m > ts then ts else m) outliers (-1)
     in ((min_resolved_ts, set_order (remdups (map fst outliers))), drop n heap))"

function resolved_batches ::
  "(u64 list \<Rightarrow> u64 list) \<Rightarrow> nat \<Rightarrow> (u64 \<times> timestamp) list \<Rightarrow> (timestamp \<times> u64 list) list" where
  "resolved_batches set_order i heap =
    (if heap = [] then []
     else let (batch, heap) = heap_pop set_order (8 * 4 ^ i) heap
          in batch # resolved_batches set_order (Suc i) heap)"
  by pat_completeness auto
termination
  by (relation "measure (\<lambda>(_, _, heap). length heap)") (auto simp: heap_pop_def Let_def)

declare resolved_batches.simps [simp del]

definition conn_send :: "'w endpoint_env \<Rightarrow> cdc_event \<Rightarrow> bool \<Rightarrow> sink_id \<Rightarrow> 'w cdc_world \<Rightarrow> (send_error + unit) \<times> 'w cdc_world" where
  "conn_send env ev force sink w =
    (let (r, q, ch) = sink_unbounded_send (de_esize (ee_delegate env)) ev force (cw_quota w, cw_conns w sink)
     in (r, w\<lparr>cw_quota := q, cw_conns := (cw_conns w)(sink := ch)\<rparr>))"

text \<open>What the closures of \<open>emit_resolved_ts\<close> update: the smallest timestamp sent with its region, and
  the channels.\<close>

type_synonym 'w emit_state = "u64 \<times> u64 \<times> 'w cdc_world"

definition batch_send ::
  "'w endpoint_env \<Rightarrow> sink_id \<Rightarrow> u64 \<Rightarrow> timestamp \<times> u64 list \<Rightarrow> 'w emit_state \<Rightarrow> 'w emit_state" where
  "batch_send env sink req_id batch st =
    (case (batch, st) of ((ts, regions), (batch_min, batch_region, w)) \<Rightarrow>
       let (batch_min, batch_region) =
             (if batch_min = 0 \<or> batch_min > ts
              then (ts, case regions of [] \<Rightarrow> batch_region | r # _ \<Rightarrow> r) else (batch_min, batch_region))
       in (batch_min, batch_region, snd (conn_send env (CeResolvedTs regions ts req_id) False sink w)))"

definition compat_send ::
  "'w endpoint_env \<Rightarrow> sink_id \<Rightarrow> u64 \<Rightarrow> u64 \<Rightarrow> timestamp \<Rightarrow> 'w emit_state \<Rightarrow> 'w emit_state" where
  "compat_send env sink region_id req_id ts st =
    (case st of (compat_min, compat_region, w) \<Rightarrow>
       let (compat_min, compat_region) =
             (if compat_min = 0 \<or> compat_min > ts then (ts, region_id) else (compat_min, compat_region));
           ev = CeEvent \<lparr>evn_region_id = region_id, evn_index = 0, evn_request_id = req_id,
                         evn_body = EventResolved ts\<rparr>
       in (compat_min, compat_region, snd (conn_send env ev False sink w)))"

definition emit_group ::
  "'w endpoint_env \<Rightarrow> (nat, conn) btree \<Rightarrow> nat \<times> u64 \<times> (u64 \<times> timestamp) list \<Rightarrow> ('w emit_state, unit) cdc_m" where
  "emit_group env conns grp st =
    (case grp of (conn_id, req_id, heap) \<Rightarrow>
       (case bt_get conns conn_id of
          None \<Rightarrow> (Inl CdcPanic, st)
        | Some c \<Rightarrow>
            let batches = resolved_batches (ee_set_order env) 0 (ee_heap_order env heap) in
            (case cn_version c of
               None \<Rightarrow> (if batches = [] then Inr () else Inl CdcPanic, st)
             | Some features \<Rightarrow>
                 (Inr (), if features AND BATCH_RESOLVED_TS = BATCH_RESOLVED_TS
                          then fold (batch_send env (cn_sink c) req_id) batches st else st))))"

definition emit_compat ::
  "'w endpoint_env \<Rightarrow> (nat, conn) btree \<Rightarrow> (nat \<times> u64) \<times> u64 \<times> timestamp \<Rightarrow> ('w emit_state, unit) cdc_m" where
  "emit_compat env conns entry st =
    (case entry of ((conn_id, region_id), req_id, ts) \<Rightarrow>
       (case bt_get conns conn_id of
          None \<Rightarrow> (Inl CdcPanic, st)
        | Some c \<Rightarrow> (Inr (), compat_send env (cn_sink c) region_id req_id ts st)))"

definition emit_resolved_ts ::
  "'w endpoint_env \<Rightarrow> (nat, conn) btree \<Rightarrow> advance \<Rightarrow> ('w cdc_world, advance) cdc_m" where
  "emit_resolved_ts env conns adv w =
    (let unioned = map (\<lambda>((a, b), c). (a, b, c)) (adv_multiplexing adv)
                   @ map (\<lambda>(a, c). (a, 0, c)) (adv_exclusive adv) in
     case siter (emit_group env conns) unioned (0, 0, w) of
       (Inl e, _, _, w) \<Rightarrow> (Inl e, w)
     | (Inr _, batch_min, batch_region, w) \<Rightarrow>
         (case siter (emit_compat env conns) (adv_compat adv) (0, 0, w) of
            (Inl e, _, _, w) \<Rightarrow> (Inl e, w)
          | (Inr _, compat_min, compat_region, w) \<Rightarrow>
              let adv = adv\<lparr>adv_multiplexing := [], adv_exclusive := [], adv_compat := []\<rparr>
              in (Inr (if batch_min > 0
                       then adv\<lparr>adv_min_resolved_ts := batch_min, adv_min_ts_region_id := batch_region\<rparr>
                       else adv\<lparr>adv_min_resolved_ts := compat_min, adv_min_ts_region_id := compat_region\<rparr>), w)))"

definition conn_features :: "(nat, conn) btree \<Rightarrow> nat \<Rightarrow> byte option" where
  "conn_features conns conn_id = (case bt_get conns conn_id of None \<Rightarrow> None | Some c \<Rightarrow> cn_version c)"

fun min_ts_regions ::
  "'w endpoint_env \<Rightarrow> nat \<Rightarrow> timestamp \<Rightarrow> timestamp \<Rightarrow> u64 list \<Rightarrow> advance \<Rightarrow> ('w endpoint, advance) cdc_m" where
  "min_ts_regions env now min_ts current_ts [] adv ep = (Inr adv, ep)"
| "min_ts_regions env now min_ts current_ts (region_id # regions) adv ep =
    (case bt_get (ep_capture_regions ep) region_id of
       None \<Rightarrow> min_ts_regions env now min_ts current_ts regions adv ep
     | Some d \<Rightarrow>
         (case ep_delegate_step (delegate_on_min_ts (ee_delegate env) now (conn_features (ep_connections ep))
                 min_ts current_ts adv) region_id d ep of
            (Inl e, ep) \<Rightarrow> (Inl e, ep)
          | (Inr adv, ep) \<Rightarrow> min_ts_regions env now min_ts current_ts regions adv ep))"

definition ep_on_min_ts ::
  "'w endpoint_env \<Rightarrow> nat \<Rightarrow> u64 list \<Rightarrow> timestamp \<Rightarrow> timestamp \<Rightarrow> ('w endpoint, unit) cdc_m" where
  "ep_on_min_ts env now regions min_ts current_ts ep =
    (case min_ts_regions env now min_ts current_ts regions advance_default
            (ep\<lparr>ep_current_ts := current_ts, ep_min_resolved_ts := current_ts\<rparr>) of
       (Inl e, ep) \<Rightarrow> (Inl e, ep)
     | (Inr adv, ep) \<Rightarrow>
         let ep = ep\<lparr>ep_resolved_region_count := adv_scan_finished adv,
                     ep_unresolved_region_count := adv_blocked_on_scan adv\<rparr>
         in (case emit_resolved_ts env (ep_connections ep) adv (ep_world ep) of
               (Inl e, w) \<Rightarrow> (Inl e, ep\<lparr>ep_world := w\<rparr>)
             | (Inr adv, w) \<Rightarrow>
                 (Inr (), ep\<lparr>ep_world := w, ep_min_resolved_ts := adv_min_resolved_ts adv,
                             ep_min_ts_region_id := adv_min_ts_region_id adv,
                             ep_pcr_resolved_ts := ep_current_ts ep\<rparr>)))"

section \<open>The tasks of the endpoint\<close>

definition ep_set_sst_importer :: "nat \<Rightarrow> 'w endpoint \<Rightarrow> 'w endpoint" where
  "ep_set_sst_importer importer ep = ep\<lparr>ep_sst_importer := Some importer\<rparr>"

definition on_open_conn :: "conn \<Rightarrow> 'w endpoint \<Rightarrow> 'w endpoint" where
  "on_open_conn c ep = ep\<lparr>ep_connections := bt_insert (cn_id c) c (ep_connections ep)\<rparr>"

definition on_set_conn_version :: "nat \<Rightarrow> version \<Rightarrow> string list \<Rightarrow> ('w endpoint, unit) cdc_m" where
  "on_set_conn_version conn_id v explicit_features ep =
    (case bt_get (ep_connections ep) conn_id of
       None \<Rightarrow> (Inl CdcPanic, ep)
     | Some c \<Rightarrow>
         (case check_version_and_set_feature v explicit_features c of
            None \<Rightarrow> (Inl CdcPanic, ep)
          | Some c \<Rightarrow> (Inr (), ep\<lparr>ep_connections := bt_insert conn_id c (ep_connections ep)\<rparr>)))"

definition init_downstream ::
  "'w endpoint_env \<Rightarrow> u64 \<Rightarrow> nat \<Rightarrow> nat \<Rightarrow> sink_id \<Rightarrow> 'w endpoint \<Rightarrow> 'w endpoint" where
  "init_downstream env region_id observe_id downstream_id sink ep =
    (case bt_get (ep_capture_regions ep) region_id of
       None \<Rightarrow> ep
     | Some d \<Rightarrow>
         if dg_handle_id d \<noteq> observe_id then ep
         else
           let (build, tracker) = init_lock_tracker (dg_lock_tracker d);
               d = d\<lparr>dg_lock_tracker := tracker\<rparr>;
               ep = (if build then ep\<lparr>ep_build_resolver := insert downstream_id (ep_build_resolver ep)\<rparr> else ep);
               (r, w) = conn_send env CeBarrier True sink (ep_world ep);
               d = (if r = Inr ()
                    then d\<lparr>dg_downstreams := map (\<lambda>ds. if ds_id ds = downstream_id
                           then ds\<lparr>ds_state := snd (on_init_downstream (ds_state ds))\<rparr> else ds)
                         (dg_downstreams d)\<rparr>
                    else d)
           in ep\<lparr>ep_world := w, ep_capture_regions := bt_insert region_id d (ep_capture_regions ep)\<rparr>)"

text \<open>Old values of a transaction: the scheduler charges them to the quota, the task gives the bytes
  back.  The cache they are put into is behind \<open>de_old_value_cb\<close>.\<close>

definition txn_extra_schedule :: "nat \<Rightarrow> memory_quota \<Rightarrow> bool \<times> memory_quota" where
  "txn_extra_schedule n q =
    (case quota_alloc n q of (Inl _, q) \<Rightarrow> (False, q) | (Inr _, q) \<Rightarrow> (True, q))"

definition ep_on_timeout :: "'w endpoint \<Rightarrow> 'w endpoint" where
  "ep_on_timeout ep = ep\<lparr>ep_min_resolved_ts := -1, ep_current_ts := -1, ep_min_ts_region_id := 0\<rparr>"

text \<open>The tasks; validation hooks of the tests, configuration changes and the registration of the next
  timestamp event, which only start asynchronous work, are left out.\<close>

datatype cdc_task =
    TMinTs "u64 list" timestamp timestamp
  | TRegister register_request downstream
  | TFinishScanLocks nat region lock_map
  | TDeregister deregister
  | TMultiBatch "cmd_batch list"
  | TOpenConn conn
  | TSetConnVersion nat version "string list"
  | TInitDownstream u64 nat nat sink_id
  | TTxnExtra nat
  | TRegisterSpan span_subscription
  | TStartPcrStream u64 sink_id nat nat

fun ep_run :: "'w endpoint_env \<Rightarrow> nat \<Rightarrow> cdc_task \<Rightarrow> ('w endpoint, unit) cdc_m" where
  "ep_run env now (TMinTs regions min_ts current_ts) ep = ep_on_min_ts env now regions min_ts current_ts ep"
| "ep_run env now (TRegister req ds) ep = on_register env now req ds ep"
| "ep_run env now (TFinishScanLocks observe_id r locks) ep = ep_finish_scan_locks env observe_id r locks ep"
| "ep_run env now (TDeregister dereg) ep = on_deregister env dereg ep"
| "ep_run env now (TMultiBatch multi) ep = on_multi_batch env now multi ep"
| "ep_run env now (TOpenConn c) ep = (Inr (), on_open_conn c ep)"
| "ep_run env now (TSetConnVersion conn_id v features) ep = on_set_conn_version conn_id v features ep"
| "ep_run env now (TInitDownstream region_id observe_id downstream_id sink) ep =
    (Inr (), init_downstream env region_id observe_id downstream_id sink ep)"
| "ep_run env now (TTxnExtra n) ep =
    (Inr (), ep\<lparr>ep_world := (ep_world ep)\<lparr>cw_quota := quota_free n (cw_quota (ep_world ep))\<rparr>\<rparr>)"
| "ep_run env now (TRegisterSpan sub) ep = (Inr (), on_register_span now sub ep)"
| "ep_run env now (TStartPcrStream region_id sink buffer_size flush_ms) ep =
    (Inr (), on_start_pcr_stream env now region_id sink buffer_size flush_ms ep)"

text \<open>A finished scan gives its slot back.\<close>

definition scan_task_done :: "'w endpoint \<Rightarrow> 'w endpoint" where
  "scan_task_done ep = ep\<lparr>ep_scan_task_counter := ep_scan_task_counter ep - 1\<rparr>"

end
