(* ===== verification/EndpointFacts.thy ===== *)
theory EndpointFacts
  imports CdcEndpoint
begin

text \<open>
  What holds of the change-data endpoint: the observer follows the captured regions through every task,
  so that the assertions of the endpoint hold; the batches in which resolved timestamps are sent; and
  how replication subscriptions and ordinary downstreams get in each other's way.
\<close>

section \<open>Delegates keep their region and their handle\<close>

definition same_ids :: "'w dstate \<Rightarrow> 'w dstate \<Rightarrow> bool" where
  "same_ids st st' \<longleftrightarrow> dg_region_id (fst st') = dg_region_id (fst st)
     \<and> dg_handle_id (fst st') = dg_handle_id (fst st)"

lemma same_ids_refl [simp]: "same_ids st st"
  by (simp add: same_ids_def)

lemma same_ids_trans: "same_ids st st' \<Longrightarrow> same_ids st' st'' \<Longrightarrow> same_ids st st''"
  by (simp add: same_ids_def)

interpretation ids: state_relation same_ids
  by unfold_locales (simp, rule same_ids_trans)

named_theorems ids_intros \<open>operations that keep the identity of the delegate\<close>

declare ids.keeps_sreturn [ids_intros] ids.keeps_slift [ids_intros] ids.keeps_sbind [ids_intros]
  ids.keeps_siter [ids_intros]

lemma frame_same_ids: "frame st st' \<Longrightarrow> same_ids st st'"
  by (cases st; cases st') (simp add: frame_def same_ids_def)

lemma quiet_keeps_ids: "quiet m \<Longrightarrow> keeps same_ids m"
  by (rule keepsI, rule frame_same_ids, rule keepsD)

lemma delegate_ids [simp]:
  "dg_region_id (delegate_add_kvs kvs d) = dg_region_id d"
  "dg_handle_id (delegate_add_kvs kvs d) = dg_handle_id d"
  "dg_region_id (pcr_put raw env cf k v d) = dg_region_id d"
  "dg_handle_id (pcr_put raw env cf k v d) = dg_handle_id d"
  "dg_region_id (capture_prewrite k v l d) = dg_region_id d"
  "dg_handle_id (capture_prewrite k v l d) = dg_handle_id d"
  "dg_region_id (stop_observing d) = dg_region_id d"
  "dg_handle_id (stop_observing d) = dg_handle_id d"
  "dg_region_id (enable_pcr now s n ms d) = dg_region_id d"
  "dg_handle_id (enable_pcr now s n ms d) = dg_handle_id d"
  by (simp_all add: delegate_add_kvs_def pcr_put_def capture_prewrite_def stop_observing_def
      enable_pcr_def Let_def)

lemma auto_match_pcr_ids [simp]:
  "dg_region_id (auto_match_pcr now reg a b d) = dg_region_id d"
  "dg_handle_id (auto_match_pcr now reg a b d) = dg_handle_id d"
  by (simp_all add: auto_match_pcr_def split: option.splits prod.splits)

lemma emit_ids [simp]:
  "same_ids st (emit_pcr_event e st') = same_ids st st'"
  "same_ids st (emit_delete_range env a b st') = same_ids st st'"
  by (auto simp: same_ids_def emit_pcr_event_def emit_delete_range_def split: option.splits prod.splits)

lemma pcr_put_ids [simp]: "same_ids st (apfst (pcr_put raw env cf k v) st)"
  by (cases st) (simp add: same_ids_def)

lemma keeps_after_put:
  "quiet m \<Longrightarrow> same_ids st (snd (m (apfst (pcr_put raw env cf k v) st)))"
  by (rule same_ids_trans [OF pcr_put_ids keepsD [OF quiet_keeps_ids]])

lemma keeps_sink_put [ids_intros]: "keeps same_ids (sink_put env cf k v rows)"
  by (rule keepsI) (simp add: sink_put_def sink_raw_put_def sink_txn_put_def Let_def
      keeps_after_put quiet_txn_put_write quiet_txn_put_lock quiet_txn_put_default)

lemma keeps_sink_request [ids_intros]: "keeps same_ids (sink_request env req rows)"
proof (cases req)
  case (ReqPut cf k v)
  then show ?thesis using keeps_sink_put [of env cf k v rows] by (simp add: keeps_def)
next
  case (ReqIngestSst sst)
  then show ?thesis
    by (auto simp: keeps_def sbind_def sink_ingest_sst_def sreturn_def split: option.splits)
next
  case (ReqPrewrite k v l)
  then show ?thesis by (auto simp: keeps_def same_ids_def)
qed (auto simp: keeps_def)

lemma keeps_sink_requests [ids_intros]: "keeps same_ids (sink_requests env reqs rows)"
  by (induction reqs arbitrary: rows) (auto intro: ids_intros)

lemma flush_ids [simp]: "same_ids st (flush_pcr_batcher env now b st') = same_ids st st'"
  by (cases st') (simp add: flush_pcr_batcher_def Let_def same_ids_def emit_pcr_event_def
      split: prod.splits option.splits)

lemma maybe_flush_ids [simp]: "same_ids st (maybe_flush_pcr_batcher env now st') = same_ids st st'"
  by (simp add: maybe_flush_pcr_batcher_def split: option.splits)

lemma force_flush_ids [simp]: "same_ids st (force_flush env now st') = same_ids st st'"
  by (simp add: force_flush_def Let_def split: option.splits)

lemma keeps_sink_data [ids_intros]: "keeps same_ids (sink_data env now index reqs one_pc)"
  unfolding sink_data_def
proof (rule ids.keeps_sbind [OF keeps_sink_requests], rule keepsI)
  fix rows :: rows_builder and st :: "'a dstate"
  obtain d w where f: "force_flush env now st = (d, w)" by (rule prod.exhaust)
  then have "same_ids st (d, w)" using force_flush_ids [of st env now st] by simp
  then show "same_ids st (snd (case force_flush env now st of
      (d, w) \<Rightarrow>
        let (raws, txns) = finish_build (de_order env) rows in
        (case sink_downstream_raw env (dg_region_id d) raws index (dg_downstreams d) w of
           (Inl e, w) \<Rightarrow> (Inl e, d, w)
         | (Inr _, w) \<Rightarrow>
             let (r, dss, w) = sink_downstream_tidb env (dg_region_id d) txns (dg_downstreams d) w
             in (r, d\<lparr>dg_downstreams := dss\<rparr>, w))))"
    by (simp add: f same_ids_def split: prod.split sum.split)
qed

lemma keeps_sink_admin [ids_intros]: "keeps same_ids (sink_admin env cmd)"
proof -
  have "same_ids st (emit_pcr_split env k rs st)" for st :: "'a dstate" and k rs
    by (simp add: emit_pcr_split_def split: option.splits)
  then show ?thesis by (cases cmd) (auto simp: keeps_def)
qed

lemma keeps_sink_cmd [ids_intros]: "keeps same_ids (sink_cmd env now cmd)"
  unfolding sink_cmd_def
  by (cases "ac_error cmd"; cases "ac_admin cmd") (auto intro: ids_intros)

lemma fold_delete_ranges_ids [simp]:
  "same_ids st (fold (\<lambda>(cf, a, b). emit_delete_range env a b) rs st') = same_ids st st'"
proof (induction rs arbitrary: st')
  case (Cons r rs)
  show ?case by (cases r) (simp add: Cons.IH)
qed simp

lemma keeps_on_batch [ids_intros]: "keeps same_ids (on_batch env now batch)"
proof (rule keepsI)
  fix st :: "'a dstate"
  have clear: "same_ids st (apfst (\<lambda>d. d\<lparr>dg_pcr_cf_default_keys := {}\<rparr>) st)" for st :: "'a dstate"
    by (cases st) (simp add: same_ids_def)
  have "keeps same_ids (sbind (siter (sink_cmd env now) (cb_cmds batch)) (\<lambda>_ st.
       let st = fold (\<lambda>(cf, a, b). emit_delete_range env a b) (cb_delete_ranges batch) st
       in (Inr (), apfst (\<lambda>d. d\<lparr>dg_pcr_cf_default_keys := {}\<rparr>) st)))"
    by (rule ids.keeps_sbind [OF ids.keeps_siter [OF keeps_sink_cmd]], rule keepsI)
      (simp add: Let_def same_ids_trans [OF _ clear])
  from keepsD [OF this, of st] show "same_ids st (snd (on_batch env now batch st))"
    by (simp add: on_batch_def)
qed

lemma keeps_finish_scan_locks [ids_intros]: "keeps same_ids (delegate_finish_scan_locks r locks)"
  unfolding delegate_finish_scan_locks_def
  by (rule ids.keeps_sbind [OF quiet_keeps_ids [OF quiet_track]], rule keepsI)
    (simp add: same_ids_def split: prod.splits)

lemma keeps_delegate_on_min_ts [ids_intros]:
  "keeps same_ids (delegate_on_min_ts env now conns min_ts current_ts adv)"
proof (rule keepsI)
  fix st :: "'a dstate"
  obtain d w where st: "st = (d, w)" by (rule prod.exhaust)
  show "same_ids st (snd (delegate_on_min_ts env now conns min_ts current_ts adv st))"
    by (auto simp: st delegate_on_min_ts_def Let_def split: lock_tracker.split sum.split)
      (auto simp: same_ids_def)
qed

lemma remove_downstream_ids [simp]:
  "dg_region_id (snd (remove_downstream i d)) = dg_region_id d"
  "dg_handle_id (snd (remove_downstream i d)) = dg_handle_id d"
  by (simp_all add: remove_downstream_def Let_def split: option.split)

lemma delegate_unsubscribe_ids: "same_ids st (snd (delegate_unsubscribe env i err st))"
  by (cases st; cases "remove_downstream i (fst st)")
    (use remove_downstream_ids [of i "fst st"] in
      \<open>simp add: delegate_unsubscribe_def same_ids_def Let_def\<close>)

lemma delegate_subscribe_ids [simp]:
  "dg_region_id (snd (delegate_subscribe ds d)) = dg_region_id d"
  "dg_handle_id (snd (delegate_subscribe ds d)) = dg_handle_id d"
  by (auto simp: delegate_subscribe_def add_downstream_def split: lock_tracker.split prod.split sum.split)

section \<open>The observer follows the captured regions\<close>

definition ep_consistent :: "'w endpoint \<Rightarrow> bool" where
  "ep_consistent ep \<longleftrightarrow>
     bt_wf (ep_capture_regions ep) \<and> bt_wf (ep_observe_regions ep)
     \<and> (\<forall>r. bt_get (ep_observe_regions ep) r = map_option dg_handle_id (bt_get (ep_capture_regions ep) r))
     \<and> (\<forall>r d. bt_get (ep_capture_regions ep) r = Some d \<longrightarrow>
          dg_region_id d = r \<and> dg_handle_id d < ep_next_observe_id ep)"

lemma ep_consistentD:
  assumes "ep_consistent ep"
  shows "bt_wf (ep_capture_regions ep)" "bt_wf (ep_observe_regions ep)"
    "bt_get (ep_observe_regions ep) r = map_option dg_handle_id (bt_get (ep_capture_regions ep) r)"
    "bt_get (ep_capture_regions ep) r = Some d \<Longrightarrow> dg_region_id d = r"
    "bt_get (ep_capture_regions ep) r = Some d \<Longrightarrow> dg_handle_id d < ep_next_observe_id ep"
  using assms by (simp_all add: ep_consistent_def)

text \<open>The fields the invariant reads.\<close>

definition ep_core :: "'w endpoint \<Rightarrow> (u64, delegate) btree \<times> (u64, nat) btree \<times> nat" where
  "ep_core ep = (ep_capture_regions ep, ep_observe_regions ep, ep_next_observe_id ep)"

lemma ep_core_simps [simp]:
  "ep_core (ep\<lparr>ep_world := w\<rparr>) = ep_core ep"
  "ep_core (ep\<lparr>ep_connections := c\<rparr>) = ep_core ep"
  by (simp_all add: ep_core_def)

lemma ep_consistent_core: "ep_core ep' = ep_core ep \<Longrightarrow> ep_consistent ep \<Longrightarrow> ep_consistent ep'"
  by (simp add: ep_consistent_def ep_core_def)

lemma consistent_replace:
  assumes "ep_consistent ep" "bt_get (ep_capture_regions ep) r = Some d"
    and "dg_region_id d' = dg_region_id d" "dg_handle_id d' = dg_handle_id d"
  shows "ep_consistent (ep\<lparr>ep_capture_regions := bt_insert r d' (ep_capture_regions ep)\<rparr>)"
  using assms by (auto simp: ep_consistent_def bt_get_insert bt_wf_insert)

lemma consistent_remove:
  assumes "ep_consistent ep"
  shows "ep_consistent (ep\<lparr>ep_capture_regions := bt_remove r (ep_capture_regions ep),
      ep_observe_regions := bt_remove r (ep_observe_regions ep)\<rparr>)"
  using assms by (auto simp: ep_consistent_def bt_get_remove bt_wf_remove)

lemma consistent_new:
  assumes "ep_consistent ep" "dg_region_id d = r" "dg_handle_id d = ep_next_observe_id ep"
  shows "ep_consistent (ep\<lparr>ep_capture_regions := bt_insert r d (ep_capture_regions ep),
      ep_observe_regions := bt_insert r (dg_handle_id d) (ep_observe_regions ep),
      ep_next_observe_id := ep_next_observe_id ep + 1\<rparr>)"
  using assms by (auto simp: ep_consistent_def bt_get_insert bt_wf_insert less_SucI)

lemma bt_get_map [simp]:
  "bt_get (map (\<lambda>(k, v). (k, f k v)) m) k = map_option (f k) (bt_get m k)"
  by (induction m) auto

lemma bt_wf_map [simp]: "bt_wf (map (\<lambda>(k, v). (k, f k v)) m) = bt_wf m"
  by (simp add: bt_wf_def comp_def case_prod_beta)

lemma consistent_map:
  assumes "ep_consistent ep"
    and "\<And>r d. dg_region_id (f r d) = dg_region_id d" "\<And>r d. dg_handle_id (f r d) = dg_handle_id d"
  shows "ep_consistent (ep\<lparr>ep_capture_regions := map (\<lambda>(r, d). (r, f r d)) (ep_capture_regions ep)\<rparr>)"
  using assms by (auto simp: ep_consistent_def option.map_comp comp_def)

lemma delegate_step_consistent:
  assumes "ep_consistent ep" "bt_get (ep_capture_regions ep) r = Some d"
    and "same_ids (d, ep_world ep) (snd (f (d, ep_world ep)))"
  shows "ep_consistent (snd (ep_delegate_step f r d ep))"
proof -
  obtain x d' w where f: "f (d, ep_world ep) = (x, d', w)" by (rule prod_cases3)
  have "ep_consistent (ep\<lparr>ep_capture_regions := bt_insert r d' (ep_capture_regions ep)\<rparr>)"
    using assms f by (intro consistent_replace) (auto simp: same_ids_def)
  then show ?thesis
    by (rule ep_consistent_core [rotated]) (simp add: ep_delegate_step_def f ep_core_def)
qed

text \<open>An operation that does not fail on a consistent endpoint and leaves it consistent, and one that
  only leaves it consistent.\<close>

definition ep_safe :: "('w endpoint, unit) cdc_m \<Rightarrow> bool" where
  "ep_safe m \<longleftrightarrow> (\<forall>ep. ep_consistent ep \<longrightarrow> fst (m ep) = Inr () \<and> ep_consistent (snd (m ep)))"

definition stays_consistent :: "'w endpoint \<Rightarrow> 'w endpoint \<Rightarrow> bool" where
  "stays_consistent ep ep' \<longleftrightarrow> (ep_consistent ep \<longrightarrow> ep_consistent ep')"

interpretation sc: state_relation stays_consistent
  by unfold_locales (simp_all add: stays_consistent_def)

lemma ep_safeD: "ep_safe m \<Longrightarrow> ep_consistent ep \<Longrightarrow> \<exists>ep'. m ep = (Inr (), ep') \<and> ep_consistent ep'"
  unfolding ep_safe_def by (cases "m ep") auto

lemma ep_safeI: "(\<And>ep. ep_consistent ep \<Longrightarrow> \<exists>ep'. m ep = (Inr (), ep') \<and> ep_consistent ep') \<Longrightarrow> ep_safe m"
  unfolding ep_safe_def by fastforce

lemma ep_safe_keeps: "ep_safe m \<Longrightarrow> keeps stays_consistent m"
  by (simp add: ep_safe_def keeps_def stays_consistent_def)

lemma ep_safe_siter: "(\<And>x. ep_safe (f x)) \<Longrightarrow> ep_safe (siter f xs)"
proof (induction xs)
  case (Cons x xs)
  show ?case
  proof (rule ep_safeI)
    fix ep :: "'b endpoint"
    assume "ep_consistent ep"
    then obtain ep1 where "f x ep = (Inr (), ep1)" "ep_consistent ep1"
      using ep_safeD [OF Cons.prems] by blast
    moreover obtain ep2 where "siter f xs ep1 = (Inr (), ep2)" "ep_consistent ep2"
      using ep_safeD [OF Cons.IH [OF Cons.prems]] \<open>ep_consistent ep1\<close> by blast
    ultimately show "\<exists>ep'. siter f (x # xs) ep = (Inr (), ep') \<and> ep_consistent ep'" by simp
  qed
qed (simp add: ep_safe_def)

lemma deregister_removed:
  assumes "ep_consistent ep" "bt_get (ep_capture_regions ep) r = Some d" "ep_core ep' =
    (bt_remove r (ep_capture_regions ep), ep_observe_regions ep, ep_next_observe_id ep)"
  shows "\<exists>ep''. deregister_observe r (dg_handle_id d) ep' = (Inr (), ep'') \<and> ep_consistent ep''"
proof -
  have obs: "bt_get (ep_observe_regions ep') r = Some (dg_handle_id d)"
    using assms ep_consistentD(3) [OF assms(1), of r] by (simp add: ep_core_def)
  have "ep_consistent (ep'\<lparr>ep_observe_regions := bt_remove r (ep_observe_regions ep')\<rparr>)"
    by (rule ep_consistent_core [OF _ consistent_remove [OF assms(1), of r]])
      (use assms(3) in \<open>simp add: ep_core_def\<close>)
  with obs show ?thesis by (simp add: deregister_observe_def unsubscribe_region_def)
qed

lemma deregister_downstream_safe: "ep_safe (deregister_downstream env r i err)"
proof (rule ep_safeI)
  fix ep :: "'a endpoint"
  assume c: "ep_consistent ep"
  show "\<exists>ep'. deregister_downstream env r i err ep = (Inr (), ep') \<and> ep_consistent ep'"
  proof (cases "bt_get (ep_capture_regions ep) r")
    case None
    with c show ?thesis by (simp add: deregister_downstream_def)
  next
    case (Some d)
    define step where "step = ep_delegate_step (delegate_unsubscribe (ee_delegate env) i err) r d ep"
    obtain emptied ep1 where step1: "step = (emptied, ep1)" by (rule prod.exhaust)
    have c1: "ep_consistent ep1"
      using delegate_step_consistent [OF c Some, of "delegate_unsubscribe (ee_delegate env) i err",
          OF delegate_unsubscribe_ids] step1 by (simp add: step_def)
    obtain d1 where d1: "bt_get (ep_capture_regions ep1) r = Some d1" "dg_handle_id d1 = dg_handle_id d"
    proof -
      obtain x d' w where f: "delegate_unsubscribe (ee_delegate env) i err (d, ep_world ep) = (x, d', w)"
        by (rule prod_cases3)
      then have "dg_handle_id d' = dg_handle_id d"
        using delegate_unsubscribe_ids [of "(d, ep_world ep)" "ee_delegate env" i err]
        by (simp add: same_ids_def)
      moreover have "bt_get (ep_capture_regions ep1) r = Some d'"
        using step1 f by (auto simp: step_def ep_delegate_step_def bt_get_insert)
      ultimately show ?thesis by (rule that [rotated])
    qed
    have "ep_core (ep_remove_delegate r ep1) =
      (bt_remove r (ep_capture_regions ep1), ep_observe_regions ep1, ep_next_observe_id ep1)"
      using d1 by (simp add: ep_remove_delegate_def ep_core_def)
    from deregister_removed [OF c1 d1(1) this] show ?thesis
      using c1 Some step1 d1 by (auto simp: deregister_downstream_def step_def)
  qed
qed


lemma deregister_delegate_safe:
  "ep_safe (on_deregister env (DeregDelegate r oid err))"
proof (rule ep_safeI)
  fix ep :: "'a endpoint"
  assume c: "ep_consistent ep"
  show "\<exists>ep'. on_deregister env (DeregDelegate r oid err) ep = (Inr (), ep') \<and> ep_consistent ep'"
  proof (cases "bt_get (ep_capture_regions ep) r")
    case (Some d)
    obtain d' w where stop: "delegate_stop (ee_delegate env) err (d, ep_world ep) = (d', w)"
      by (rule prod.exhaust)
    then have h: "dg_handle_id d' = dg_handle_id d"
      by (auto simp: delegate_stop_def mark_failed_def Let_def split: prod.splits)
    then show ?thesis
      using c Some by (auto simp: on_deregister_def stop Let_def ep_core_def intro!: deregister_removed)
  qed (use c in \<open>simp add: on_deregister_def\<close>)
qed

lemma on_deregister_safe: "ep_safe (on_deregister env dereg)"
proof (rule ep_safeI)
  fix ep :: "'a endpoint"
  assume c: "ep_consistent ep"
  have conns: "ep_consistent (snd (with_conn i f ep))" for i and f :: "conn \<Rightarrow> 'b \<times> conn"
    using c by (auto simp: with_conn_def split: option.split prod.split intro: ep_consistent_core [rotated])
  note one = ep_safeD [OF deregister_downstream_safe]
  show "\<exists>ep'. on_deregister env dereg ep = (Inr (), ep') \<and> ep_consistent ep'"
  proof (cases dereg)
    case (DeregConn i)
    have "ep_consistent (ep\<lparr>ep_connections := bt_remove i (ep_connections ep)\<rparr>)"
      by (rule ep_consistent_core [OF _ c]) simp
    moreover have "ep_safe (siter (\<lambda>((q, r), i). deregister_downstream env r i None) xs)" for xs :: "((u64 \<times> u64) \<times> nat) list"
      by (rule ep_safe_siter) (auto simp: deregister_downstream_safe split: prod.split)
    ultimately show ?thesis using DeregConn c
      by (auto simp: on_deregister_def split: option.split dest: ep_safeD)
  next
    case (DeregRequest i q)
    have "ep_safe (siter (\<lambda>(r, i). deregister_downstream env r i e) xs)" for xs :: "(u64 \<times> nat) list" and e
      by (rule ep_safe_siter) (auto simp: deregister_downstream_safe split: prod.split)
    then show ?thesis using DeregRequest conns [of i "conn_unsubscribe_request q"]
      by (auto simp: on_deregister_def split: option.split prod.split intro: ep_safeD)
  next
    case (DeregRegion i q r)
    then show ?thesis using conns [of i "conn_unsubscribe q r"]
      by (auto simp: on_deregister_def split: option.split prod.split intro: one)
  next
    case (DeregDownstream i q r j e)
    then show ?thesis using c conns [of i "conn_unsubscribe q r"]
      by (auto simp: on_deregister_def split: option.split intro: one)
  next
    case (DeregDelegate r oid e)
    then show ?thesis using ep_safeD [OF deregister_delegate_safe c] by simp
  qed
qed


lemma mark_failed_ids [simp]:
  "dg_region_id (mark_failed d) = dg_region_id d" "dg_handle_id (mark_failed d) = dg_handle_id d"
  by (simp_all add: mark_failed_def)

lemma on_multi_batch1_consistent: "keeps stays_consistent (on_multi_batch1 env now batch)"
proof (rule keepsI)
  fix ep :: "'a endpoint"
  show "stays_consistent ep (snd (on_multi_batch1 env now batch ep))"
    unfolding stays_consistent_def
  proof
    assume c: "ep_consistent ep"
    let ?r = "cb_region_id batch"
    show "ep_consistent (snd (on_multi_batch1 env now batch ep))"
    proof (cases "bt_get (ep_capture_regions ep) ?r")
      case (Some d)
      define step where "step = ep_delegate_step (on_batch (ee_delegate env) now batch) ?r d ep"
      obtain res ep1 where step1: "step = (res, ep1)" by (rule prod.exhaust)
      have c1: "ep_consistent ep1"
        using delegate_step_consistent [OF c Some, of "on_batch (ee_delegate env) now batch",
            OF keepsD [OF keeps_on_batch]] step1 by (simp add: step_def)
      have "ep_consistent (ep1\<lparr>ep_capture_regions := map (\<lambda>(r, d). (r, if r = ?r
          then mark_failed d else d)) (ep_capture_regions ep1)\<rparr>)"
        by (rule consistent_map [OF c1]) simp_all
      from keepsD [OF ep_safe_keeps [OF on_deregister_safe], of _ env] this
      have "ep_consistent (snd (on_deregister env dereg (ep1\<lparr>ep_capture_regions := map (\<lambda>(r, d). (r,
          if r = ?r then mark_failed d else d)) (ep_capture_regions ep1)\<rparr>)))" for dereg
        by (simp add: stays_consistent_def)
      then show ?thesis using c c1 Some step1
        by (auto simp: on_multi_batch1_def step_def Let_def split: sum.split)
    qed (use c in \<open>simp add: on_multi_batch1_def\<close>)
  qed
qed

lemma on_multi_batch_consistent: "keeps stays_consistent (on_multi_batch env now multi)"
proof (rule keepsI)
  fix ep :: "'a endpoint"
  define ep1 where "ep1 = ep\<lparr>ep_world := (ep_world ep)\<lparr>cw_quota :=
    quota_free (sum_list (map cmd_batch_size multi)) (cw_quota (ep_world ep))\<rparr>\<rparr>"
  have "stays_consistent ep ep1"
    by (auto simp: stays_consistent_def ep1_def intro: ep_consistent_core [rotated])
  from sc.R_trans [OF this keepsD [OF sc.keeps_siter [OF on_multi_batch1_consistent]]]
  show "stays_consistent ep (snd (on_multi_batch env now multi ep))"
    by (simp add: on_multi_batch_def ep1_def)
qed

lemma finish_scan_locks_consistent: "keeps stays_consistent (ep_finish_scan_locks env oid r locks)"
proof (rule keepsI)
  fix ep :: "'a endpoint"
  show "stays_consistent ep (snd (ep_finish_scan_locks env oid r locks ep))"
    unfolding stays_consistent_def
  proof
    assume c: "ep_consistent ep"
    show "ep_consistent (snd (ep_finish_scan_locks env oid r locks ep))"
    proof (cases "bt_get (ep_capture_regions ep) (rg_id r)")
      case (Some d)
      define step where "step = ep_delegate_step (delegate_finish_scan_locks r locks) (rg_id r) d ep"
      obtain res ep1 where step1: "step = (res, ep1)" by (rule prod.exhaust)
      have c1: "ep_consistent ep1"
        using delegate_step_consistent [OF c Some, of "delegate_finish_scan_locks r locks",
            OF keepsD [OF keeps_finish_scan_locks]] step1 by (simp add: step_def)
      have "keeps stays_consistent (siter (\<lambda>(ds, e). on_deregister env (DeregDownstream (ds_conn_id ds)
          (ds_req_id ds) (rg_id r) (ds_id ds) (Some e))) fails)" for fails :: "(downstream \<times> cdc_error) list"
        by (rule sc.keeps_siter) (auto simp: ep_safe_keeps [OF on_deregister_safe] split: prod.split)
      note k = keepsD [OF this, where s = ep1] keepsD [OF ep_safe_keeps [OF on_deregister_safe], of ep1 env]
      show ?thesis using c c1 Some step1 k
        by (auto simp: ep_finish_scan_locks_def step_def stays_consistent_def split: sum.split)
    qed (use c in \<open>simp add: ep_finish_scan_locks_def\<close>)
  qed
qed


lemma min_ts_regions_consistent: "keeps stays_consistent (min_ts_regions env now min_ts current_ts rs adv)"
proof (rule keepsI, induction rs arbitrary: adv)
  case (Cons r rs)
  show ?case
  proof (cases "bt_get (ep_capture_regions s) r")
    case (Some d)
    let ?f = "delegate_on_min_ts (ee_delegate env) now (conn_features (ep_connections s)) min_ts current_ts adv"
    obtain res ep1 where step: "ep_delegate_step ?f r d s = (res, ep1)" by (rule prod.exhaust)
    have "stays_consistent s ep1"
      using delegate_step_consistent [OF _ Some, of ?f, OF _ keepsD [OF keeps_delegate_on_min_ts]] step
      by (simp add: stays_consistent_def)
    then show ?thesis
      using Some step by (auto split: sum.split intro: sc.R_trans [OF _ Cons.IH])
  qed (use Cons.IH in simp)
qed (simp add: stays_consistent_def)


lemma on_min_ts_consistent: "keeps stays_consistent (ep_on_min_ts env now rs min_ts current_ts)"
proof (rule keepsI)
  fix ep :: "'a endpoint"
  define ep1 where "ep1 = ep\<lparr>ep_current_ts := current_ts, ep_min_resolved_ts := current_ts\<rparr>"
  have *: "stays_consistent ep ep1"
    by (auto simp: stays_consistent_def ep_core_def ep1_def intro: ep_consistent_core [rotated])
  obtain res ep2 where m: "min_ts_regions env now min_ts current_ts rs advance_default ep1 = (res, ep2)"
    by (rule prod.exhaust)
  have "stays_consistent ep ep2"
    using sc.R_trans [OF * keepsD [OF min_ts_regions_consistent]] m by (metis snd_conv)
  then have "stays_consistent ep ep3" if "ep_core ep3 = ep_core ep2" for ep3
    using that by (auto simp: stays_consistent_def intro: ep_consistent_core)
  then show "stays_consistent ep (snd (ep_on_min_ts env now rs min_ts current_ts ep))"
    using m by (auto simp: ep_on_min_ts_def ep1_def [symmetric] ep_core_def Let_def split: sum.split prod.split)
qed

lemma register_span_consistent: "stays_consistent ep (on_register_span now sub ep)"
  unfolding stays_consistent_def
proof
  assume "ep_consistent ep"
  from consistent_map [OF this, of "\<lambda>r d. if match_region (ep_pcr_registry ep) [] [] \<noteq> None
      then enable_pcr now (ss_sink sub) (ss_buffer_size sub) (ss_flush_interval_ms sub) d else d"]
  have "ep_consistent (ep\<lparr>ep_capture_regions := map (\<lambda>(r, d). (r,
      if match_region (ep_pcr_registry ep) [] [] \<noteq> None
      then enable_pcr now (ss_sink sub) (ss_buffer_size sub) (ss_flush_interval_ms sub) d else d))
      (ep_capture_regions ep)\<rparr>)" by simp
  then show "ep_consistent (on_register_span now sub ep)"
    by (rule ep_consistent_core [rotated]) (simp add: on_register_span_def ep_core_def Let_def)
qed

lemma new_delegate_ids:
  assumes "new_delegate now r op ep = (d, ep')"
  shows "dg_region_id d = r" "dg_handle_id d = ep_next_observe_id ep"
    "ep' = ep\<lparr>ep_next_observe_id := ep_next_observe_id ep + 1\<rparr>"
  using assms
  by (auto simp: new_delegate_def delegate_new_def delegate_set_sst_importer_def Let_def split: option.splits)

lemma start_pcr_stream_core:
  assumes "(case bt_get (ep_capture_regions ep) r of
      Some d \<Rightarrow> Some (d, ep)
    | None \<Rightarrow> (case ee_reader env r of
        None \<Rightarrow> None
      | Some op \<Rightarrow> let (d, ep) = new_delegate now r op ep
          in Some (d, ep\<lparr>ep_observe_regions :=
            snd (subscribe_region r (dg_handle_id d) (ep_observe_regions ep))\<rparr>))) = Some (d, ep')"
  shows "\<exists>d'. dg_region_id d' = dg_region_id d \<and> dg_handle_id d' = dg_handle_id d
    \<and> ep_core (on_start_pcr_stream env now r s n ms ep) =
        (bt_insert r d' (ep_capture_regions ep'), ep_observe_regions ep', ep_next_observe_id ep')"
proof -
  obtain epoch a b where pd: "(case ee_pd_region env r of
      Some r \<Rightarrow> (rg_epoch r, rg_start_key r, rg_end_key r)
    | None \<Rightarrow> (\<lparr>re_conf_ver = 1, re_version = 1\<rparr>, [], [])) = (epoch, a, b)"
    by (rule prod_cases3)
  define d1 where "d1 = auto_match_pcr now (ep_pcr_registry ep') a b d"
  define d2 where "d2 = (if \<not> has_pcr d1 then enable_pcr now s n ms d1 else d1)"
  have "dg_region_id d2 = dg_region_id d" "dg_handle_id d2 = dg_handle_id d"
    by (simp_all add: d2_def d1_def)
  moreover have "ep_core (on_start_pcr_stream env now r s n ms ep) =
      (bt_insert r d2 (ep_capture_regions ep'), ep_observe_regions ep', ep_next_observe_id ep')"
    unfolding on_start_pcr_stream_def assms pd
    by (simp add: ep_core_def d2_def d1_def Let_def)
  ultimately show ?thesis by blast
qed

lemma start_pcr_stream_consistent: "stays_consistent ep (on_start_pcr_stream env now r s n ms ep)"
  unfolding stays_consistent_def
proof
  assume c: "ep_consistent ep"
  show "ep_consistent (on_start_pcr_stream env now r s n ms ep)"
  proof (cases "bt_get (ep_capture_regions ep) r")
    case (Some d)
    then obtain d' where "dg_region_id d' = dg_region_id d" "dg_handle_id d' = dg_handle_id d"
      and core: "ep_core (on_start_pcr_stream env now r s n ms ep) =
        (bt_insert r d' (ep_capture_regions ep), ep_observe_regions ep, ep_next_observe_id ep)"
      using start_pcr_stream_core [where ep = ep and ep' = ep and d = d and r = r and env = env
          and now = now and s = s and n = n and ms = ms] by auto
    from consistent_replace [OF c Some this(1,2)] show ?thesis
      by (rule ep_consistent_core [rotated]) (simp add: core, simp add: ep_core_def)
  next
    case None
    show ?thesis
    proof (cases "ee_reader env r")
      case (Some op)
      obtain d ep1 where new: "new_delegate now r op ep = (d, ep1)" by (rule prod.exhaust)
      note ids = new_delegate_ids [OF new]
      obtain d' where d': "dg_region_id d' = r" "dg_handle_id d' = ep_next_observe_id ep"
        and core: "ep_core (on_start_pcr_stream env now r s n ms ep) =
          (bt_insert r d' (ep_capture_regions ep), bt_insert r (dg_handle_id d') (ep_observe_regions ep),
           ep_next_observe_id ep + 1)"
        using start_pcr_stream_core [where ep = ep and d = d and r = r and env = env and now = now
            and s = s and n = n and ms = ms and ep' = "ep1\<lparr>ep_observe_regions :=
              snd (subscribe_region r (dg_handle_id d) (ep_observe_regions ep1))\<rparr>"] None Some new ids
        by (auto simp: subscribe_region_def)
      from consistent_new [OF c d'] show ?thesis
        by (rule ep_consistent_core [rotated]) (simp add: core, simp add: ep_core_def)
    qed (use c None in \<open>simp add: on_start_pcr_stream_def\<close>)
  qed
qed

lemma init_downstream_consistent: "stays_consistent ep (init_downstream env r oid i s ep)"
  unfolding stays_consistent_def
proof
  assume c: "ep_consistent ep"
  show "ep_consistent (init_downstream env r oid i s ep)"
  proof (cases "bt_get (ep_capture_regions ep) r")
    case (Some d)
    obtain build t where t: "init_lock_tracker (dg_lock_tracker d) = (build, t)" by (rule prod.exhaust)
    obtain res w where w: "conn_send env CeBarrier True s (ep_world ep) = (res, w)" by (rule prod.exhaust)
    let ?d = "if res = Inr () then d\<lparr>dg_lock_tracker := t, dg_downstreams := map (\<lambda>ds. if ds_id ds = i
        then ds\<lparr>ds_state := snd (on_init_downstream (ds_state ds))\<rparr> else ds) (dg_downstreams d)\<rparr>
      else d\<lparr>dg_lock_tracker := t\<rparr>"
    have "ep_consistent (ep\<lparr>ep_capture_regions := bt_insert r ?d (ep_capture_regions ep)\<rparr>)"
      by (rule consistent_replace [OF c Some]) simp_all
    then have core: "ep_consistent ep'" if "ep_core ep' = ep_core (ep\<lparr>ep_capture_regions :=
        bt_insert r ?d (ep_capture_regions ep)\<rparr>)" for ep'
      using that by (rule ep_consistent_core [rotated])
    show ?thesis
    proof (cases "dg_handle_id d = oid")
      case True
      show ?thesis by (rule core) (use True Some w t in \<open>simp add: init_downstream_def ep_core_def Let_def\<close>)
    qed (use c Some in \<open>simp add: init_downstream_def\<close>)
  qed (use c in \<open>simp add: init_downstream_def\<close>)
qed


lemma auto_match_subscribe_ids:
  assumes "delegate_subscribe ds (auto_match_pcr now reg a b d) = (res, d')"
  shows "dg_region_id d' = dg_region_id d" "dg_handle_id d' = dg_handle_id d"
  using assms delegate_subscribe_ids [of ds "auto_match_pcr now reg a b d"] by simp_all

lemma reject_fields [simp]:
  "ep_capture_regions (reject env r e ds ep) = ep_capture_regions ep"
  "ep_observe_regions (reject env r e ds ep) = ep_observe_regions ep"
  "ep_next_observe_id (reject env r e ds ep) = ep_next_observe_id ep"
  "ep_scans (reject env r e ds ep) = ep_scans ep"
  by (simp_all add: reject_def)

lemma with_conn_fields [simp]:
  "ep_capture_regions (snd (with_conn i f ep)) = ep_capture_regions ep"
  "ep_observe_regions (snd (with_conn i f ep)) = ep_observe_regions ep"
  "ep_next_observe_id (snd (with_conn i f ep)) = ep_next_observe_id ep"
  "ep_scans (snd (with_conn i f ep)) = ep_scans ep"
  by (simp_all add: with_conn_def split: option.split prod.split)

lemma register_delegate_old:
  assumes c: "ep_consistent ep" and d: "bt_get (ep_capture_regions ep) r = Some d"
  shows "\<exists>ep'. register_delegate env now r q op ds ep = (Inr (), ep') \<and> ep_consistent ep'"
proof -
  obtain a b where pd: "(case ee_pd_region env r of
      None \<Rightarrow> ([], []) | Some r \<Rightarrow> (rg_start_key r, rg_end_key r)) = (a, b)" by (rule prod.exhaust)
  obtain res d' where sub: "delegate_subscribe ds (auto_match_pcr now (ep_pcr_registry ep) a b d) = (res, d')"
    by (rule prod.exhaust)
  have "ep_consistent (ep\<lparr>ep_capture_regions := bt_insert r d' (ep_capture_regions ep)\<rparr>)"
    by (rule consistent_replace [OF c d auto_match_subscribe_ids [OF sub]])
  then have core: "ep_consistent ep'" if "ep_core ep' = (bt_insert r d' (ep_capture_regions ep),
      ep_observe_regions ep, ep_next_observe_id ep)" for ep'
    by (rule ep_consistent_core [rotated]) (simp add: that, simp add: ep_core_def)
  show ?thesis
  proof (cases res)
    case (Inl e)
    obtain err ds' where "e = (err, ds')" by (rule prod.exhaust)
    with Inl show ?thesis
      by (auto simp: register_delegate_def d pd sub Let_def ep_core_def intro!: core)
  next
    case (Inr u)
    then show ?thesis
      by (auto simp: register_delegate_def d pd sub Let_def ep_core_def intro!: core)
  qed
qed

lemma register_delegate_new:
  assumes c: "ep_consistent ep" and none: "bt_get (ep_capture_regions ep) r = None"
  shows "\<exists>ep'. register_delegate env now r q op ds ep = (Inr (), ep') \<and> ep_consistent ep'"
proof -
  obtain a b where pd: "(case ee_pd_region env r of
      None \<Rightarrow> ([], []) | Some r \<Rightarrow> (rg_start_key r, rg_end_key r)) = (a, b)" by (rule prod.exhaust)
  obtain d ep1 where new: "new_delegate now r op ep = (d, ep1)" by (rule prod.exhaust)
  note ids = new_delegate_ids [OF new]
  obtain res d' where sub: "delegate_subscribe ds (auto_match_pcr now (ep_pcr_registry ep) a b d) = (res, d')"
    by (rule prod.exhaust)
  have d': "dg_region_id d' = r" "dg_handle_id d' = ep_next_observe_id ep"
    using auto_match_subscribe_ids [OF sub] ids by simp_all
  have obs: "bt_get (ep_observe_regions ep) r = None"
    using ep_consistentD(3) [OF c, of r] none by simp
  have fresh: "ep_consistent (ep\<lparr>ep_next_observe_id := ep_next_observe_id ep + 1\<rparr>)"
    using c by (auto simp: ep_consistent_def less_SucI)
  show ?thesis
  proof (cases res)
    case (Inl e)
    obtain err ds' where "e = (err, ds')" by (rule prod.exhaust)
    with Inl show ?thesis
      by (auto simp: register_delegate_def none new ids(3) pd sub Let_def ep_core_def
          intro!: ep_consistent_core [OF _ fresh])
  next
    case (Inr u)
    then show ?thesis
      by (auto simp: register_delegate_def none new ids(3) pd sub Let_def ep_core_def subscribe_region_def obs
          intro!: ep_consistent_core [OF _ consistent_new [OF c d']])
  qed
qed

lemma register_delegate_safe: "ep_safe (register_delegate env now r q op ds)"
proof (rule ep_safeI)
  fix ep :: "'a endpoint"
  assume "ep_consistent ep"
  then show "\<exists>ep'. register_delegate env now r q op ds ep = (Inr (), ep') \<and> ep_consistent ep'"
    by (cases "bt_get (ep_capture_regions ep) r") (rule register_delegate_new register_delegate_old; assumption)+
qed

lemma on_register_consistent:
  assumes c: "ep_consistent ep"
  shows "fst (on_register env now req ds ep) =
      (if \<exists>c. bt_get (ep_connections ep) (ds_conn_id ds) = Some c \<and> cn_version c = None
       then Inl CdcPanic else Inr ())
    \<and> ep_consistent (snd (on_register env now req ds ep))"
proof (cases "\<exists>c f. bt_get (ep_connections ep) (ds_conn_id ds) = Some c \<and> cn_version c = Some f")
  case True
  then obtain c f where conn: "bt_get (ep_connections ep) (ds_conn_id ds) = Some c" "cn_version c = Some f"
    by blast
  have rej: "ep_consistent (reject env r e ds' ep)" for r e ds'
    by (rule ep_consistent_core [OF _ c]) (simp add: ep_core_def)
  obtain dup c' where sub: "conn_subscribe (rr_request_id req) (rr_region_id req) (ds_id ds) c = (dup, c')"
    by (rule prod.exhaust)
  have c1: "ep_consistent (ep\<lparr>ep_connections := bt_insert (ds_conn_id ds) c' (ep_connections ep)\<rparr>)"
    by (rule ep_consistent_core [OF _ c]) simp
  have "\<exists>ep'. on_register env now req ds ep = (Inr (), ep') \<and> ep_consistent ep'"
    using c rej ep_safeD [OF register_delegate_safe c1]
    by (simp add: on_register_def conn sub Let_def split: option.split)
  then show ?thesis using conn by auto
next
  case False
  then show ?thesis using c
    by (cases "bt_get (ep_connections ep) (ds_conn_id ds)")
      (auto simp: on_register_def Let_def split: option.split)
qed

lemma ep_run_consistent: "keeps stays_consistent (ep_run env now t)"
proof (cases t)
  case (TRegister req ds)
  then show ?thesis
    by (auto simp: keeps_def stays_consistent_def intro: on_register_consistent [THEN conjunct2])
next
  case (TOpenConn c)
  then show ?thesis
    by (auto simp: keeps_def stays_consistent_def on_open_conn_def intro: ep_consistent_core [rotated])
next
  case (TSetConnVersion i v fs)
  then show ?thesis
    by (auto simp: keeps_def stays_consistent_def on_set_conn_version_def split: option.split
        intro: ep_consistent_core [rotated])
next
  case (TTxnExtra n)
  then show ?thesis
    by (auto simp: keeps_def stays_consistent_def intro: ep_consistent_core [rotated])
qed (auto simp: keeps_def register_span_consistent start_pcr_stream_consistent init_downstream_consistent
    intro: keepsD on_min_ts_consistent finish_scan_locks_consistent on_multi_batch_consistent
      ep_safe_keeps [OF on_deregister_safe])

definition run_tasks :: "'w endpoint_env \<Rightarrow> (nat \<times> cdc_task) list \<Rightarrow> ('w endpoint, unit) cdc_m" where
  "run_tasks env tasks = siter (\<lambda>(now, t). ep_run env now t) tasks"

lemma run_tasks_consistent:
  "ep_consistent (snd (run_tasks env tasks (endpoint_new cluster api_v2 scan_limit w)))"
proof -
  have "keeps stays_consistent (run_tasks env tasks)"
    unfolding run_tasks_def
    by (rule sc.keeps_siter) (auto simp: ep_run_consistent split: prod.split)
  moreover have "ep_consistent (endpoint_new cluster api_v2 scan_limit w)"
    by (simp add: ep_consistent_def endpoint_new_def)
  ultimately show ?thesis
    by (auto simp: keeps_def stays_consistent_def)
qed

text \<open>C35: Whatever tasks the endpoint has handled, even when the last of them failed, the observer
  follows exactly the captured regions, each with the handle of its delegate; so the assertions of
  the endpoint hold: removing a connection, a request, a region, a downstream or a delegate never
  fails, and a registration panics only when the version of the connection has not been set.\<close>

theorem endpoint_assertions_hold:
  "let ep = snd (run_tasks env tasks (endpoint_new cluster api_v2 scan_limit w)) in
    is_subscribed r (ep_observe_regions ep) = map_option dg_handle_id (bt_get (ep_capture_regions ep) r)
    \<and> fst (on_deregister env dereg ep) = Inr ()
    \<and> fst (on_register env now req ds ep) =
        (if \<exists>c. bt_get (ep_connections ep) (ds_conn_id ds) = Some c \<and> cn_version c = None
         then Inl CdcPanic else Inr ())"
proof -
  define ep where "ep = snd (run_tasks env tasks (endpoint_new cluster api_v2 scan_limit w))"
  have c: "ep_consistent ep" unfolding ep_def by (rule run_tasks_consistent)
  obtain ep' where "on_deregister env dereg ep = (Inr (), ep')"
    using ep_safeD [OF on_deregister_safe c] by blast
  with on_register_consistent [OF c] ep_consistentD(3) [OF c, of r]
  show ?thesis by (simp add: Let_def ep_def [symmetric] is_subscribed_def)
qed

section \<open>Batches of resolved timestamps\<close>

definition min_fold :: "(u64 \<times> timestamp) list \<Rightarrow> timestamp \<Rightarrow> timestamp" where
  "min_fold xs m = fold (\<lambda>(r, ts) m. if m > ts then ts else m) xs m"

lemma min_fold_Cons [simp]: "min_fold ((r, ts) # xs) m = min_fold xs (min ts m)"
  by (auto simp: min_fold_def min_def)

lemma min_fold_Nil [simp]: "min_fold [] m = m"
  by (simp add: min_fold_def)

lemma min_fold_eq: "min_fold xs m = Min (insert m (snd ` set xs))"
proof (induction xs arbitrary: m)
  case (Cons x xs)
  obtain r ts where x: "x = (r, ts)" by (rule prod.exhaust)
  have "Min (insert m (insert ts (snd ` set xs))) = Min (insert (min ts m) (snd ` set xs))"
  proof (cases "snd ` set xs = {}")
    case False
    then show ?thesis by (simp add: min.assoc min.commute [of m])
  qed (simp add: min.commute)
  then show ?case using Cons [of "min ts m"] by (simp add: x)
qed simp

lemma min_fold_sorted:
  assumes "sorted (map snd (x # xs))"
  shows "min_fold (x # xs) (-1) = snd x"
proof -
  have "Min (insert (-1) (snd ` set (x # xs))) = snd x"
    using assms by (intro Min_eqI) (auto simp: word_order.extremum)
  then show ?thesis by (simp add: min_fold_eq)
qed

lemma heap_pop_min:
  "heap_pop so n heap = ((min_fold (take n heap) (-1), so (remdups (map fst (take n heap)))), drop n heap)"
  by (simp add: heap_pop_def min_fold_def Let_def)

lemma resolved_batches_Nil [simp]: "resolved_batches so i [] = []"
  by (simp add: resolved_batches.simps)

lemma resolved_batches_Cons:
  assumes "heap \<noteq> []" "sorted (map snd heap)"
  shows "resolved_batches so i heap =
    (snd (hd heap), so (remdups (map fst (take (8 * 4 ^ i) heap)))) # resolved_batches so (Suc i) (drop (8 * 4 ^ i) heap)"
proof -
  obtain x xs where heap: "heap = x # xs" using assms(1) by (cases heap) auto
  obtain n where n: "8 * 4 ^ i = Suc n" by (cases "(8 :: nat) * 4 ^ i") auto
  have "sorted (map snd (x # take n xs))" using assms(2) heap
    by (metis map_eq_Cons_conv sorted_wrt_take take_Suc_Cons take_map list.simps(9))
  from min_fold_sorted [OF this] show ?thesis
    by (subst resolved_batches.simps) (simp add: heap heap_pop_min n)
qed

text \<open>The three facts by induction on the length of the heap, with the first batch split off.\<close>

lemma sorted_hd_least: "sorted (map snd heap) \<Longrightarrow> x \<in> set heap \<Longrightarrow> snd (hd heap) \<le> snd x"
  by (cases heap) auto

lemma sorted_drop_heap: "sorted (map snd heap) \<Longrightarrow> sorted (map snd (drop n heap))"
  by (simp add: drop_map [symmetric] sorted_wrt_drop)

lemma drop_shorter: "heap \<noteq> [] \<Longrightarrow> length (drop (8 * 4 ^ i) heap) < length heap"
  by simp

lemma resolved_batches_cover:
  assumes "\<And>xs. set (so xs) = set xs" "sorted (map snd heap)" "(r, t) \<in> set heap"
  shows "\<exists>b \<in> set (resolved_batches so i heap). r \<in> set (snd b) \<and> fst b \<le> t"
  using assms(2,3)
proof (induction heap arbitrary: i rule: length_induct)
  case (1 heap)
  let ?n = "8 * 4 ^ i"
  have ne: "heap \<noteq> []" using 1 by auto
  have "(r, t) \<in> set (take ?n heap) \<or> (r, t) \<in> set (drop ?n heap)"
    using 1 by (metis Un_iff append_take_drop_id set_append)
  then show ?case
  proof
    assume "(r, t) \<in> set (take ?n heap)"
    then have "r \<in> set (so (remdups (map fst (take ?n heap))))" using assms(1) by force
    moreover have "snd (hd heap) \<le> t" using sorted_hd_least [of heap "(r, t)"] 1 by simp
    ultimately show ?thesis using resolved_batches_Cons [OF ne] 1 by auto
  next
    assume "(r, t) \<in> set (drop ?n heap)"
    with 1(1) [rule_format, OF drop_shorter [OF ne] sorted_drop_heap [OF 1(2)]]
    show ?thesis using resolved_batches_Cons [OF ne 1(2)] by auto
  qed
qed

lemma resolved_batches_exact:
  assumes "\<And>xs. set (so xs) = set xs" "sorted (map snd heap)" "b \<in> set (resolved_batches so i heap)"
  shows "\<exists>r \<in> set (snd b). (r, fst b) \<in> set heap"
  using assms(2,3)
proof (induction heap arbitrary: i rule: length_induct)
  case (1 heap)
  let ?n = "8 * 4 ^ i"
  have ne: "heap \<noteq> []" using 1 by auto
  note IH = 1(1) [rule_format, OF drop_shorter [OF ne] sorted_drop_heap [OF 1(2)]]
  consider "b = (snd (hd heap), so (remdups (map fst (take ?n heap))))"
    | "b \<in> set (resolved_batches so (Suc i) (drop ?n heap))"
    using 1(3) resolved_batches_Cons [OF ne 1(2)] by auto
  then show ?case
  proof cases
    case 1
    have "hd heap \<in> set (take ?n heap)" using ne by (cases heap) (auto simp: take_Cons' )
    then have "fst (hd heap) \<in> set (snd b)" using 1 assms(1) by simp
    moreover have "(fst (hd heap), fst b) \<in> set heap" using 1 ne by simp
    ultimately show ?thesis by blast
  next
    case 2
    have "\<exists>r \<in> set (snd b). (r, fst b) \<in> set (drop ?n heap)"
      by (rule IH [OF 2])
    then show ?thesis by (blast dest: in_set_dropD)
  qed
qed

lemma resolved_batches_ascending:
  assumes "\<And>xs. set (so xs) = set xs" "sorted (map snd heap)"
  shows "sorted (map fst (resolved_batches so i heap))"
  using assms(2)
proof (induction heap arbitrary: i rule: length_induct)
  case (1 heap)
  let ?n = "8 * 4 ^ i"
  show ?case
  proof (cases "heap = []")
    case False
    have "sorted (map fst (resolved_batches so (Suc i) (drop ?n heap)))"
      by (rule 1(1) [rule_format, OF drop_shorter [OF False] sorted_drop_heap [OF 1(2)]])
    moreover have "snd (hd heap) \<le> fst b" if "b \<in> set (resolved_batches so (Suc i) (drop ?n heap))" for b
      using resolved_batches_exact [OF assms(1) sorted_drop_heap [OF 1(2)] that]
        sorted_hd_least [OF 1(2)] by (force dest: in_set_dropD)
    ultimately show ?thesis using resolved_batches_Cons [OF False 1(2)] by simp
  qed simp
qed

lemma resolved_batches_few:
  assumes "sorted (map snd heap)" "heap \<noteq> []"
  shows "8 * 4 ^ i * (4 ^ (length (resolved_batches so i heap) - 1) - 1) < 3 * length heap"
  using assms
proof (induction heap arbitrary: i rule: length_induct)
  case (1 heap)
  let ?n = "8 * 4 ^ i :: nat" and ?k = "length (resolved_batches so (Suc i) (drop (8 * 4 ^ i) heap))"
  have k: "length (resolved_batches so i heap) - 1 = ?k"
    using resolved_batches_Cons [OF 1(3,2)] by simp
  show ?case
  proof (cases "drop ?n heap = []")
    case True
    then show ?thesis using 1 k by simp
  next
    case False
    then have len: "length heap = ?n + length (drop ?n heap)" by simp
    have "?k > 0" using resolved_batches_Cons [OF False sorted_drop_heap [OF 1(2)]] by simp
    then obtain j where j: "?k = Suc j" using gr0_implies_Suc by blast
    have "8 * 4 ^ Suc i * (4 ^ (?k - 1) - 1) < 3 * length (drop ?n heap)"
      by (rule 1(1) [rule_format, OF drop_shorter [OF 1(3)] sorted_drop_heap [OF 1(2)] False])
    moreover have "?n * (4 ^ ?k - 1) = 8 * 4 ^ Suc i * (4 ^ (?k - 1) - 1) + ?n * 3"
      unfolding j by (simp add: algebra_simps diff_mult_distrib2)
    ultimately have "?n * (4 ^ ?k - 1) < 3 * length (drop ?n heap) + ?n * 3"
      by (simp only: add_less_cancel_right)
    moreover have "3 * length heap = 3 * length (drop ?n heap) + ?n * 3"
      by (subst len) (simp only: add_mult_distrib2 mult.commute [of 3] add.commute)
    ultimately show ?thesis unfolding k by (simp only:)
  qed
qed

text \<open>C36: The batches in which resolved timestamps are sent to a connection are safe and tight: every
  region of the heap is in a batch whose timestamp is at most its own, the timestamp of a batch is the
  resolved timestamp of one of its regions, later batches have later timestamps, and since a batch
  holds four times as many regions as the one before, their number is logarithmic in the number of
  regions.  The heap pops its regions in the order of their timestamps; a hash set lists its elements
  in any order.\<close>

theorem resolved_ts_batches:
  assumes "mset (order heap) = mset heap" "sorted (map snd (order heap))"
    and "\<And>xs. set (set_order xs) = set xs"
  shows "let batches = resolved_batches set_order 0 (order heap) in
    (\<forall>(r, t) \<in> set heap. \<exists>(ts, regions) \<in> set batches. r \<in> set regions \<and> ts \<le> t)
    \<and> (\<forall>(ts, regions) \<in> set batches. \<exists>r \<in> set regions. (r, ts) \<in> set heap)
    \<and> sorted (map fst batches)
    \<and> 8 * (4 ^ (length batches - 1) - 1) \<le> 3 * length heap"
proof -
  have same: "set (order heap) = set heap" "length (order heap) = length heap"
    using assms(1) by (metis set_mset_mset, metis size_mset)
  have "8 * (4 ^ (length (resolved_batches set_order 0 (order heap)) - 1) - 1) \<le> 3 * length heap"
    using resolved_batches_few [OF assms(2), of 0 set_order] same(2)
    by (cases "order heap = []") (simp_all add: less_imp_le)
  moreover have "\<exists>(ts, regions) \<in> set (resolved_batches set_order 0 (order heap)). r \<in> set regions \<and> ts \<le> t"
    if "(r, t) \<in> set heap" for r t
    using resolved_batches_cover [where so = set_order, OF assms(3,2)] that same(1)
    by (force simp: case_prod_beta)
  moreover have "\<exists>r \<in> set regions. (r, ts) \<in> set heap"
    if "(ts, regions) \<in> set (resolved_batches set_order 0 (order heap))" for ts regions
    using resolved_batches_exact [where so = set_order, OF assms(3,2) that] same(1) by simp
  ultimately show ?thesis
    using resolved_batches_ascending [where so = set_order, OF assms(3,2)] by (auto simp: Let_def)
qed

theorem resolved_ts_batches_witness:
  "mset (sort_key snd [(1, 7), (2, 3 :: timestamp)]) = mset [(1 :: u64, 7), (2, 3)]
    \<and> sorted (map snd (sort_key snd [(1 :: u64, 7), (2, 3 :: timestamp)]))
    \<and> resolved_batches (\<lambda>xs. xs) 0 (sort_key snd [(1, 7), (2, 3)]) = [(3, [2, 1])]
    \<and> sorted (map fst (resolved_batches (\<lambda>xs. xs) 0 (sort_key snd [(1, 7), (2, 3)])))"
proof -
  have "resolved_batches (\<lambda>xs. xs) 0 (sort_key snd [(1, 7), (2, 3)]) = [(3, [2, 1])]"
    by (subst resolved_batches.simps) (simp add: heap_pop_def)
  then show ?thesis
    using resolved_ts_batches [of "sort_key snd" "[(1, 7), (2, 3)]" "\<lambda>xs. xs"] by (simp add: Let_def)
qed

section \<open>Replication and ordinary downstreams\<close>

lemma enable_pcr_tracker: "dg_lock_tracker (enable_pcr now s n ms d) = Prepared region_default []"
  by (simp add: enable_pcr_def Let_def)

lemma enable_pcr_downstreams [simp]: "dg_downstreams (enable_pcr now s n ms d) = dg_downstreams d"
  by (simp add: enable_pcr_def Let_def)

lemma subscribe_replicated:
  assumes "re_version (ds_region_epoch ds) \<noteq> 0"
  shows "delegate_subscribe ds (enable_pcr now s n ms d) =
    (Inl (CdcRequest (EpochNotMatch ''epoch not match'' [region_default]), ds\<lparr>ds_state := Stopped\<rparr>),
     enable_pcr now s n ms d)"
  using assms
  by (simp add: delegate_subscribe_def enable_pcr_tracker check_epoch_on_ready_def compare_region_epoch_def
      region_default_def)

definition region_bounds :: "'w endpoint_env \<Rightarrow> u64 \<Rightarrow> bytes \<times> bytes" where
  "region_bounds env r = (case ee_pd_region env r of None \<Rightarrow> ([], []) | Some r \<Rightarrow> (rg_start_key r, rg_end_key r))"

text \<open>Registering a span for the first time attaches no delegate that already exists: the test for an
  active subscription is made on the registry before the span is entered.\<close>

lemma first_span_attaches_nothing:
  "ep_pcr_registry ep = [] \<Longrightarrow> ep_capture_regions (on_register_span now sub ep) = ep_capture_regions ep
    \<and> ep_pcr_registry (on_register_span now sub ep) = [sub]"
  by (simp add: on_register_span_def registry_clear_def registry_register_def Let_def)

text \<open>A delegate starts with its lock tracker in the preparing state, so an initialisation that finds
  it untouched does not ask for a scan of the locks.\<close>

lemma new_delegate_builds_no_resolver:
  "fst (init_lock_tracker (dg_lock_tracker (delegate_new now r h op))) = False"
  by (simp add: delegate_new_def)

lemma new_delegate_downstreams [simp]: "dg_downstreams (fst (new_delegate now r op ep)) = []"
  by (simp add: new_delegate_def delegate_new_def delegate_set_sst_importer_def Let_def split: option.split)

lemma new_delegate_fields [simp]:
  "ep_capture_regions (snd (new_delegate now r op ep)) = ep_capture_regions ep"
  "ep_scans (snd (new_delegate now r op ep)) = ep_scans ep"
  "ep_pcr_registry (snd (new_delegate now r op ep)) = ep_pcr_registry ep"
  by (simp_all add: new_delegate_def Let_def)

lemma register_replicated:
  assumes "match_region (ep_pcr_registry ep) a b = Some m" "region_bounds env r = (a, b)"
    and "re_version (ds_region_epoch ds) \<noteq> 0"
  shows "ep_scans (snd (register_delegate env now r q op ds ep)) = ep_scans ep
    \<and> map_option dg_downstreams (bt_get (ep_capture_regions (snd (register_delegate env now r q op ds ep))) r')
      = map_option dg_downstreams (bt_get (ep_capture_regions ep) r')"
proof -
  obtain s n ms where m: "m = (s, n, ms)" by (rule prod_cases3)
  have pd: "(case ee_pd_region env r of None \<Rightarrow> ([], []) | Some r \<Rightarrow> (rg_start_key r, rg_end_key r)) = (a, b)"
    using assms(2) by (simp add: region_bounds_def)
  show ?thesis
  proof (cases "bt_get (ep_capture_regions ep) r")
    case None
    obtain d ep1 where new: "new_delegate now r op ep = (d, ep1)" by (rule prod.exhaust)
    then have "ep_capture_regions ep1 = ep_capture_regions ep" "ep_scans ep1 = ep_scans ep"
      "ep_pcr_registry ep1 = ep_pcr_registry ep"
      using new_delegate_fields [of now r op ep] by simp_all
    then show ?thesis using assms(1)
      by (simp add: register_delegate_def None new pd auto_match_pcr_def m subscribe_replicated [OF assms(3)] Let_def)
  next
    case (Some d)
    then show ?thesis using assms(1)
      by (simp add: register_delegate_def pd auto_match_pcr_def m subscribe_replicated [OF assms(3)] Let_def
          bt_get_insert)
  qed
qed

text \<open>C37: While a replication subscription covers a region, the region takes no ordinary downstream.
  Attaching the subscription gives the delegate an empty region with epoch version zero, with which the
  epoch of the request is then compared: whatever the outcome of the checks before, no scan is started
  and no captured region gains a downstream.\<close>

theorem replicated_region_rejects_downstreams:
  assumes "match_region (ep_pcr_registry ep) (fst (region_bounds env (rr_region_id req)))
      (snd (region_bounds env (rr_region_id req))) = Some m"
    and "re_version (ds_region_epoch ds) \<noteq> 0"
  shows "ep_scans (snd (on_register env now req ds ep)) = ep_scans ep
    \<and> map_option dg_downstreams (bt_get (ep_capture_regions (snd (on_register env now req ds ep))) r)
      = map_option dg_downstreams (bt_get (ep_capture_regions ep) r)"
proof -
  let ?r = "rr_region_id req" and ?q = "rr_request_id req"
  have "ep_scans (snd (register_delegate env now ?r ?q op (ds\<lparr>ds_sink := snk\<rparr>) (ep\<lparr>ep_connections := cs\<rparr>))) = ep_scans ep
    \<and> map_option dg_downstreams (bt_get (ep_capture_regions (snd (register_delegate env now ?r ?q op
        (ds\<lparr>ds_sink := snk\<rparr>) (ep\<lparr>ep_connections := cs\<rparr>)))) r)
      = map_option dg_downstreams (bt_get (ep_capture_regions ep) r)" for op snk cs
    using register_replicated [of "ep\<lparr>ep_connections := cs\<rparr>" "fst (region_bounds env ?r)"
        "snd (region_bounds env ?r)" m env ?r "ds\<lparr>ds_sink := snk\<rparr>"] assms by simp
  then show ?thesis
    by (simp add: on_register_def Let_def split: option.split prod.split)
qed

definition example_endpoint_env :: "pcr_event endpoint_env" where
  "example_endpoint_env = \<lparr>ee_delegate = example_delegate_env, ee_reader = (\<lambda>_. Some ExtraNoop),
     ee_pd_region = (\<lambda>r. Some (region_default\<lparr>rg_id := r, rg_epoch := \<lparr>re_conf_ver = 1, re_version = 4\<rparr>\<rparr>)),
     ee_heap_order = sort_key snd, ee_set_order = (\<lambda>xs. xs)\<rparr>"

definition example_endpoint :: "pcr_event endpoint" where
  "example_endpoint = (endpoint_new 1 False 5 (example_world True))\<lparr>
     ep_connections := [(2, (conn_new 2 8)\<lparr>cn_version := Some 1\<rparr>)],
     ep_pcr_registry := [\<lparr>ss_start_key = [], ss_end_key = [], ss_sink = 7, ss_buffer_size = 1000,
       ss_flush_interval_ms = 150\<rparr>]\<rparr>"

theorem replicated_region_rejects_downstreams_witness:
  "match_region (ep_pcr_registry example_endpoint) (fst (region_bounds example_endpoint_env 3))
      (snd (region_bounds example_endpoint_env 3)) = Some (7, 1000, 150)
    \<and> re_version (ds_region_epoch (downstream_new 1 \<lparr>re_conf_ver = 1, re_version = 4\<rparr> 6 2 TiDb False
        observed_range_default)) = 4
    \<and> ep_scans (snd (on_register example_endpoint_env 0
        \<lparr>rr_region_id = 3, rr_request_id = 6, rr_cluster_id = 1, rr_kv_api = TiDb\<rparr>
        (downstream_new 1 \<lparr>re_conf_ver = 1, re_version = 4\<rparr> 6 2 TiDb False observed_range_default)
        example_endpoint)) = []"
  using replicated_region_rejects_downstreams [where ep = example_endpoint and env = example_endpoint_env
      and req = "\<lparr>rr_region_id = 3, rr_request_id = 6, rr_cluster_id = 1, rr_kv_api = TiDb\<rparr>"
      and ds = "downstream_new 1 \<lparr>re_conf_ver = 1, re_version = 4\<rparr> 6 2 TiDb False observed_range_default"
      and m = "(7, 1000, 150)" and now = 0 and r = 3]
  by (simp add: example_endpoint_def endpoint_new_def example_endpoint_env_def region_bounds_def
      region_default_def span_matches_def downstream_new_def)

end
