(* ===== verification/SpanBridge.thy ===== *)
theory SpanBridge
  imports PcrSnapshot EndpointFacts SpanResolver
begin

text \<open>
  The bridge that serves a span subscription on the source cluster
  (\<open>components/cdc/src/span_bridge.rs\<close>): resolving the regions of the span, the relay that collects the
  events of the delegates into batches, the registration with the endpoint, the checkpoint and
  rediscovery ticks, and the writer that sends the merged batches.

  The tasks of the bridge run concurrently; an operation below is what one of them does between two
  suspensions.  The merge channel is bounded, which only delays its senders, so it is a list.  How many
  events arrive before the relay's pause of one millisecond, which tasks the scheduler accepts, and
  which sends of the stream fail are parameters.  A relay whose batch finds no writer ends.
\<close>

section \<open>The regions of a span\<close>

type_synonym bridge_region = "u64 \<times> bytes \<times> bytes \<times> u64 \<times> u64"

definition bridge_overlaps :: "bytes \<Rightarrow> bytes \<Rightarrow> bytes \<Rightarrow> bytes \<Rightarrow> bool" where
  "bridge_overlaps span_start span_end r_start r_end =
    ((span_end = [] \<or> r_end = [] \<or> r_end > span_start)
     \<and> (span_start = [] \<or> r_start = [] \<or> r_start < span_end))"

definition json_u64_or_0 :: "json option \<Rightarrow> u64" where
  "json_u64_or_0 j = (case Option.bind j json_u64 of None \<Rightarrow> 0 | Some x \<Rightarrow> x)"

definition bridge_region_of_json :: "json \<Rightarrow> bridge_region" where
  "bridge_region_of_json r =
    (let (rid, r_start, r_end) = region_of_json r; epoch = json_get ''epoch'' r
     in (rid, r_start, r_end, json_u64_or_0 (Option.bind epoch (json_get ''conf_ver'')),
         json_u64_or_0 (Option.bind epoch (json_get ''version''))))"

definition resolve_regions_static ::
  "(string \<Rightarrow> cmd_result) \<Rightarrow> (string \<Rightarrow> json option) \<Rightarrow> string \<Rightarrow> bytes \<Rightarrow> bytes \<Rightarrow> bridge_region list" where
  "resolve_regions_static curl parse_json source_pd span_start span_end =
    (case curl (''http://'' @ source_pd @ ''/pd/api/v1/regions'') of
       CmdError \<Rightarrow> []
     | CmdOutput success body \<Rightarrow>
         if \<not> success then []
         else
           (case Option.bind (Option.bind (parse_json body) (json_get ''regions'')) json_array of
              None \<Rightarrow> []
            | Some regions \<Rightarrow>
                filter (\<lambda>(rid, r_start, r_end, conf_ver, version).
                    rid \<noteq> 0 \<and> \<not> (r_start = [] \<and> r_end = []) \<and> bridge_overlaps span_start span_end r_start r_end)
                  (map bridge_region_of_json regions)))"

section \<open>The relay\<close>

record relay_counters =
  rl_events :: u64
  rl_parse_ok :: u64
  rl_parse_fail :: u64

definition RELAY_BATCH :: nat where
  "RELAY_BATCH = 64"

definition relay_push ::
  "('w \<Rightarrow> pcr_event option) \<Rightarrow> 'w \<Rightarrow> pcr_event list \<times> relay_counters \<Rightarrow> pcr_event list \<times> relay_counters" where
  "relay_push parse data st =
    (case st of (buf, c) \<Rightarrow>
       (case parse data of
          Some event \<Rightarrow> (buf @ [event], c\<lparr>rl_parse_ok := rl_parse_ok c + 1\<rparr>)
        | None \<Rightarrow> (buf, c\<lparr>rl_parse_fail := rl_parse_fail c + 1\<rparr>)))"

text \<open>The inner loop, on the events that arrive before the pause; it gives back what it did not take.\<close>

fun relay_drain ::
  "('w \<Rightarrow> pcr_event option) \<Rightarrow> 'w list \<Rightarrow> pcr_event list \<times> relay_counters
    \<Rightarrow> (pcr_event list \<times> relay_counters) \<times> 'w list" where
  "relay_drain parse [] st = (st, [])"
| "relay_drain parse (data # queue) st =
    (let st = relay_push parse data st in
     if length (fst st) \<ge> RELAY_BATCH then (st, queue) else relay_drain parse queue st)"

text \<open>One turn of the relay on its queue: the batch it sends, if any, and the rest of the queue, when
  \<open>n\<close> more events arrive in time.\<close>

definition relay_turn ::
  "('w \<Rightarrow> pcr_event option) \<Rightarrow> nat \<Rightarrow> 'w list \<times> relay_counters
    \<Rightarrow> pcr_event list list \<times> 'w list \<times> relay_counters" where
  "relay_turn parse n st =
    (case st of
       ([], c) \<Rightarrow> ([], [], c)
     | (first # queue, c) \<Rightarrow>
         let ((buf, c), left) = relay_drain parse (take n queue) (relay_push parse first ([], c));
             queue = left @ drop n queue
         in if buf \<noteq> [] then ([buf], queue, c\<lparr>rl_events := rl_events c + of_nat (length buf)\<rparr>)
            else ([], queue, c))"

fun relay_run ::
  "('w \<Rightarrow> pcr_event option) \<Rightarrow> nat list \<Rightarrow> 'w list \<times> relay_counters
    \<Rightarrow> pcr_event list list \<times> 'w list \<times> relay_counters" where
  "relay_run parse [] (queue, c) = ([], queue, c)"
| "relay_run parse (n # ns) (queue, c) =
    (let (out, queue, c) = relay_turn parse n (queue, c); (outs, queue, c) = relay_run parse ns (queue, c)
     in (out @ outs, queue, c))"

section \<open>The bridge\<close>

record bridge_config =
  bc_has_engine :: bool
  bc_buffer_size :: nat
  bc_flush_ms :: nat
  bc_start_ts :: u64

record span_bridge =
  br_span_start :: bytes
  br_span_end :: bytes
  br_source_pd :: string
  br_running :: bool
  br_known_region_ids :: "u64 list"
  br_tasks :: "cdc_task list"
  br_scans :: "(u64 \<times> bool \<times> u64) list"
  br_relays :: "sink_id list"
  br_next_sink :: sink_id
  br_merge :: "pcr_event list list"
  br_writer_open :: bool
  br_written :: "pcr_event list"

definition span_bridge_new :: "bytes \<Rightarrow> bytes \<Rightarrow> string \<Rightarrow> sink_id \<Rightarrow> span_bridge" where
  "span_bridge_new span_start span_end source_pd next_sink =
    \<lparr>br_span_start = span_start, br_span_end = span_end, br_source_pd = source_pd, br_running = False,
     br_known_region_ids = [], br_tasks = [], br_scans = [], br_relays = [], br_next_sink = next_sink,
     br_merge = [], br_writer_open = False, br_written = []\<rparr>"

text \<open>A fresh channel with its relay is registered for the span.\<close>

definition bridge_register :: "bridge_config \<Rightarrow> (cdc_task \<Rightarrow> bool) \<Rightarrow> span_bridge \<Rightarrow> bool \<times> span_bridge" where
  "bridge_register cfg accepts br =
    (let task = TRegisterSpan \<lparr>ss_start_key = br_span_start br, ss_end_key = br_span_end br,
           ss_sink = br_next_sink br, ss_buffer_size = bc_buffer_size cfg,
           ss_flush_interval_ms = bc_flush_ms cfg\<rparr>
     in (accepts task,
         br\<lparr>br_relays := br_relays br @ [br_next_sink br], br_next_sink := br_next_sink br + 1,
            br_tasks := br_tasks br @ filter accepts [task]\<rparr>))"

text \<open>A delegate for a region is asked for with a channel whose receiver is dropped at once.\<close>

definition bridge_start_region ::
  "bridge_config \<Rightarrow> (cdc_task \<Rightarrow> bool) \<Rightarrow> u64 \<Rightarrow> span_bridge \<Rightarrow> span_bridge" where
  "bridge_start_region cfg accepts region_id br =
    br\<lparr>br_tasks := br_tasks br @ filter accepts
         [TStartPcrStream region_id (br_next_sink br) (bc_buffer_size cfg) (bc_flush_ms cfg)],
       br_next_sink := br_next_sink br + 1\<rparr>"

definition bridge_start_scan :: "bridge_config \<Rightarrow> u64 \<Rightarrow> span_bridge \<Rightarrow> span_bridge" where
  "bridge_start_scan cfg region_id br =
    (if bc_has_engine cfg
     then br\<lparr>br_scans := br_scans br @ [(region_id, bc_start_ts cfg = 0, bc_start_ts cfg)]\<rparr> else br)"

text \<open>The start of \<open>run\<close>; the regions are resolved a second time for the list of known regions.\<close>

definition bridge_start ::
  "bridge_config \<Rightarrow> (cdc_task \<Rightarrow> bool) \<Rightarrow> bridge_region list \<Rightarrow> bridge_region list \<Rightarrow> span_bridge
    \<Rightarrow> span_bridge" where
  "bridge_start cfg accepts regions regions' br =
    (let (accepted, br) = bridge_register cfg accepts br in
     if \<not> accepted then br
     else
       let br = fold (\<lambda>(rid, _). bridge_start_region cfg accepts rid) regions br;
           br = fold (\<lambda>(rid, _). bridge_start_scan cfg rid) regions br
       in br\<lparr>br_running := True, br_writer_open := True, br_known_region_ids := map fst regions'\<rparr>)"

definition checkpoint_tick :: "u64 \<Rightarrow> span_bridge \<Rightarrow> span_bridge" where
  "checkpoint_tick resolved_ts br =
    (if resolved_ts > 0 \<and> br_writer_open br
     then br\<lparr>br_merge := br_merge br @ [[mk_event (Checkpoint resolved_ts (br_known_region_ids br))]]\<rparr>
     else br)"

definition bridge_discover ::
  "bridge_config \<Rightarrow> (cdc_task \<Rightarrow> bool) \<Rightarrow> u64 \<Rightarrow> span_bridge \<Rightarrow> span_bridge" where
  "bridge_discover cfg accepts region_id br =
    (if region_id \<in> set (br_known_region_ids br) then br
     else bridge_start_scan cfg region_id (bridge_start_region cfg accepts region_id
            (br\<lparr>br_known_region_ids := br_known_region_ids br @ [region_id]\<rparr>)))"

definition rediscover_tick ::
  "bridge_config \<Rightarrow> (cdc_task \<Rightarrow> bool) \<Rightarrow> bridge_region list \<Rightarrow> span_bridge \<Rightarrow> span_bridge" where
  "rediscover_tick cfg accepts current br =
    snd (bridge_register cfg accepts (fold (\<lambda>(rid, _). bridge_discover cfg accepts rid) current br))"

text \<open>A batch of a relay or an event of a scan enters the merge channel while the writer is there.\<close>

definition merge_send :: "pcr_event list \<Rightarrow> span_bridge \<Rightarrow> span_bridge" where
  "merge_send batch br =
    (if br_writer_open br then br\<lparr>br_merge := br_merge br @ [batch]\<rparr> else br)"

text \<open>The writer takes a batch and sends its events one by one; \<open>fails\<close> is the position of the first
  send that fails, after which the writer and the channel are gone.\<close>

definition writer_turn :: "nat option \<Rightarrow> span_bridge \<Rightarrow> span_bridge" where
  "writer_turn fails br =
    (if \<not> br_writer_open br then br
     else
       (case br_merge br of
          [] \<Rightarrow> br
        | batch # rest \<Rightarrow>
            (case fails of
               Some i \<Rightarrow>
                 if i < length batch
                 then br\<lparr>br_written := br_written br @ take i batch, br_merge := [], br_writer_open := False\<rparr>
                 else br\<lparr>br_written := br_written br @ batch, br_merge := rest\<rparr>
             | None \<Rightarrow> br\<lparr>br_written := br_written br @ batch, br_merge := rest\<rparr>)))"

section \<open>The relay forwards everything\<close>

lemma map_filter_Nil [simp]: "List.map_filter f [] = []"
  by (simp add: List.map_filter_def)

lemma relay_push_fst: "fst (relay_push parse d st) = fst st @ (case parse d of None \<Rightarrow> [] | Some e \<Rightarrow> [e])"
  by (cases st) (simp add: relay_push_def split: option.split)

lemma relay_push_length: "length (fst (relay_push parse d st)) \<le> Suc (length (fst st))"
  by (simp add: relay_push_fst split: option.split)

lemma relay_drain_spec:
  assumes "relay_drain parse queue st = (st', left)" "length (fst st) < RELAY_BATCH"
  shows "fst st' @ List.map_filter parse left = fst st @ List.map_filter parse queue
    \<and> length (fst st') \<le> RELAY_BATCH \<and> length left \<le> length queue"
  using assms
proof (induction parse queue st rule: relay_drain.induct)
  case (2 parse d queue st)
  let ?st = "relay_push parse d st"
  have len: "length (fst ?st) \<le> RELAY_BATCH"
    using 2(3) relay_push_length [of parse d st] by simp
  show ?case
  proof (cases "length (fst ?st) \<ge> RELAY_BATCH")
    case True
    then show ?thesis using 2 len by (auto simp: relay_push_fst split: option.splits)
  next
    case False
    then have "relay_drain parse queue ?st = (st', left)" using 2(2) by simp
    from 2(1) [OF refl False this] False show ?thesis
      by (auto simp: relay_push_fst split: option.splits)
  qed
qed (simp add: List.map_filter_def)

lemma relay_turn_spec:
  assumes "relay_turn parse n (queue, c) = (out, queue', c')"
  shows "concat out @ List.map_filter parse queue' = List.map_filter parse queue"
    "list_all (\<lambda>b. b \<noteq> [] \<and> length b \<le> RELAY_BATCH) out"
    "queue \<noteq> [] \<longrightarrow> length queue' < length queue"
proof -
  have "concat out @ List.map_filter parse queue' = List.map_filter parse queue
    \<and> list_all (\<lambda>b. b \<noteq> [] \<and> length b \<le> RELAY_BATCH) out \<and> (queue \<noteq> [] \<longrightarrow> length queue' < length queue)"
  proof (cases queue)
    case (Cons first rest)
    obtain st left where d: "relay_drain parse (take n rest) (relay_push parse first ([], c)) = (st, left)"
      by (rule prod.exhaust)
    obtain buf c1 where st: "st = (buf, c1)" by (rule prod.exhaust)
    have "length (fst (relay_push parse first ([], c))) < RELAY_BATCH"
      using relay_push_length [of parse first "([], c)"] by (simp add: RELAY_BATCH_def)
    note spec = relay_drain_spec [OF d this]
    have "List.map_filter parse rest = List.map_filter parse (take n rest) @ List.map_filter parse (drop n rest)"
      by (metis append_take_drop_id map_filter_append)
    then have "buf @ List.map_filter parse (left @ drop n rest) = List.map_filter parse queue"
      using spec by (simp add: st relay_push_fst Cons split: option.splits)
    moreover have "length (left @ drop n rest) < length queue" using spec by (auto simp: Cons)
    ultimately show ?thesis
      using assms d spec by (auto simp: relay_turn_def Cons st Let_def split: if_splits)
  qed (use assms in \<open>simp add: relay_turn_def List.map_filter_def\<close>)
  then show "concat out @ List.map_filter parse queue' = List.map_filter parse queue"
    "list_all (\<lambda>b. b \<noteq> [] \<and> length b \<le> RELAY_BATCH) out"
    "queue \<noteq> [] \<longrightarrow> length queue' < length queue" by blast+
qed

lemma relay_run_spec:
  assumes "relay_run parse ns (queue, c) = (outs, queue', c')"
  shows "concat outs @ List.map_filter parse queue' = List.map_filter parse queue
    \<and> list_all (\<lambda>b. b \<noteq> [] \<and> length b \<le> RELAY_BATCH) outs
    \<and> length queue' \<le> length queue - length ns"
  using assms
proof (induction ns arbitrary: queue c outs)
  case (Cons n ns)
  obtain out q1 c1 where t: "relay_turn parse n (queue, c) = (out, q1, c1)" by (rule prod_cases3)
  obtain outs1 where r: "relay_run parse ns (q1, c1) = (outs1, queue', c')" "outs = out @ outs1"
    using Cons.prems t by (auto split: prod.splits)
  have shorter: "length q1 - length ns \<le> length queue - length (n # ns)"
  proof (cases "queue = []")
    case True
    then show ?thesis using t by (simp add: relay_turn_def)
  qed (use relay_turn_spec(3) [OF t] in simp)
  show ?case
    using Cons.IH [OF r(1)] relay_turn_spec(1,2) [OF t] shorter by (auto simp: r(2))
qed simp

text \<open>C28: The relay forwards every event of the delegates that parses, in order and once.  Whatever
  arrives before its pauses, what it has sent followed by what is left of its queue is the queue it
  started with; every batch holds between one and sixty-four events; and as many turns as there are
  events empty the queue.\<close>

theorem relay_forwards_all:
  assumes "relay_run parse ns (queue, c) = (outs, queue', c')"
  shows "concat outs @ List.map_filter parse queue' = List.map_filter parse queue
    \<and> list_all (\<lambda>b. b \<noteq> [] \<and> length b \<le> 64) outs
    \<and> (length queue \<le> length ns \<longrightarrow> queue' = [] \<and> concat outs = List.map_filter parse queue)"
  using relay_run_spec [OF assms] by (auto simp: RELAY_BATCH_def List.map_filter_def)

theorem relay_forwards_all_witness:
  "\<exists>c'. relay_run (\<lambda>n. if n = (0 :: nat) then None else Some (snapshot_event [])) [1, 0]
      ([0, 5], \<lparr>rl_events = 0, rl_parse_ok = 0, rl_parse_fail = 0\<rparr>) = ([[snapshot_event []]], [], c')
    \<and> concat [[snapshot_event []]] = List.map_filter
        (\<lambda>n. if n = (0 :: nat) then None else Some (snapshot_event [])) [0, 5]"
proof -
  let ?p = "\<lambda>n. if n = (0 :: nat) then None else Some (snapshot_event [])"
  obtain c' where "relay_run ?p [1, 0] ([0, 5], \<lparr>rl_events = 0, rl_parse_ok = 0, rl_parse_fail = 0\<rparr>)
      = ([[snapshot_event []]], [], c')"
    by (simp add: relay_turn_def relay_push_def RELAY_BATCH_def Let_def)
  then show ?thesis using relay_forwards_all by fastforce
qed

section \<open>The writer keeps the order\<close>

text \<open>While the writer is there, what was written followed by what waits is what entered.\<close>

definition bridge_stream :: "span_bridge \<Rightarrow> pcr_event list" where
  "bridge_stream br = br_written br @ concat (br_merge br)"

lemma merge_send_stream: "br_writer_open br \<Longrightarrow> bridge_stream (merge_send batch br) = bridge_stream br @ batch"
  by (simp add: merge_send_def bridge_stream_def)

lemma writer_turn_stream:
  "br_writer_open (writer_turn fails br) \<Longrightarrow> bridge_stream (writer_turn fails br) = bridge_stream br"
  by (auto simp: writer_turn_def bridge_stream_def split: if_splits list.splits option.splits)

lemma writer_turn_prefix: "\<exists>rest. bridge_stream br = br_written (writer_turn fails br) @ rest"
proof (cases "br_merge br")
  case (Cons batch rest)
  then show ?thesis
    by (auto simp: writer_turn_def bridge_stream_def split: option.split)
      (metis append.assoc append_take_drop_id)
qed (auto simp: writer_turn_def bridge_stream_def)

section \<open>The endpoint under the bridge\<close>

definition attached :: "'w endpoint \<Rightarrow> u64 \<Rightarrow> sink_id \<Rightarrow> bool" where
  "attached ep r sink =
    (case bt_get (ep_capture_regions ep) r of
       None \<Rightarrow> False
     | Some d \<Rightarrow> has_pcr d \<and> dg_pcr_event_sink d = Some sink)"

lemma has_pcr_enable [simp]: "has_pcr (enable_pcr now s n ms d)" "dg_pcr_event_sink (enable_pcr now s n ms d) = Some s"
  by (simp_all add: has_pcr_def enable_pcr_def Let_def)

lemma start_pcr_stream_registry [simp]:
  "ep_pcr_registry (on_start_pcr_stream env now r s n ms ep) = ep_pcr_registry ep"
  by (auto simp: on_start_pcr_stream_def new_delegate_def Let_def split: option.split prod.split)

text \<open>Starting the stream of a region of the span attaches it to the sink of the subscription, and
  leaves the other regions as they were.\<close>

lemma start_pcr_stream_other:
  "r' \<noteq> r \<Longrightarrow> bt_get (ep_capture_regions (on_start_pcr_stream env now r s n ms ep)) r'
    = bt_get (ep_capture_regions ep) r'"
  by (auto simp: on_start_pcr_stream_def new_delegate_def Let_def bt_get_insert split: option.split prod.split)

lemma start_pcr_stream_attaches:
  assumes "ep_pcr_registry ep = [sub]"
    "span_matches sub (fst (region_bounds env r)) (snd (region_bounds env r))"
    "ee_reader env r \<noteq> None"
  shows "attached (on_start_pcr_stream env now r s n ms ep) r (ss_sink sub)"
  using assms
  by (auto simp: attached_def on_start_pcr_stream_def new_delegate_def auto_match_pcr_def region_bounds_def
      Let_def bt_get_insert split: option.splits prod.splits)

definition run_all :: "'w endpoint_env \<Rightarrow> nat \<Rightarrow> cdc_task list \<Rightarrow> 'w endpoint \<Rightarrow> 'w endpoint" where
  "run_all env now tasks ep = snd (run_tasks env (map (Pair now) tasks) ep)"

fun starts_stream :: "cdc_task \<Rightarrow> u64 option" where
  "starts_stream (TStartPcrStream r s n ms) = Some r"
| "starts_stream _ = None"

lemma run_all_simps [simp]:
  "run_all env now [] ep = ep"
  "run_all env now (TStartPcrStream r s n ms # tasks) ep =
    run_all env now tasks (on_start_pcr_stream env now r s n ms ep)"
  "run_all env now (TRegisterSpan sub # tasks) ep = run_all env now tasks (on_register_span now sub ep)"
  by (simp_all add: run_all_def run_tasks_def)

fun_cases starts_streamE: "starts_stream t = Some r"

lemma run_all_streams:
  assumes "list_all (\<lambda>t. starts_stream t \<noteq> None) tasks" "ep_pcr_registry ep = [sub]"
  shows "ep_pcr_registry (run_all env now tasks ep) = [sub]
    \<and> run_all env now (tasks @ tasks') ep = run_all env now tasks' (run_all env now tasks ep)"
  using assms
  by (induction tasks arbitrary: ep) (auto elim!: starts_streamE)

lemma run_all_attaches:
  assumes "list_all (\<lambda>t. starts_stream t \<noteq> None) tasks" "ep_pcr_registry ep = [sub]"
    "span_matches sub (fst (region_bounds env r)) (snd (region_bounds env r))" "ee_reader env r \<noteq> None"
    "Some r \<in> starts_stream ` set tasks \<or> attached ep r (ss_sink sub)"
  shows "attached (run_all env now tasks ep) r (ss_sink sub)"
  using assms
proof (induction tasks arbitrary: ep)
  case (Cons t tasks)
  then obtain r' s n ms where t: "t = TStartPcrStream r' s n ms" by (fastforce elim: starts_streamE)
  let ?ep = "on_start_pcr_stream env now r' s n ms ep"
  have "Some r \<in> starts_stream ` set tasks \<or> attached ?ep r (ss_sink sub)"
  proof (cases "r' = r")
    case True
    then show ?thesis using start_pcr_stream_attaches [OF Cons.prems(2-4)] by simp
  next
    case False
    then have "attached ?ep r = attached ep r" by (simp add: attached_def fun_eq_iff start_pcr_stream_other)
    with Cons.prems(5) False show ?thesis by (auto simp: t)
  qed
  from Cons.IH [OF _ _ Cons.prems(3,4) this] Cons.prems(1,2) show ?case by (simp add: t)
qed simp

text \<open>The tasks of the start, and of a rediscovery.\<close>

lemma fold_start_region:
  "\<exists>tasks. br_tasks (fold (\<lambda>(rid, _). bridge_start_region cfg (\<lambda>_. True) rid) regions br) = br_tasks br @ tasks
    \<and> list_all (\<lambda>t. starts_stream t \<noteq> None) tasks \<and> starts_stream ` set tasks = Some ` fst ` set regions
    \<and> br_relays (fold (\<lambda>(rid, _). bridge_start_region cfg (\<lambda>_. True) rid) regions br) = br_relays br"
proof (induction regions arbitrary: br)
  case (Cons x regions)
  from Cons.IH [of "bridge_start_region cfg (\<lambda>_. True) (fst x) br"] show ?case
    by (cases x) (fastforce simp: bridge_start_region_def)
qed simp

lemma fold_start_scan:
  "br_tasks (fold (\<lambda>(rid, _). bridge_start_scan cfg rid) regions br) = br_tasks br
    \<and> br_relays (fold (\<lambda>(rid, _). bridge_start_scan cfg rid) regions br) = br_relays br"
  by (induction regions arbitrary: br) (auto simp: bridge_start_scan_def)

lemma fold_discover:
  "\<exists>tasks. br_tasks (fold (\<lambda>(rid, _). bridge_discover cfg (\<lambda>_. True) rid) regions br) = br_tasks br @ tasks
    \<and> list_all (\<lambda>t. starts_stream t \<noteq> None) tasks"
proof (induction regions arbitrary: br)
  case (Cons x regions)
  from Cons.IH [of "bridge_discover cfg (\<lambda>_. True) (fst x) br"] show ?case
    by (cases x) (fastforce simp: bridge_discover_def bridge_start_region_def bridge_start_scan_def)
qed simp

lemma register_span_registry [simp]: "ep_pcr_registry (on_register_span now sub ep) = [sub]"
  by (simp add: on_register_span_def registry_clear_def registry_register_def Let_def)

lemma register_span_reattaches:
  assumes "ep_pcr_registry ep = [sub]" "bt_get (ep_capture_regions ep) r \<noteq> None"
  shows "attached (on_register_span now sub' ep) r (ss_sink sub')"
  using assms by (auto simp: attached_def on_register_span_def Let_def span_matches_def)

lemma attached_captured: "attached ep r s \<Longrightarrow> bt_get (ep_capture_regions ep) r \<noteq> None"
  by (auto simp: attached_def split: option.splits)

definition bridge_subscription :: "bridge_config \<Rightarrow> bytes \<Rightarrow> bytes \<Rightarrow> sink_id \<Rightarrow> span_subscription" where
  "bridge_subscription cfg a b sink = \<lparr>ss_start_key = a, ss_end_key = b, ss_sink = sink,
     ss_buffer_size = bc_buffer_size cfg, ss_flush_interval_ms = bc_flush_ms cfg\<rparr>"

lemma bridge_start_tasks:
  assumes "br = bridge_start cfg (\<lambda>_. True) regions regions' (span_bridge_new a b pd sink)"
  obtains tasks where "br_tasks br = TRegisterSpan (bridge_subscription cfg a b sink) # tasks"
    "list_all (\<lambda>t. starts_stream t \<noteq> None) tasks" "starts_stream ` set tasks = Some ` fst ` set regions"
    "br_relays br = [sink]"
proof -
  define br1 where "br1 = snd (bridge_register cfg (\<lambda>_. True) (span_bridge_new a b pd sink))"
  define br2 where "br2 = fold (\<lambda>(rid, _). bridge_start_region cfg (\<lambda>_. True) rid) regions br1"
  define br3 where "br3 = fold (\<lambda>(rid, _). bridge_start_scan cfg rid) regions br2"
  have br: "br = br3\<lparr>br_running := True, br_writer_open := True, br_known_region_ids := map fst regions'\<rparr>"
    by (simp add: assms bridge_start_def bridge_register_def Let_def br1_def br2_def br3_def)
  have br1: "br_tasks br1 = [TRegisterSpan (bridge_subscription cfg a b sink)]" "br_relays br1 = [sink]"
    by (simp_all add: br1_def bridge_register_def span_bridge_new_def bridge_subscription_def Let_def)
  have br3: "br_tasks br3 = br_tasks br2" "br_relays br3 = br_relays br2"
    using fold_start_scan [of cfg regions br2] by (simp_all add: br3_def)
  obtain tasks where "br_tasks br2 = br_tasks br1 @ tasks" "list_all (\<lambda>t. starts_stream t \<noteq> None) tasks"
    "starts_stream ` set tasks = Some ` fst ` set regions" "br_relays br2 = br_relays br1"
    unfolding br2_def using fold_start_region [of cfg regions br1] by blast
  then show ?thesis by (intro that [of tasks]) (simp_all add: br br1 br3)
qed

lemma rediscover_tasks:
  obtains tasks sub where "br_tasks (rediscover_tick cfg (\<lambda>_. True) current br)
      = br_tasks br @ tasks @ [TRegisterSpan sub]"
    "list_all (\<lambda>t. starts_stream t \<noteq> None) tasks"
    "ss_sink sub = last (br_relays (rediscover_tick cfg (\<lambda>_. True) current br))"
proof -
  obtain tasks where "br_tasks (fold (\<lambda>(rid, _). bridge_discover cfg (\<lambda>_. True) rid) current br)
      = br_tasks br @ tasks" "list_all (\<lambda>t. starts_stream t \<noteq> None) tasks"
    using fold_discover by blast
  then show ?thesis
    using that by (simp add: rediscover_tick_def bridge_register_def Let_def)
qed

text \<open>C27: The registration of a span reaches the delegates of its regions.  When the scheduler takes
  the tasks, then once the endpoint has handled those of the start of a bridge, every region the
  bridge resolved that has a read delegate and whose bounds meet the span is captured and
  replicated into the channel of the bridge's relay, whatever the endpoint had captured before; and
  once it has handled those of the next rediscovery as well, the same regions send to the newest
  relay.\<close>

theorem bridge_attaches_regions:
  assumes "br = bridge_start cfg (\<lambda>_. True) regions regions' (span_bridge_new a b pd sink)"
    "br' = rediscover_tick cfg (\<lambda>_. True) current br"
    "(r, bounds) \<in> set regions" "ee_reader env r \<noteq> None"
    "span_matches (bridge_subscription cfg a b sink) (fst (region_bounds env r)) (snd (region_bounds env r))"
  shows "br_relays br = [sink] \<and> attached (run_all env now (br_tasks br) ep) r sink
    \<and> attached (run_all env now (br_tasks br') ep) r (last (br_relays br'))"
proof -
  let ?sub = "bridge_subscription cfg a b sink"
  obtain tasks where start: "br_tasks br = TRegisterSpan ?sub # tasks"
    "list_all (\<lambda>t. starts_stream t \<noteq> None) tasks" "starts_stream ` set tasks = Some ` fst ` set regions"
    and relays: "br_relays br = [sink]"
    by (rule bridge_start_tasks [OF assms(1)])
  define ep1 where "ep1 = run_all env now tasks (on_register_span now ?sub ep)"
  have reg: "Some r \<in> starts_stream ` set tasks" using assms(3) start(3) by force
  have "attached ep1 r (ss_sink ?sub)"
    unfolding ep1_def using reg by (intro run_all_attaches start(2) assms(4,5)) simp_all
  moreover note streams = run_all_streams [where ep = "on_register_span now ?sub ep", OF start(2)]
  have ep1: "ep_pcr_registry ep1 = [?sub]" unfolding ep1_def using streams by simp
  obtain tasks' sub where again: "br_tasks br' = br_tasks br @ tasks' @ [TRegisterSpan sub]"
    "list_all (\<lambda>t. starts_stream t \<noteq> None) tasks'" "ss_sink sub = last (br_relays br')"
    unfolding assms(2) by (rule rediscover_tasks)
  define ep2 where "ep2 = run_all env now tasks' ep1"
  have "attached ep2 r (ss_sink ?sub)"
    unfolding ep2_def using calculation by (intro run_all_attaches again(2) ep1 assms(4,5)) simp_all
  moreover have "run_all env now (br_tasks br') ep = on_register_span now sub ep2"
    using streams run_all_streams [OF again(2) ep1, where tasks' = "[TRegisterSpan sub]"]
    by (simp add: again(1) start(1) ep2_def ep1_def)
  moreover have "ep_pcr_registry ep2 = [?sub]" unfolding ep2_def using run_all_streams [OF again(2) ep1] by simp
  ultimately have "attached (run_all env now (br_tasks br') ep) r (last (br_relays br'))"
    using register_span_reattaches [of ep2 ?sub r now sub] attached_captured [of ep2 r] by (simp add: again(3))
  moreover have "ss_sink ?sub = sink" by (simp add: bridge_subscription_def)
  ultimately show ?thesis using \<open>attached ep1 r (ss_sink ?sub)\<close> by (simp add: relays start(1) ep1_def)
qed

definition example_bridge_config :: bridge_config where
  "example_bridge_config = \<lparr>bc_has_engine = True, bc_buffer_size = 1000, bc_flush_ms = 150, bc_start_ts = 0\<rparr>"

definition example_bridge :: span_bridge where
  "example_bridge = bridge_start example_bridge_config (\<lambda>_. True) [(3, [122], [], 1, 4)] [(3, [122], [], 1, 4)]
    (span_bridge_new [116] [117] ''127.0.0.1:3379'' 9)"

theorem bridge_attaches_regions_witness:
  "ee_reader example_endpoint_env 3 \<noteq> None
    \<and> span_matches (bridge_subscription example_bridge_config [116] [117] 9)
        (fst (region_bounds example_endpoint_env 3)) (snd (region_bounds example_endpoint_env 3))
    \<and> br_relays example_bridge = [9]
    \<and> attached (run_all example_endpoint_env 0 (br_tasks example_bridge) example_endpoint) 3 9
    \<and> attached (run_all example_endpoint_env 0
        (br_tasks (rediscover_tick example_bridge_config (\<lambda>_. True) [] example_bridge)) example_endpoint) 3
        (last (br_relays (rediscover_tick example_bridge_config (\<lambda>_. True) [] example_bridge)))"
proof -
  have reader: "ee_reader example_endpoint_env 3 \<noteq> None" by (simp add: example_endpoint_env_def)
  have meets: "span_matches (bridge_subscription example_bridge_config [116] [117] 9)
      (fst (region_bounds example_endpoint_env 3)) (snd (region_bounds example_endpoint_env 3))"
    by (simp add: span_matches_def region_bounds_def example_endpoint_env_def region_default_def)
  show ?thesis
    using reader meets bridge_attaches_regions [OF example_bridge_def refl _ reader meets, of "([122], [], 1, 4)"]
    by simp
qed

end
