(* ===== verification/EndToEnd.thy ===== *)
theory EndToEnd
  imports ControlPlane SpanBridge
begin

text \<open>
  The path of a pair from the source cluster to the target: the delegate of a region captures it from
  a command, or the scan of a region reads it; the relay and the bridge put it on the stream of the
  span; the subscriber hands it to the loop of the consumer, whose workers store it.
\<close>

section \<open>The bridge under any interleaving\<close>

datatype bridge_act =
    FromRelay "pcr_event list"
  | FromScan pcr_event
  | CheckpointDue u64
  | WriterTurn

fun bridge_act_step :: "bridge_act \<Rightarrow> span_bridge \<Rightarrow> span_bridge" where
  "bridge_act_step (FromRelay batch) br = merge_send batch br"
| "bridge_act_step (FromScan event) br = merge_send [event] br"
| "bridge_act_step (CheckpointDue resolved_ts) br = checkpoint_tick resolved_ts br"
| "bridge_act_step WriterTurn br = writer_turn None br"

definition bridge_acts :: "bridge_act list \<Rightarrow> span_bridge \<Rightarrow> span_bridge" where
  "bridge_acts acts br = fold bridge_act_step acts br"

fun relay_act :: "bridge_act \<Rightarrow> pcr_event list option" where
  "relay_act (FromRelay batch) = Some batch"
| "relay_act _ = None"

fun scan_act :: "bridge_act \<Rightarrow> pcr_event option" where
  "scan_act (FromScan event) = Some event"
| "scan_act _ = None"

fun act_events :: "u64 list \<Rightarrow> bridge_act \<Rightarrow> pcr_event list" where
  "act_events ids (FromRelay batch) = batch"
| "act_events ids (FromScan event) = [event]"
| "act_events ids (CheckpointDue ts) = (if ts > 0 then [mk_event (Checkpoint ts ids)] else [])"
| "act_events ids WriterTurn = []"

lemma bridge_act_stream:
  assumes "br_writer_open br"
  shows "br_writer_open (bridge_act_step act br)
    \<and> br_known_region_ids (bridge_act_step act br) = br_known_region_ids br
    \<and> bridge_stream (bridge_act_step act br) = bridge_stream br @ act_events (br_known_region_ids br) act"
  using assms
  by (cases act) (auto simp: merge_send_def checkpoint_tick_def writer_turn_def bridge_stream_def split: list.split)

lemma bridge_acts_stream:
  assumes "br_writer_open br"
  shows "bridge_stream (bridge_acts acts br)
    = bridge_stream br @ concat (map (act_events (br_known_region_ids br)) acts)"
  using assms
proof (induction acts arbitrary: br)
  case (Cons act acts)
  then show ?case using bridge_act_stream [OF Cons.prems, of act] by (simp add: bridge_acts_def)
qed (simp add: bridge_acts_def)

lemma set_map_filter: "set (List.map_filter f xs) = {y. \<exists>x \<in> set xs. f x = Some y}"
  by (induction xs) (auto split: option.splits)

lemma act_events_entered:
  "set (concat (List.map_filter relay_act acts)) \<union> set (List.map_filter scan_act acts)
    \<subseteq> set (concat (map (act_events ids) acts))"
proof (induction acts)
  case (Cons act acts)
  then show ?case by (cases act) auto
qed simp

text \<open>What entered the bridge has been written once the merge channel is empty.\<close>

lemma bridge_writes:
  assumes "br_writer_open br" "br_merge (bridge_acts acts br) = []"
  shows "set (concat (List.map_filter relay_act acts)) \<union> set (List.map_filter scan_act acts)
    \<subseteq> set (br_written (bridge_acts acts br))"
  using bridge_acts_stream [OF assms(1), of acts] assms(2) act_events_entered [of acts "br_known_region_ids br"]
  by (auto simp: bridge_stream_def)

section \<open>From the command to the channel\<close>

lemma batch_reaches_channel:
  assumes ser: "\<And>e. \<exists>bs. de_ser env e = Some bs \<and> deser bs = Some e"
    and d: "dg_pcr_event_sink d = Some s" "pch_open (cw_pcr w s)" "dg_pcr_batcher d = Some b" "batcher_sound b"
    and batch: "cb_cdc_id batch = dg_handle_id d" "list_ex (\<lambda>c. ac_admin c = None) (cb_cmds batch)"
    and run: "on_batch env now batch (d, w) = (Inr (), d', w')"
    and kv: "kv \<in> set (batch_kvs env (dg_pcr_cf_default_keys d) (cb_cmds batch))"
  shows "\<exists>e \<in> set (List.map_filter deser (pch_queue (cw_pcr w' s))). kv \<in> set (event_kvs e)"
proof -
  let ?evs = "batch_events env (dg_pcr_cf_default_keys d) (eb_seq_num b) (eb_batch b) (cb_cmds batch)"
  have "kv \<in> set (concat (map event_kvs ?evs))" using batch(2) kv by (subst batch_events_kvs) auto
  then obtain e where e: "e \<in> set ?evs" "kv \<in> set (event_kvs e)" by auto
  from ser [of e] obtain bs where bs: "de_ser env e = Some bs" "deser bs = Some e" by blast
  have "bs \<in> set (pch_queue (cw_pcr w' s))"
    using conjunct1 [OF on_batch_streamed [OF run batch(1) d(1,3,4)]] d(2) e(1) bs(1)
    by (auto simp: streamed_def set_map_filter)
  then have "e \<in> set (List.map_filter deser (pch_queue (cw_pcr w' s)))"
    using bs(2) by (auto simp: set_map_filter)
  with e(2) show ?thesis by blast
qed

lemma scanned_pairs_sent:
  "kv \<in> set (scan_kvs live snap_default snap_write is_full start_ts) \<Longrightarrow>
    \<exists>e \<in> set (scan_region live snap_default snap_write is_full start_ts). kv \<in> set (event_kvs e)"
  unfolding conjunct1 [OF scan_region_events, symmetric] by auto

section \<open>From the stream to the target\<close>

lemma item_events_all: "item_events (map Inr es) = es"
  by (induction es) simp_all

lemma span_stream_delivers:
  assumes "mc_closes_at c = None"
  shows "mc_sent (run_span_stream (Inr (map Inr es)) c) = mc_sent c @ map (\<lambda>e. (e, 0)) es"
  using connect_and_stream_sent [OF assms, of "Inr (map Inr es)" 0]
  by (simp add: run_span_stream_def reply_events_def item_events_all)

text \<open>The loop of the consumer takes a message while it runs.\<close>

definition loop_takes ::
  "(si_error \<Rightarrow> string) \<Rightarrow> 'e engine_ops \<Rightarrow> _ \<Rightarrow> _ \<Rightarrow> ('e, 'f, 'p) pcr_system \<Rightarrow> pcr_msg \<Rightarrow> bool" where
  "loop_takes dbg ops order steps s0 msg \<longleftrightarrow>
    (\<exists>before env now after. steps = before @ (env, now, LoopStep (EventIn (Some msg))) # after
       \<and> sy_running (run_system dbg ops order before s0))"

text \<open>C1: A pair of the source reaches the target.  Let a delegate with a connected sink handle a batch of
  commands, let the relay of the bridge empty the sink, let the bridge interleave the batches of the
  relay, the events of the full scan of a region, checkpoints and the turns of the writer until its
  channel is empty, and let the consumer take every message of the stream of the span while its loop
  runs, between any other steps of the loop and its workers.  Then every pair captured from the batch and
  every pair of the two column families that were scanned is, on the target, waiting in a worker's
  queue, buffered, or stored in the engine.  As for the consumer alone, flushes succeed, no range is
  deleted and a key always comes with the same value; the protobuf decoder inverts the encoder.\<close>

theorem replication_end_to_end:
  assumes "\<And>e. \<exists>bs. de_ser env e = Some bs \<and> deser bs = Some e"
    and "dg_pcr_event_sink d = Some s" "pch_open (cw_pcr w s)" "dg_pcr_batcher d = Some b" "batcher_sound b"
    and "cb_cdc_id batch = dg_handle_id d" "list_ex (\<lambda>c. ac_admin c = None) (cb_cmds batch)"
    and "on_batch env now batch (d, w) = (Inr (), d', w')"
    and "relay_run deser ns (pch_queue (cw_pcr w' s), counters) = (outs, queue', counters')"
    and "length (pch_queue (cw_pcr w' s)) \<le> length ns"
    and "br_writer_open br" "br_merge (bridge_acts acts br) = []"
    and "List.map_filter relay_act acts = outs"
    and "List.map_filter scan_act acts = scan_region live snap_default snap_write True start_ts"
    and "engine_spec ops get" "\<And>gs. mset (order gs) = mset gs"
    and "start_system now0 pc c = Some s0" "pc_workers pc \<noteq> []" "\<forall>w \<in> set (pc_workers pc). pw_queue w = []"
    and "\<forall>msg \<in> set (mc_sent (run_span_stream (Inr (map Inr (br_written (bridge_acts acts br))))
          \<lparr>mc_sent = [], mc_closes_at = None\<rparr>)). loop_takes dbg ops order steps s0 msg"
    and "kvs_agree (\<Union>m \<in> received steps. set (msg_kvs m))" "\<forall>m \<in> received steps. \<not> is_delete_range m"
    and "log_ok (sy_log (run_system dbg ops order steps s0))"
    and "kv \<in> set (batch_kvs env (dg_pcr_cf_default_keys d) (cb_cmds batch))
      \<or> (\<exists>(k, v) \<in> set (stream_cf_full snap_default ''default''). kv = mk_kv k v OpPut ''default'')
      \<or> (\<exists>(k, v) \<in> set (stream_cf_full snap_write ''write''). kv = mk_kv k v OpPut ''write'')"
  shows "covered get (run_system dbg ops order steps s0) (kv_of_event kv)"
proof -
  have outs: "concat outs = List.map_filter deser (pch_queue (cw_pcr w' s))"
    using relay_run_spec [OF assms(9)] assms(10) by auto
  have entered: "\<exists>e \<in> set (concat outs) \<union> set (List.map_filter scan_act acts). kv \<in> set (event_kvs e)"
    using assms(24)
  proof (elim disjE)
    assume "kv \<in> set (batch_kvs env (dg_pcr_cf_default_keys d) (cb_cmds batch))"
    from batch_reaches_channel [OF assms(1-8) this] show ?thesis unfolding outs by blast
  next
    assume "\<exists>(k, v) \<in> set (stream_cf_full snap_default ''default''). kv = mk_kv k v OpPut ''default''"
    then have "kv \<in> set (scan_kvs live snap_default snap_write True start_ts)" using full_scan_contains(1) by blast
    then show ?thesis using scanned_pairs_sent [of kv live snap_default snap_write True start_ts] by (auto simp: assms(14))
  next
    assume "\<exists>(k, v) \<in> set (stream_cf_full snap_write ''write''). kv = mk_kv k v OpPut ''write''"
    then have "kv \<in> set (scan_kvs live snap_default snap_write True start_ts)" using full_scan_contains(2) by blast
    then show ?thesis using scanned_pairs_sent [of kv live snap_default snap_write True start_ts] by (auto simp: assms(14))
  qed
  then obtain e where e: "e \<in> set (br_written (bridge_acts acts br))" "kv \<in> set (event_kvs e)"
    using bridge_writes [OF assms(11,12)] assms(13) by blast
  then have "(e, 0) \<in> set (mc_sent (run_span_stream (Inr (map Inr (br_written (bridge_acts acts br))))
      \<lparr>mc_sent = [], mc_closes_at = None\<rparr>))"
    by (simp add: span_stream_delivers)
  with assms(20) have "loop_takes dbg ops order steps s0 (e, 0)" by blast
  then obtain before env' now' after where
    "steps = before @ (env', now', LoopStep (EventIn (Some (e, 0)))) # after"
    "sy_running (run_system dbg ops order before s0)"
    unfolding loop_takes_def by blast
  from pipeline_covers [OF assms(15,16,17,18,19) this assms(21,22,23)] show ?thesis
    using e(2) by (simp add: msg_kvs_def)
qed

definition prewrite_batch :: cmd_batch where
  "prewrite_batch = example_batch\<lparr>cb_cmds := [\<lparr>ac_index = 5, ac_error = None, ac_admin = None,
     ac_requests = [ReqPrewrite [0x74] [9] []], ac_one_pc = False\<rparr>]\<rparr>"

definition prewrite_pair :: pcr_kv where
  "prewrite_pair = mk_kv (build_default_key [0x74] 0) [9] OpPut ''default''"

definition prewrite_event :: pcr_event where
  "prewrite_event = kv_event 1 [prewrite_pair]"

lemma prewrite_batch_simps:
  "cb_cdc_id prewrite_batch = 1" "cb_region_id prewrite_batch = 3" "cb_delete_ranges prewrite_batch = []"
  "cb_cmds prewrite_batch = [\<lparr>ac_index = 5, ac_error = None, ac_admin = None,
     ac_requests = [ReqPrewrite [0x74] [9] []], ac_one_pc = False\<rparr>]"
  by (simp_all add: prewrite_batch_def example_batch_def)

lemma prewrite_batch_kvs: "batch_kvs example_delegate_env {} (cb_cmds prewrite_batch) = [prewrite_pair]"
  by (simp add: prewrite_batch_simps prewrite_pair_def data_requests_def parse_lock_def)

lemma prewrite_batch_events:
  "batch_events example_delegate_env {} 0 [] (cb_cmds prewrite_batch) = [prewrite_event]"
  by (simp add: prewrite_batch_simps prewrite_event_def prewrite_pair_def data_requests_def parse_lock_def)

lemma prewrite_batch_runs:
  "\<exists>d' w'. on_batch example_delegate_env 10 prewrite_batch (example_delegate, example_world True) = (Inr (), d', w')
    \<and> pch_queue (cw_pcr w' 7) = [prewrite_event]"
proof -
  have "\<exists>st. sink_requests example_delegate_env [ReqPrewrite [0x74] [9] []] rows (example_delegate, example_world True)
      = (Inr rows, st)" for rows
    by (simp add: sbind_def sreturn_def)
  then obtain st where "sink_requests example_delegate_env [ReqPrewrite [0x74] [9] []]
      (rows_builder_default\<lparr>rw_is_one_pc := False\<rparr>) (example_delegate, example_world True)
      = (Inr (rows_builder_default\<lparr>rw_is_one_pc := False\<rparr>), st)" by blast
  then have "\<exists>d' w'. on_batch example_delegate_env 10 prewrite_batch (example_delegate, example_world True) = (Inr (), d', w')"
    by (rule on_batch_succeeds [where i = 5 and s = 7 and b = "batcher_new 0 1000 150"])
      (simp_all add: prewrite_batch_simps example_delegate_def enable_pcr_def delegate_new_def)
  then obtain d' w' where run:
    "on_batch example_delegate_env 10 prewrite_batch (example_delegate, example_world True) = (Inr (), d', w')" by blast
  have "batcher_sound (batcher_new 0 1000 150)" by simp
  with on_batch_streamed [OF run, of 7 "batcher_new 0 1000 150"] have "pch_queue (cw_pcr w' 7) = [prewrite_event]"
    by (simp add: streamed_def example_delegate_simps prewrite_batch_simps(1,3) batcher_new_def prewrite_batch_events)
       (simp add: example_world_def example_delegate_env_def)
  with run show ?thesis by blast
qed

definition example_acts :: "bridge_act list" where
  "example_acts = [FromRelay [prewrite_event], CheckpointDue 0, WriterTurn]"

lemma example_bridge_runs:
  "br_writer_open example_bridge" "br_merge (bridge_acts example_acts example_bridge) = []"
  "br_written (bridge_acts example_acts example_bridge) = [prewrite_event]"
  by (simp_all add: example_bridge_def bridge_start_def bridge_register_def bridge_start_region_def bridge_start_scan_def
      span_bridge_new_def example_bridge_config_def example_acts_def bridge_acts_def merge_send_def checkpoint_tick_def
      writer_turn_def Let_def)

lemma empty_scan: "scan_region live (\<lambda>_. None) (\<lambda>_. None) True 0 = []"
  by (simp add: scan_region_def scan_kvs_def stream_cf_full_def scan_state_new_def)

theorem replication_end_to_end_witness:
  "\<exists>d' w' s0. on_batch example_delegate_env 10 prewrite_batch (example_delegate, example_world True) = (Inr (), d', w')
    \<and> pch_queue (cw_pcr w' 7) = [prewrite_event]
    \<and> start_system 0 example_components (ingest_ctx_new (\<lambda>_ _. None)) = Some s0
    \<and> covered (\<lambda>e. e) (run_system (\<lambda>_. []) one_pair_ops (\<lambda>gs. gs)
        [(example_env, 3, LoopStep (EventIn (Some (prewrite_event, 0))))] s0) (kv_of_event prewrite_pair)"
proof -
  let ?msg = "(prewrite_event, 0) :: pcr_msg"
  let ?steps = "[(example_env, 3 :: nat, LoopStep (EventIn (Some ?msg)))]"
  obtain d' w' where run:
    "on_batch example_delegate_env 10 prewrite_batch (example_delegate, example_world True) = (Inr (), d', w')"
    "pch_queue (cw_pcr w' 7) = [prewrite_event]" using prewrite_batch_runs by blast
  obtain s0 where s0: "start_system 0 example_components (ingest_ctx_new (\<lambda>(_ :: string) (_ :: bytes). None :: bytes option)) = Some s0"
    "sy_running s0" "sy_log s0 = []"
    by (simp add: example_components_def start_fresh_system)
  have rec: "received ?steps = {?msg}" by (auto simp: received_def)
  have workers: "pc_workers example_components \<noteq> []" "\<forall>w \<in> set (pc_workers example_components). pw_queue w = []"
    by (simp_all add: example_components_def create_components_def INGEST_WORKERS_def)
  have agree: "kvs_agree (\<Union>m \<in> received ?steps. set (msg_kvs m))"
    unfolding rec by (simp add: msg_kvs_def prewrite_event_def kvs_agree_def)
  have data: "\<forall>m \<in> received ?steps. \<not> is_delete_range m"
    unfolding rec by (simp add: is_delete_range_def prewrite_event_def kv_event_def mk_event_def)
  have log: "log_ok (sy_log (run_system (\<lambda>_. []) one_pair_ops (\<lambda>gs. gs) ?steps s0))"
    using s0(2,3) by (simp add: sys_step_def loop_step_def is_control_def prewrite_event_def kv_event_def mk_event_def)
  have "loop_takes (\<lambda>_. []) one_pair_ops (\<lambda>gs. gs) ?steps s0 ?msg"
    unfolding loop_takes_def using s0(2) by (intro exI [of _ "[]"]) simp
  then have takes: "\<forall>msg \<in> set (mc_sent (run_span_stream
        (Inr (map Inr (br_written (bridge_acts example_acts example_bridge)))) \<lparr>mc_sent = [], mc_closes_at = None\<rparr>)).
      loop_takes (\<lambda>_. []) one_pair_ops (\<lambda>gs. gs) ?steps s0 msg"
    by (subst span_stream_delivers) (simp_all add: example_bridge_runs(3))
  have "prewrite_pair \<in> set (batch_kvs example_delegate_env (dg_pcr_cf_default_keys example_delegate) (cb_cmds prewrite_batch))"
    by (simp add: example_delegate_simps prewrite_batch_kvs)
  then have kv: "prewrite_pair \<in> set (batch_kvs example_delegate_env (dg_pcr_cf_default_keys example_delegate)
        (cb_cmds prewrite_batch))
      \<or> (\<exists>(k, v) \<in> set (stream_cf_full (\<lambda>_. None) ''default''). prewrite_pair = mk_kv k v OpPut ''default'')
      \<or> (\<exists>(k, v) \<in> set (stream_cf_full (\<lambda>_. None) ''write''). prewrite_pair = mk_kv k v OpPut ''write'')" ..
  obtain c' where relay: "relay_run Some [0] (pch_queue (cw_pcr w' 7), \<lparr>rl_events = 0, rl_parse_ok = 0, rl_parse_fail = 0\<rparr>)
      = ([[prewrite_event]], [], c')"
    by (simp add: run(2) relay_turn_def relay_push_def Let_def)
  have "covered (\<lambda>e. e) (run_system (\<lambda>_. []) one_pair_ops (\<lambda>gs. gs) ?steps s0) (kv_of_event prewrite_pair)"
    by (rule replication_end_to_end [OF _ _ _ _ _ _ _ run(1) relay _ example_bridge_runs(1,2) _ _ one_pair_spec _ s0(1)
          workers takes agree data log kv, where live = "\<lambda>_ _. None" and start_ts = 0
          and b = "batcher_new 0 1000 150"])
      (simp_all add: example_delegate_simps prewrite_batch_simps empty_scan run(2),
       simp_all add: example_delegate_env_def example_world_def example_acts_def)
  with run s0(1) show ?thesis by blast
qed

end
