(* ===== verification/PcrService.thy ===== *)
theory PcrService
  imports SpanBridge
begin

text \<open>
  The gRPC service of the source cluster (\<open>components/cdc/src/pcr_service.rs\<close>): a subscription to a span
  starts a bridge of its own, a subscription to one region starts a background scan and a loop that
  interleaves the events of the scan, the events of the delegate and the checkpoints, and destroyed
  ranges are broadcast to the subscribers of regions.

  The channel of a new subscription is named by the caller.  The loop is a step per branch that
  fires; the size of an event on the wire, the length of the bytes of an event, and whether a send
  on the stream succeeds are parameters.
\<close>

section \<open>The service\<close>

record pcr_subscribe_request =
  pq_stream_id :: u64
  pq_partition :: "(u64 \<times> bytes \<times> bytes) option"
  pq_start_ts :: u64

datatype bridge_phase = Streaming | CheckpointsOnly | Ended

record region_bridge =
  rb_region_id :: u64
  rb_channel :: sink_id
  rb_start_ts :: u64
  rb_start_key :: bytes
  rb_end_key :: bytes
  rb_phase :: bridge_phase
  rb_sent :: "pcr_event list"
  rb_sent_bytes :: u64
  rb_bytes_metric :: u64

record pcr_service =
  sv_has_engine :: bool
  sv_event_buffer_size :: nat
  sv_event_flush_interval_ms :: nat
  sv_event_sinks :: "sink_id list"
  sv_tasks :: "cdc_task list"
  sv_spans :: "(span_bridge \<times> bridge_config) list"
  sv_bridges :: "region_bridge list"

definition service_new :: "bool \<Rightarrow> nat \<Rightarrow> nat \<Rightarrow> pcr_service" where
  "service_new has_engine event_buffer_size event_flush_interval_ms =
    \<lparr>sv_has_engine = has_engine, sv_event_buffer_size = event_buffer_size,
     sv_event_flush_interval_ms = event_flush_interval_ms, sv_event_sinks = [], sv_tasks = [],
     sv_spans = [], sv_bridges = []\<rparr>"

definition region_bridge_new :: "u64 \<Rightarrow> sink_id \<Rightarrow> u64 \<Rightarrow> bytes \<Rightarrow> bytes \<Rightarrow> region_bridge" where
  "region_bridge_new region_id channel start_ts start_key end_key =
    \<lparr>rb_region_id = region_id, rb_channel = channel, rb_start_ts = start_ts, rb_start_key = start_key,
     rb_end_key = end_key, rb_phase = Streaming, rb_sent = [], rb_sent_bytes = 0, rb_bytes_metric = 0\<rparr>"

definition SOURCE_PD :: string where
  "SOURCE_PD = ''127.0.0.1:3379''"

definition service_subscribe ::
  "(cdc_task \<Rightarrow> bool) \<Rightarrow> sink_id \<Rightarrow> pcr_subscribe_request \<Rightarrow> pcr_service \<Rightarrow> pcr_service" where
  "service_subscribe accepts channel req sv =
    (let (region_id, start_key, end_key) = (case pq_partition req of None \<Rightarrow> (0, [], []) | Some p \<Rightarrow> p) in
     if region_id = 0
     then sv\<lparr>sv_spans := sv_spans sv @
            [(span_bridge_new start_key end_key SOURCE_PD channel,
              \<lparr>bc_has_engine = sv_has_engine sv, bc_buffer_size = sv_event_buffer_size sv,
               bc_flush_ms = sv_event_flush_interval_ms sv, bc_start_ts = pq_start_ts req\<rparr>)]\<rparr>
     else
       let sv = sv\<lparr>sv_event_sinks := sv_event_sinks sv @ [channel]\<rparr>;
           task = TStartPcrStream region_id channel (sv_event_buffer_size sv) (sv_event_flush_interval_ms sv)
       in if \<not> accepts task then sv
          else sv\<lparr>sv_tasks := sv_tasks sv @ [task],
                  sv_bridges := sv_bridges sv @
                    [region_bridge_new region_id channel (pq_start_ts req) start_key end_key]\<rparr>)"

text \<open>The thread that forwards destroyed ranges.\<close>

definition broadcast_delete_range ::
  "(pcr_event \<Rightarrow> 'w option) \<Rightarrow> bytes \<Rightarrow> bytes \<Rightarrow> pcr_service \<Rightarrow> 'w cdc_world \<Rightarrow> 'w cdc_world" where
  "broadcast_delete_range ser start_key end_key sv w =
    (case ser (mk_event (DeleteRange (build_data_key start_key) (build_data_key end_key) 0)) of
       None \<Rightarrow> w
     | Some event \<Rightarrow> fold (\<lambda>sink w. snd (pcr_send sink event w)) (sv_event_sinks sv) w)"

section \<open>The background scan\<close>

definition SCAN_CHUNK :: nat where
  "SCAN_CHUNK = 100"

definition USIZE_MAX :: nat where
  "USIZE_MAX = 2 ^ 64 - 1"

definition region_scan_kvs ::
  "rocks_snapshot \<Rightarrow> rocks_snapshot \<Rightarrow> u64 \<Rightarrow> bytes \<Rightarrow> bytes \<Rightarrow> pcr_kv list" where
  "region_scan_kvs snap_default snap_write start_ts from to =
    (let (dk, wk, wr, dr) =
       (if start_ts = 0
        then (scan_default_cf snap_default from to USIZE_MAX, scan_write_cf_raw snap_write from to USIZE_MAX, [], [])
        else let (wr, dr) = scan_delta_entries snap_write start_ts from to in ([], [], wr, dr))
     in map (\<lambda>(k, v). mk_kv k v OpPut ''default'') dk @ map (\<lambda>(k, v). mk_kv k v OpPut ''write'') wk
        @ map (\<lambda>(k, v). mk_kv k v OpPut ''write'') wr @ map (\<lambda>(k, v, op). mk_kv k v op ''default'') dr)"

function chunks :: "nat \<Rightarrow> 'a list \<Rightarrow> 'a list list" where
  "chunks n xs = (if n = 0 \<or> xs = [] then [] else take n xs # chunks n (drop n xs))"
  by pat_completeness auto

termination chunks
  by (relation "measure (length \<circ> snd)") auto

declare chunks.simps [simp del]

definition region_scan_events ::
  "rocks_snapshot \<Rightarrow> rocks_snapshot \<Rightarrow> u64 \<Rightarrow> bytes \<Rightarrow> bytes \<Rightarrow> pcr_event list" where
  "region_scan_events snap_default snap_write start_ts from to =
    map snapshot_event (chunks SCAN_CHUNK (region_scan_kvs snap_default snap_write start_ts from to))"

section \<open>The loop of a region\<close>

datatype 'w bridge_input =
    ScanEvent pcr_event
  | LiveEvent "'w option"
  | CpTick u64

record 'w bridge_wire =
  bw_parse :: "'w \<Rightarrow> pcr_event option"
  bw_len :: "'w \<Rightarrow> u64"
  bw_compute_size :: "pcr_event \<Rightarrow> 32 word"

text \<open>Leaving the loop adds the bytes of the scan to the metric.\<close>

definition bridge_break :: "region_bridge \<Rightarrow> region_bridge" where
  "bridge_break rb =
    rb\<lparr>rb_phase := Ended, rb_bytes_metric := rb_bytes_metric rb + rb_sent_bytes rb\<rparr>"

definition bridge_send :: "bool \<Rightarrow> pcr_event \<Rightarrow> region_bridge \<Rightarrow> region_bridge" where
  "bridge_send sent event rb =
    (if sent then rb\<lparr>rb_sent := rb_sent rb @ [event]\<rparr> else bridge_break rb)"

definition region_checkpoint :: "bool \<Rightarrow> u64 \<Rightarrow> region_bridge \<Rightarrow> region_bridge" where
  "region_checkpoint sent resolved_ts rb =
    (if resolved_ts > 0 then bridge_send sent (mk_event (Checkpoint resolved_ts [rb_region_id rb])) rb else rb)"

fun region_bridge_step :: "'w bridge_wire \<Rightarrow> bool \<Rightarrow> 'w bridge_input \<Rightarrow> region_bridge \<Rightarrow> region_bridge" where
  "region_bridge_step wire sent (ScanEvent scan_event) rb =
    (if rb_phase rb = Streaming
     then bridge_send sent scan_event
            (rb\<lparr>rb_sent_bytes := rb_sent_bytes rb + ucast (bw_compute_size wire scan_event)\<rparr>)
     else rb)"
| "region_bridge_step wire sent (LiveEvent None) rb =
    (if rb_phase rb = Streaming then rb\<lparr>rb_phase := CheckpointsOnly\<rparr> else rb)"
| "region_bridge_step wire sent (LiveEvent (Some data)) rb =
    (if rb_phase rb = Streaming
     then
       (case bw_parse wire data of
          None \<Rightarrow> rb\<lparr>rb_bytes_metric := rb_bytes_metric rb + bw_len wire data\<rparr>
        | Some event \<Rightarrow>
            if sent
            then (bridge_send sent event rb)\<lparr>rb_bytes_metric := rb_bytes_metric rb + bw_len wire data\<rparr>
            else bridge_break rb)
     else rb)"
| "region_bridge_step wire sent (CpTick resolved_ts) rb =
    (if rb_phase rb = Ended then rb else region_checkpoint sent resolved_ts rb)"

fun region_bridge_run ::
  "'w bridge_wire \<Rightarrow> ('w bridge_input \<times> bool) list \<Rightarrow> region_bridge \<Rightarrow> region_bridge" where
  "region_bridge_run wire [] rb = rb"
| "region_bridge_run wire ((input, sent) # inputs) rb =
    region_bridge_run wire inputs (region_bridge_step wire sent input rb)"

section \<open>What a subscriber of a region receives\<close>

lemma concat_chunks: "0 < n \<Longrightarrow> concat (chunks n xs) = xs"
  by (induction n xs rule: chunks.induct) (subst chunks.simps, auto)

lemma chunks_sizes: "list_all (\<lambda>c. c \<noteq> [] \<and> length c \<le> n) (chunks n xs)"
  by (induction n xs rule: chunks.induct) (subst chunks.simps, auto)

lemma region_scan_events_kvs:
  "concat (map event_kvs (region_scan_events snap_default snap_write start_ts from to))
    = region_scan_kvs snap_default snap_write start_ts from to"
  by (simp add: region_scan_events_def comp_def SCAN_CHUNK_def concat_chunks)

lemma region_scan_events_snapshot:
  "list_all (\<lambda>e. ev_is_snapshot e \<and> event_kvs e \<noteq> [] \<and> length (event_kvs e) \<le> SCAN_CHUNK)
    (region_scan_events snap_default snap_write start_ts from to)"
  using chunks_sizes [of SCAN_CHUNK] by (simp add: region_scan_events_def list_all_iff snapshot_event_def)

fun input_events :: "'w bridge_wire \<Rightarrow> u64 \<Rightarrow> 'w bridge_input \<Rightarrow> pcr_event list" where
  "input_events wire r (ScanEvent e) = [e]"
| "input_events wire r (LiveEvent None) = []"
| "input_events wire r (LiveEvent (Some data)) = (case bw_parse wire data of None \<Rightarrow> [] | Some e \<Rightarrow> [e])"
| "input_events wire r (CpTick ts) = (if ts > 0 then [mk_event (Checkpoint ts [r])] else [])"

fun scan_input :: "'w bridge_input \<Rightarrow> pcr_event option" where
  "scan_input (ScanEvent e) = Some e"
| "scan_input _ = None"

fun live_input :: "'w bridge_input \<Rightarrow> 'w option" where
  "live_input (LiveEvent d) = d"
| "live_input _ = None"

lemma region_bridge_step_streaming:
  assumes "rb_phase rb = Streaming" "input \<noteq> LiveEvent None"
  shows "rb_phase (region_bridge_step wire True input rb) = Streaming
    \<and> rb_region_id (region_bridge_step wire True input rb) = rb_region_id rb
    \<and> rb_sent (region_bridge_step wire True input rb) = rb_sent rb @ input_events wire (rb_region_id rb) input"
  using assms
  by (cases "(wire, True, input, rb)" rule: region_bridge_step.cases)
    (auto simp: bridge_send_def region_checkpoint_def split: option.split)

lemma region_bridge_run_streaming:
  assumes "rb_phase rb = Streaming" "LiveEvent None \<notin> set inputs"
  shows "rb_sent (region_bridge_run wire (map (\<lambda>i. (i, True)) inputs) rb)
    = rb_sent rb @ concat (map (input_events wire (rb_region_id rb)) inputs)"
  using assms
  by (induction inputs arbitrary: rb) (use region_bridge_step_streaming [of _ _ wire] in fastforce)+

text \<open>Only a send that fails or the end of the delegate's channel stops the loop; after the latter
  nothing but checkpoints is sent, what is left of a scan included.\<close>

lemma region_bridge_step_closed:
  assumes "rb_phase rb \<noteq> Streaming"
  shows "rb_phase (region_bridge_step wire sent input rb) \<noteq> Streaming
    \<and> rb_region_id (region_bridge_step wire sent input rb) = rb_region_id rb
    \<and> (rb_sent (region_bridge_step wire sent input rb) = rb_sent rb
      \<or> (\<exists>ts. rb_sent (region_bridge_step wire sent input rb) = rb_sent rb @ [mk_event (Checkpoint ts [rb_region_id rb])]))"
  using assms
  by (cases "(wire, sent, input, rb)" rule: region_bridge_step.cases)
    (auto simp: region_checkpoint_def bridge_send_def bridge_break_def)

definition checkpoints_only :: "u64 \<Rightarrow> pcr_event list \<Rightarrow> bool" where
  "checkpoints_only r es \<longleftrightarrow> list_all (\<lambda>e. \<exists>ts. e = mk_event (Checkpoint ts [r])) es"

lemma closed_channel_only_checkpoints:
  assumes "rb_phase rb \<noteq> Streaming"
  obtains cps where "rb_sent (region_bridge_run wire inputs rb) = rb_sent rb @ cps"
    "checkpoints_only (rb_region_id rb) cps"
  using assms
proof (induction inputs arbitrary: rb thesis)
  case (Cons i inputs)
  obtain input sent where i: "i = (input, sent)" by (rule prod.exhaust)
  note step = region_bridge_step_closed [OF Cons.prems(2), of wire sent input]
  from Cons.IH step obtain cps
    where "rb_sent (region_bridge_run wire inputs (region_bridge_step wire sent input rb))
        = rb_sent (region_bridge_step wire sent input rb) @ cps" "checkpoints_only (rb_region_id rb) cps"
    by metis
  with step show thesis
    using Cons.prems(1) [of cps] Cons.prems(1) [of "mk_event (Checkpoint ts [rb_region_id rb]) # cps" for ts]
    by (auto simp: i checkpoints_only_def)
qed (simp add: checkpoints_only_def)

lemma streamed_snapshots:
  assumes "list_all ev_is_snapshot (List.map_filter scan_input inputs)"
    "list_all (\<lambda>e. \<not> ev_is_snapshot e) (List.map_filter (bw_parse wire) (List.map_filter live_input inputs))"
  shows "filter ev_is_snapshot (concat (map (input_events wire r) inputs)) = List.map_filter scan_input inputs
    \<and> concat (map event_kvs (filter (\<lambda>e. \<not> ev_is_snapshot e) (concat (map (input_events wire r) inputs))))
      = concat (map event_kvs (List.map_filter (bw_parse wire) (List.map_filter live_input inputs)))"
  using assms
proof (induction inputs)
  case (Cons i inputs)
  then show ?case
    by (cases "(wire, r, i)" rule: input_events.cases) (auto simp: mk_event_def event_kvs_def split: option.splits)
qed simp

text \<open>C29: What a subscriber of a region receives while its stream takes every event and the delegate
  keeps its channel: however the loop interleaves the events of the background scan, the events of
  the delegate and the checkpoints, the pairs of the snapshot events are those of the scan of the
  region, the pairs of the other events are those the delegate sent, and both keep their order.\<close>

theorem region_subscription_streams:
  assumes "List.map_filter scan_input inputs = region_scan_events snap_default snap_write start_ts from to"
    "LiveEvent None \<notin> set inputs"
    "list_all (\<lambda>e. \<not> ev_is_snapshot e) (List.map_filter (bw_parse wire) (List.map_filter live_input inputs))"
    "sent = rb_sent (region_bridge_run wire (map (\<lambda>i. (i, True)) inputs)
       (region_bridge_new r channel start_ts from to))"
  shows "concat (map event_kvs (filter ev_is_snapshot sent)) = region_scan_kvs snap_default snap_write start_ts from to
    \<and> concat (map event_kvs (filter (\<lambda>e. \<not> ev_is_snapshot e) sent))
        = concat (map event_kvs (List.map_filter (bw_parse wire) (List.map_filter live_input inputs)))"
proof -
  have "list_all ev_is_snapshot (List.map_filter scan_input inputs)"
    using region_scan_events_snapshot by (fastforce simp: assms(1) list_all_iff)
  note streamed = streamed_snapshots [OF this assms(3), of r]
  moreover have "sent = concat (map (input_events wire r) inputs)"
    using region_bridge_run_streaming [OF _ assms(2), of "region_bridge_new r channel start_ts from to" wire]
    by (simp add: assms(4) region_bridge_new_def)
  ultimately show ?thesis by (simp add: assms(1) region_scan_events_kvs)
qed

definition example_snapshot :: rocks_snapshot where
  "example_snapshot = [''default'' \<mapsto> [([122, 1], [7])], ''write'' \<mapsto> []]"

definition example_wire :: "pcr_event bridge_wire" where
  "example_wire = \<lparr>bw_parse = Some, bw_len = (\<lambda>_. 9), bw_compute_size = (\<lambda>_. 11)\<rparr>"

theorem region_subscription_streams_witness:
  "let live = mk_event (KvBatch [mk_kv [122, 2] [8] OpPut ''default'']);
       scan = snapshot_event [mk_kv [122, 1] [7] OpPut ''default''];
       sent = rb_sent (region_bridge_run example_wire
         (map (\<lambda>i. (i, True)) [LiveEvent (Some live), ScanEvent scan, CpTick 5]) (region_bridge_new 3 4 0 [] []))
   in region_scan_events example_snapshot example_snapshot 0 [] [] = [scan]
    \<and> concat (map event_kvs (filter ev_is_snapshot sent)) = [mk_kv [122, 1] [7] OpPut ''default'']
    \<and> concat (map event_kvs (filter (\<lambda>e. \<not> ev_is_snapshot e) sent)) = [mk_kv [122, 2] [8] OpPut ''default'']"
proof -
  let ?live = "mk_event (KvBatch [mk_kv [122, 2] [8] OpPut ''default''])"
  let ?scan = "snapshot_event [mk_kv [122, 1] [7] OpPut ''default'']"
  have kvs: "region_scan_kvs example_snapshot example_snapshot 0 [] [] = [mk_kv [122, 1] [7] OpPut ''default'']"
    by (simp add: region_scan_kvs_def scan_default_cf_def scan_write_cf_raw_def iter_from_def
        example_snapshot_def USIZE_MAX_def)
  then have scan: "region_scan_events example_snapshot example_snapshot 0 [] [] = [?scan]"
    by (simp add: region_scan_events_def SCAN_CHUNK_def chunks.simps)
  show ?thesis
    using scan region_subscription_streams [of "[LiveEvent (Some ?live), ScanEvent ?scan, CpTick 5]"
        example_snapshot example_snapshot 0 "[]" "[]" example_wire _ 3 4, OF _ _ _ refl]
    by (simp add: kvs example_wire_def Let_def mk_event_def event_kvs_def)
qed

section \<open>Destroyed ranges\<close>

definition is_region_request :: "pcr_subscribe_request \<Rightarrow> bool" where
  "is_region_request req = (case pq_partition req of None \<Rightarrow> False | Some (r, _) \<Rightarrow> r \<noteq> 0)"

definition subscribe_all ::
  "(cdc_task \<Rightarrow> bool) \<Rightarrow> (sink_id \<times> pcr_subscribe_request) list \<Rightarrow> pcr_service \<Rightarrow> pcr_service" where
  "subscribe_all accepts reqs sv = fold (\<lambda>(channel, req). service_subscribe accepts channel req) reqs sv"

lemma subscribe_all_sinks:
  "sv_event_sinks (subscribe_all accepts reqs sv) = sv_event_sinks sv @ map fst (filter (is_region_request \<circ> snd) reqs)"
proof (induction reqs arbitrary: sv)
  case (Cons x reqs)
  obtain ch req where x: "x = (ch, req)" by (rule prod.exhaust)
  have "sv_event_sinks (service_subscribe accepts ch req sv)
      = sv_event_sinks sv @ (if is_region_request req then [ch] else [])"
    by (auto simp: service_subscribe_def is_region_request_def Let_def split: option.split prod.split)
  with Cons.IH show ?case by (simp add: subscribe_all_def x)
qed (simp add: subscribe_all_def)

lemma pcr_send_queue:
  "pch_queue (cw_pcr (snd (pcr_send s bs w)) s') =
    pch_queue (cw_pcr w s') @ (if s' = s \<and> pch_open (cw_pcr w s') then [bs] else [])
    \<and> pch_open (cw_pcr (snd (pcr_send s bs w)) s') = pch_open (cw_pcr w s')"
  by (auto simp: pcr_send_def Let_def)

lemma broadcast_queue:
  assumes "distinct sinks"
  shows "pch_queue (cw_pcr (fold (\<lambda>sink w. snd (pcr_send sink bs w)) sinks w) s) =
    pch_queue (cw_pcr w s) @ (if s \<in> set sinks \<and> pch_open (cw_pcr w s) then [bs] else [])"
  using assms by (induction sinks arbitrary: w) (auto simp: pcr_send_queue)

text \<open>C30: A range destroyed on the source reaches exactly the subscribers of single regions whose
  streams are open: after any subscriptions, on channels of their own, the broadcast adds one
  deletion of the range, with the data prefix on both bounds, to each of those channels and
  changes no other, so that no subscriber of a span receives it.\<close>

theorem delete_range_broadcast:
  assumes "distinct (map fst reqs)" "sv = subscribe_all accepts reqs (service_new has_engine n ms)"
    "ser (mk_event (DeleteRange (build_data_key a) (build_data_key b) 0)) = Some bs"
  shows "pch_queue (cw_pcr (broadcast_delete_range ser a b sv w) s) = pch_queue (cw_pcr w s)
    @ (if pch_open (cw_pcr w s) \<and> s \<in> fst ` set (filter (is_region_request \<circ> snd) reqs) then [bs] else [])"
proof -
  have "sv_event_sinks sv = map fst (filter (is_region_request \<circ> snd) reqs)"
    by (simp add: assms(2) subscribe_all_sinks service_new_def)
  with assms(1,3) show ?thesis
    by (auto simp: broadcast_delete_range_def broadcast_queue distinct_map_filter)
qed

theorem delete_range_broadcast_witness:
  "let region = \<lparr>pq_stream_id = 1, pq_partition = Some (3, [], []), pq_start_ts = 0\<rparr>;
       span = \<lparr>pq_stream_id = 2, pq_partition = Some (0, [116], [117]), pq_start_ts = 0\<rparr>;
       sv = subscribe_all (\<lambda>_. True) [(4, region), (6, span)] (service_new True 1000 150);
       dr = mk_event (DeleteRange [122, 1] [122, 2] 0);
       w = broadcast_delete_range Some [1] [2] sv (example_world True)
   in pch_queue (cw_pcr w 4) = [dr] \<and> pch_queue (cw_pcr w 6) = []"
  using delete_range_broadcast [of "[(4, \<lparr>pq_stream_id = 1, pq_partition = Some (3, [], []), pq_start_ts = 0\<rparr>),
      (6, \<lparr>pq_stream_id = 2, pq_partition = Some (0, [116], [117]), pq_start_ts = 0\<rparr>)]" _ "\<lambda>_. True" True 1000 150
      Some "[1]" "[2]", OF _ refl]
  by (simp add: Let_def is_region_request_def build_data_key_def DATA_PREFIX_def example_world_def)

section \<open>Forwarding destroyed ranges\<close>

text \<open>The forwarder is one cell of the process (\<open>src/server/service/kv.rs\<close>).  A node that consumes a replication
  first enters a channel whose ranges are deleted from its own engine; the registration of the
  service, which every node makes later, enters the channel of the broadcast.\<close>

datatype range_forwarder = ConsumerForwarder | ServiceForwarder

definition set_pcr_delete_range_forwarder ::
  "range_forwarder \<Rightarrow> range_forwarder option \<Rightarrow> range_forwarder option" where
  "set_pcr_delete_range_forwarder f cell = Some f"

definition forward_delete_range ::
  "range_forwarder option \<Rightarrow> bytes \<Rightarrow> bytes \<Rightarrow> (range_forwarder \<times> bytes \<times> bytes) option" where
  "forward_delete_range cell start_key end_key = map_option (\<lambda>f. (f, start_key, end_key)) cell"

text \<open>The handler of the request; \<open>None\<close> is the failed assertion on an empty bound.\<close>

definition unsafe_destroy_range ::
  "range_forwarder option \<Rightarrow> bytes \<Rightarrow> bytes \<Rightarrow> (range_forwarder \<times> bytes \<times> bytes) option option" where
  "unsafe_destroy_range cell start_key end_key =
    (if start_key = [] \<or> end_key = [] then None else Some (forward_delete_range cell start_key end_key))"

definition node_forwarder :: "bool \<Rightarrow> range_forwarder option" where
  "node_forwarder stream_ingest_enable =
    (let cell = (if stream_ingest_enable then set_pcr_delete_range_forwarder ConsumerForwarder None else None)
     in set_pcr_delete_range_forwarder ServiceForwarder cell)"

text \<open>So the channel of the consumer is replaced before it is used: a destroyed range always goes to the
  broadcast.\<close>

lemma consumer_forwarder_replaced:
  "unsafe_destroy_range (node_forwarder stream_ingest_enable) a b =
    (if a = [] \<or> b = [] then None else Some (Some (ServiceForwarder, a, b)))"
  by (simp add: unsafe_destroy_range_def node_forwarder_def forward_delete_range_def
      set_pcr_delete_range_forwarder_def Let_def)

end
