(* ===== verification/ApiFormat.thy ===== *)
theory ApiFormat
  imports CdcRows
begin

text \<open>
  The three storage formats of raw keys and values (\<open>components/api_version/src/lib.rs\<close>, \<open>api_v1.rs\<close>,
  \<open>api_v1ttl.rs\<close>, \<open>api_v2.rs\<close>): how a format stores a raw value with its expiry and deletion mark and a
  raw key with its timestamp, and the modes of keys and ranges.
\<close>

section \<open>The formats\<close>

datatype api_version = ApiV1 | ApiV1ttl | ApiV2

definition is_ttl_enabled :: "api_version \<Rightarrow> bool" where
  "is_ttl_enabled v = (v \<noteq> ApiV1)"

definition v1ttl_decode_raw_value :: "bytes \<Rightarrow> codec_error + raw_value" where
  "v1ttl_decode_raw_value b =
    (if length b < U64_SIZE then Inl ValueLength
     else
       let rest_len = length b - U64_SIZE in
       rbind (decode_u64 (drop rest_len b)) (\<lambda>(expire_ts, _).
         Inr \<lparr>rv_user_value = take rest_len b, rv_expire_ts = (if expire_ts = 0 then None else Some expire_ts),
              rv_is_delete = False\<rparr>))"

fun fmt_decode_raw_value :: "api_version \<Rightarrow> bytes \<Rightarrow> codec_error + raw_value" where
  "fmt_decode_raw_value ApiV1 b = Inr \<lparr>rv_user_value = b, rv_expire_ts = None, rv_is_delete = False\<rparr>"
| "fmt_decode_raw_value ApiV1ttl b = v1ttl_decode_raw_value b"
| "fmt_decode_raw_value ApiV2 b = decode_raw_value b"

definition v1ttl_encode_raw_value :: "raw_value \<Rightarrow> bytes" where
  "v1ttl_encode_raw_value v = rv_user_value v @ encode_u64 (case rv_expire_ts v of None \<Rightarrow> 0 | Some ts \<Rightarrow> ts)"

fun fmt_encode_raw_value :: "api_version \<Rightarrow> raw_value \<Rightarrow> bytes" where
  "fmt_encode_raw_value ApiV1 v = rv_user_value v"
| "fmt_encode_raw_value ApiV1ttl v = v1ttl_encode_raw_value v"
| "fmt_encode_raw_value ApiV2 v = encode_raw_value v"

fun fmt_encode_raw_key :: "api_version \<Rightarrow> bytes \<Rightarrow> timestamp option \<Rightarrow> key" where
  "fmt_encode_raw_key ApiV2 user_key ts = encode_raw_key user_key ts"
| "fmt_encode_raw_key _ user_key ts = user_key"

fun fmt_decode_raw_key :: "api_version \<Rightarrow> key \<Rightarrow> bool \<Rightarrow> codec_error + bytes \<times> timestamp option" where
  "fmt_decode_raw_key ApiV2 encoded_key with_ts = decode_raw_key encoded_key with_ts"
| "fmt_decode_raw_key _ encoded_key with_ts = Inr (encoded_key, None)"

text \<open>The mode of a range; the successor of the last byte wraps.\<close>

definition parse_range_mode :: "bytes \<Rightarrow> bytes \<Rightarrow> key_mode" where
  "parse_range_mode start_key end_key =
    (if start_key \<noteq> [] \<and> end_key \<noteq> []
        \<and> (hd start_key = hd end_key \<or> end_key = [hd start_key + 1])
     then parse_key_mode start_key else KmUnknown)"

section \<open>The contract of a format\<close>

text \<open>What a format promises: a value it can represent is read back as it was stored, and so is a key
  with the timestamp the format keeps.\<close>

locale raw_format =
  fixes enc_value :: "raw_value \<Rightarrow> bytes" and dec_value :: "bytes \<Rightarrow> codec_error + raw_value"
    and enc_key :: "bytes \<Rightarrow> timestamp option \<Rightarrow> key"
    and dec_key :: "key \<Rightarrow> bool \<Rightarrow> codec_error + bytes \<times> timestamp option"
    and represents :: "raw_value \<Rightarrow> bool" and keeps_ts :: "timestamp option \<Rightarrow> timestamp option"
  assumes dec_enc_value: "represents v \<Longrightarrow> dec_value (enc_value v) = Inr v"
    and dec_enc_key: "dec_key (enc_key k ts) (keeps_ts ts \<noteq> None) = Inr (k, keeps_ts ts)"
begin

lemma value_inj: "represents v \<Longrightarrow> represents v' \<Longrightarrow> enc_value v = enc_value v' \<Longrightarrow> v = v'"
  by (metis dec_enc_value sum.inject(2))

lemma key_inj: "keeps_ts ts = keeps_ts ts' \<Longrightarrow> enc_key k ts = enc_key k' ts' \<Longrightarrow> k = k'"
  by (metis dec_enc_key prod.inject sum.inject(2))

end

fun fmt_represents :: "api_version \<Rightarrow> raw_value \<Rightarrow> bool" where
  "fmt_represents ApiV1 v = (rv_expire_ts v = None \<and> \<not> rv_is_delete v)"
| "fmt_represents ApiV1ttl v = (rv_expire_ts v \<noteq> Some 0 \<and> \<not> rv_is_delete v)"
| "fmt_represents ApiV2 v = True"

fun fmt_keeps_ts :: "api_version \<Rightarrow> timestamp option \<Rightarrow> timestamp option" where
  "fmt_keeps_ts ApiV2 ts = ts"
| "fmt_keeps_ts _ ts = None"

lemma v1ttl_value_round_trip:
  assumes "fmt_represents ApiV1ttl v"
  shows "v1ttl_decode_raw_value (v1ttl_encode_raw_value v) = Inr v"
  using assms decode_u64_encode [where rest = "[]"]
  by (cases v) (auto simp: v1ttl_decode_raw_value_def v1ttl_encode_raw_value_def U64_SIZE_def Let_def split: option.splits)

lemma to_raw_append: "to_raw (from_raw k @ rest) = Inr k"
  using decode_bytes_encode [of k False rest] by (simp add: to_raw_def from_raw_def)

lemma raw_key_round_trip: "decode_raw_key (encode_raw_key k ts) (ts \<noteq> None) = Inr (k, ts)"
proof (cases ts)
  case (Some t)
  have "to_raw (append_ts (from_raw k) t) = Inr k" by (simp add: append_ts_def to_raw_append)
  with Some show ?thesis by (simp add: decode_raw_key_def encode_raw_key_def into_raw_eq_to_raw)
qed (simp add: decode_raw_key_def encode_raw_key_def into_raw_eq_to_raw)

interpretation v1: raw_format "fmt_encode_raw_value ApiV1" "fmt_decode_raw_value ApiV1" "fmt_encode_raw_key ApiV1"
    "fmt_decode_raw_key ApiV1" "fmt_represents ApiV1" "fmt_keeps_ts ApiV1"
  by unfold_locales auto

interpretation v1ttl: raw_format "fmt_encode_raw_value ApiV1ttl" "fmt_decode_raw_value ApiV1ttl"
    "fmt_encode_raw_key ApiV1ttl" "fmt_decode_raw_key ApiV1ttl" "fmt_represents ApiV1ttl" "fmt_keeps_ts ApiV1ttl"
  by unfold_locales (simp_all add: v1ttl_value_round_trip)

interpretation v2: raw_format "fmt_encode_raw_value ApiV2" "fmt_decode_raw_value ApiV2" "fmt_encode_raw_key ApiV2"
    "fmt_decode_raw_key ApiV2" "fmt_represents ApiV2" "fmt_keeps_ts ApiV2"
  by unfold_locales (simp_all only: fmt_encode_raw_value.simps fmt_decode_raw_value.simps fmt_encode_raw_key.simps
      fmt_decode_raw_key.simps fmt_keeps_ts.simps raw_value_round_trip raw_key_round_trip)

lemma fmt_value_round_trip:
  "fmt_represents api v \<Longrightarrow> fmt_decode_raw_value api (fmt_encode_raw_value api v) = Inr v"
  using v1.dec_enc_value [of v] v1ttl.dec_enc_value [of v] v2.dec_enc_value [of v] by (cases api) blast+

lemma fmt_key_round_trip:
  "fmt_decode_raw_key api (fmt_encode_raw_key api k ts) (fmt_keeps_ts api ts \<noteq> None) = Inr (k, fmt_keeps_ts api ts)"
  using v1.dec_enc_key [of k ts] v1ttl.dec_enc_key [of k ts] v2.dec_enc_key [of k ts] by (cases api) blast+

end
