(* ===== verification/TargetStorage.thy ===== *)
theory TargetStorage
  imports ApiFormat TaskLifecycle
begin

text \<open>
  The write entry points of the storage layer (\<open>src/storage/mod.rs\<close>), which refuse writes of users while
  the cluster is the target of a replication: the checks of a request on its way to the scheduler, and
  the modifications a raw write hands to the engine.

  A request is refused through its callback or by the value returned, and otherwise yields what is
  written or run.  The protection flag is the one the control task switches.  The clock, the
  scheduler pool, the snapshot and the provider of causal timestamps are parameters.
\<close>

section \<open>Commands and errors\<close>

datatype command_kind =
    KPrewrite | KFlush | KAcquirePessimisticLock | KAcquirePessimisticLockResumed | KDeleteRange
  | KRawPut | KRawBatchPut | KRawDelete | KRawDeleteRange | KRawBatchDelete | KRawCompareAndSwap | KRawAtomicStore

datatype storage_error =
    ReplicationMode
  | KeyTooLarge nat nat
  | InvalidCf string
  | CfDeprecated string
  | TtlNotEnabled
  | TtlLenNotEqualsToPairs
  | ApiVersionNotMatched command_kind api_version api_version
  | InvalidKeyMode command_kind api_version bytes
  | InvalidKeyRangeMode command_kind api_version bytes bytes
  | DeadlineExceeded
  | SchedTooBusy
  | RawKvMaxTimestampNotSynced
  | OtherStorageError string

datatype refusal = ByCallback storage_error | ByReturn storage_error

definition is_raw_command :: "command_kind \<Rightarrow> bool" where
  "is_raw_command cmd = (cmd \<in> {KRawPut, KRawBatchPut, KRawDelete, KRawDeleteRange, KRawBatchDelete,
     KRawCompareAndSwap, KRawAtomicStore})"

definition is_txn_command :: "command_kind \<Rightarrow> bool" where
  "is_txn_command cmd = (\<not> is_raw_command cmd)"

section \<open>Checks\<close>

text \<open>The mode that the keys of a request must have, or \<open>None\<close> when the versions do not match.\<close>

definition required_mode :: "api_version \<Rightarrow> api_version \<Rightarrow> command_kind \<Rightarrow> key_mode option option" where
  "required_mode storage req cmd =
    (case (storage, req) of
       (ApiV1, ApiV1) \<Rightarrow> Some None
     | (ApiV1ttl, ApiV1) \<Rightarrow> if is_raw_command cmd then Some None else None
     | (ApiV2, ApiV1) \<Rightarrow> if is_txn_command cmd then Some (Some KmTidb) else None
     | (ApiV2, ApiV2) \<Rightarrow> Some (Some (if is_raw_command cmd then KmRaw else KmTxn))
     | _ \<Rightarrow> None)"

definition check_api_version ::
  "api_version \<Rightarrow> api_version \<Rightarrow> command_kind \<Rightarrow> bytes list \<Rightarrow> storage_error + unit" where
  "check_api_version storage req cmd keys =
    (case required_mode storage req cmd of
       None \<Rightarrow> Inl (ApiVersionNotMatched cmd storage req)
     | Some None \<Rightarrow> Inr ()
     | Some (Some mode) \<Rightarrow>
         (case find (\<lambda>k. parse_key_mode k \<noteq> mode) keys of
            None \<Rightarrow> Inr () | Some k \<Rightarrow> Inl (InvalidKeyMode cmd storage k)))"

definition check_api_version_ranges ::
  "api_version \<Rightarrow> api_version \<Rightarrow> command_kind \<Rightarrow> bytes \<Rightarrow> bytes \<Rightarrow> storage_error + unit" where
  "check_api_version_ranges storage req cmd start_key end_key =
    (case required_mode storage req cmd of
       None \<Rightarrow> Inl (ApiVersionNotMatched cmd storage req)
     | Some None \<Rightarrow> Inr ()
     | Some (Some mode) \<Rightarrow>
         if parse_range_mode start_key end_key = mode then Inr ()
         else Inl (InvalidKeyRangeMode cmd storage start_key end_key))"

definition rawkv_cf :: "string \<Rightarrow> api_version \<Rightarrow> storage_error + string" where
  "rawkv_cf cf v =
    (if cf = [] then Inr ''default''
     else if v = ApiV2 then Inl (CfDeprecated cf)
     else if cf \<in> {''default'', ''lock'', ''write''} then Inr cf
     else Inl (InvalidCf cf))"

definition check_key_size :: "bytes list \<Rightarrow> nat \<Rightarrow> refusal + unit" where
  "check_key_size keys max_key_size =
    (case find (\<lambda>k. length k > max_key_size) keys of
       None \<Rightarrow> Inr () | Some k \<Rightarrow> Inl (ByCallback (KeyTooLarge (length k) max_key_size)))"

definition check_ttl_valid :: "api_version \<Rightarrow> nat \<Rightarrow> u64 list \<Rightarrow> storage_error + unit" where
  "check_ttl_valid v key_cnt ttls =
    (if \<not> is_ttl_enabled v then if list_ex (\<lambda>x. x \<noteq> 0) ttls then Inl TtlNotEnabled else Inr ()
     else if length ttls \<noteq> key_cnt then Inl TtlLenNotEqualsToPairs
     else Inr ())"

definition check_ttl :: "api_version \<Rightarrow> u64 \<Rightarrow> storage_error + unit" where
  "check_ttl v ttl = (if \<not> is_ttl_enabled v \<and> ttl \<noteq> 0 then Inl TtlNotEnabled else Inr ())"

section \<open>Timestamps of raw writes\<close>

record raw_env =
  ra_spawn_ok :: bool
  ra_in_time :: bool
  ra_max_ts_synced :: "storage_error + bool"
  ra_ts_provider :: "(nat \<Rightarrow> storage_error + timestamp) option"
  ra_now :: u64
  ra_write_error :: "storage_error option"

definition saturating_add_u64 :: "u64 \<Rightarrow> u64 \<Rightarrow> u64" where
  "saturating_add_u64 a b = (if unat a + unat b < 2 ^ 64 then a + b else - 1)"

definition ttl_to_expire_ts :: "u64 \<Rightarrow> u64 \<Rightarrow> u64 option" where
  "ttl_to_expire_ts now ttl = (if ttl = 0 then None else Some (saturating_add_u64 ttl now))"

text \<open>The provider is asked twice by a raw write: for the lock in memory and for the data key.\<close>

definition get_causal_ts :: "raw_env \<Rightarrow> nat \<Rightarrow> storage_error + timestamp option" where
  "get_causal_ts ra i =
    (case ra_ts_provider ra of None \<Rightarrow> Inr None | Some get_ts \<Rightarrow> rmap Some (get_ts i))"

definition get_raw_key_guard :: "raw_env \<Rightarrow> storage_error + (key \<times> lock_rec) option" where
  "get_raw_key_guard ra =
    rmap (map_option (\<lambda>ts. (encode_raw_key [RAW_KEY_PREFIX] (Some ts),
                            lock_new LkPut [RAW_KEY_PREFIX] ts 0 None 0 1 ts False)))
      (get_causal_ts ra 0)"

definition check_causal_ts_flushed :: "api_version \<Rightarrow> raw_env \<Rightarrow> storage_error + unit" where
  "check_causal_ts_flushed v ra =
    (if v = ApiV2
     then rbind (ra_max_ts_synced ra) (\<lambda>synced. if synced then Inr () else Inl RawKvMaxTimestampNotSynced)
     else Inr ())"

section \<open>The storage\<close>

datatype modify =
    ModDelete string key
  | ModPut string key bytes
  | ModDeleteRange string key key bool

datatype txn_command =
    Prewrite "key list"
  | PrewritePessimistic "key list"
  | AcquirePessimisticLock "key list"
  | AcquirePessimisticLockResumed "key list"
  | Flush "key list"
  | OtherTxnCommand string

text \<open>What a request leads to: modifications written under the lock in memory, or a command that is run.\<close>

datatype storage_write =
    WriteModifies "(key \<times> lock_rec) option" "modify list"
  | RunRawAtomicStore string "modify list"
  | RunRawCompareAndSwap string key "bytes option" bytes u64
  | RunTxn txn_command

record request_ctx =
  cx_api_version :: api_version
  cx_request_source :: string

record target_storage =
  st_api_version :: api_version
  st_max_key_size :: nat
  st_write_protected :: bool

definition set_write_protection :: "bool \<Rightarrow> target_storage \<Rightarrow> target_storage" where
  "set_write_protection protected st = st\<lparr>st_write_protected := protected\<rparr>"

definition refuse_if_protected :: "target_storage \<Rightarrow> refusal + unit" where
  "refuse_if_protected st = (if st_write_protected st then Inl (ByCallback ReplicationMode) else Inr ())"

section \<open>Transactional commands\<close>

definition starts_with :: "string \<Rightarrow> string \<Rightarrow> bool" where
  "starts_with s p = (take (length p) s = p)"

fun checked_keys :: "txn_command \<Rightarrow> (command_kind \<times> key list) option" where
  "checked_keys (Prewrite keys) = Some (KPrewrite, keys)"
| "checked_keys (PrewritePessimistic keys) = Some (KPrewrite, keys)"
| "checked_keys (AcquirePessimisticLock keys) = Some (KAcquirePessimisticLock, keys)"
| "checked_keys (AcquirePessimisticLockResumed keys) = Some (KAcquirePessimisticLockResumed, keys)"
| "checked_keys (Flush keys) = Some (KFlush, keys)"
| "checked_keys (OtherTxnCommand name) = None"

definition sched_txn_command :: "target_storage \<Rightarrow> request_ctx \<Rightarrow> txn_command \<Rightarrow> refusal + storage_write" where
  "sched_txn_command st ctx cmd =
    (case checked_keys cmd of
       None \<Rightarrow> Inr (RunTxn cmd)
     | Some (kind, keys) \<Rightarrow>
         let source = cx_request_source ctx in
         if st_write_protected st \<and> source \<noteq> [] \<and> \<not> starts_with source ''internal_''
         then Inl (ByCallback ReplicationMode)
         else
           rbind (map_err ByReturn (check_api_version (st_api_version st) (cx_api_version ctx) kind keys)) (\<lambda>_.
           rbind (check_key_size keys (st_max_key_size st)) (\<lambda>_.
             Inr (RunTxn cmd))))"

definition delete_range_txn ::
  "target_storage \<Rightarrow> raw_env \<Rightarrow> request_ctx \<Rightarrow> key \<Rightarrow> key \<Rightarrow> bool \<Rightarrow> refusal + storage_write" where
  "delete_range_txn st ra ctx start_key end_key notify_only =
    rbind (map_err ByReturn (check_api_version_ranges (st_api_version st) (cx_api_version ctx) KDeleteRange
      start_key end_key)) (\<lambda>_.
    (case ra_write_error ra of
       Some e \<Rightarrow> Inl (ByReturn e)
     | None \<Rightarrow> Inr (WriteModifies None (map (\<lambda>cf. ModDeleteRange cf start_key end_key notify_only)
                     [''default'', ''lock'', ''write'']))))"

section \<open>Raw commands\<close>

definition sched_raw_command :: "raw_env \<Rightarrow> (refusal + 'a) \<Rightarrow> refusal + 'a" where
  "sched_raw_command ra task = (if ra_spawn_ok ra then task else Inl (ByReturn SchedTooBusy))"

text \<open>The task of a raw write, which makes its modifications from a causal timestamp.\<close>

definition raw_write_task ::
  "target_storage \<Rightarrow> raw_env \<Rightarrow> (timestamp option \<Rightarrow> modify list) \<Rightarrow> refusal + storage_write" where
  "raw_write_task st ra mk =
    (if \<not> ra_in_time ra then Inl (ByCallback DeadlineExceeded)
     else
       map_err ByCallback
         (rbind (check_causal_ts_flushed (st_api_version st) ra) (\<lambda>_.
          rbind (get_raw_key_guard ra) (\<lambda>key_guard.
          rbind (get_causal_ts ra 1) (\<lambda>ts.
            Inr (WriteModifies key_guard (mk ts)))))))"

definition put_modify :: "target_storage \<Rightarrow> raw_env \<Rightarrow> string \<Rightarrow> timestamp option \<Rightarrow> (bytes \<times> bytes) \<times> u64 \<Rightarrow> modify" where
  "put_modify st ra cf ts kvt =
    (case kvt of ((k, v), ttl) \<Rightarrow>
       ModPut cf (fmt_encode_raw_key (st_api_version st) k ts)
         (fmt_encode_raw_value (st_api_version st)
           \<lparr>rv_user_value = v, rv_expire_ts = ttl_to_expire_ts (ra_now ra) ttl, rv_is_delete = False\<rparr>))"

definition raw_batch_put_requests_to_modifies ::
  "target_storage \<Rightarrow> raw_env \<Rightarrow> string \<Rightarrow> (bytes \<times> bytes) list \<Rightarrow> u64 list \<Rightarrow> timestamp option \<Rightarrow> modify list" where
  "raw_batch_put_requests_to_modifies st ra cf pairs ttls ts = map (put_modify st ra cf ts) (zip pairs ttls)"

definition raw_delete_request_to_modify :: "target_storage \<Rightarrow> string \<Rightarrow> timestamp option \<Rightarrow> bytes \<Rightarrow> modify" where
  "raw_delete_request_to_modify st cf ts k =
    (let k = fmt_encode_raw_key (st_api_version st) k ts in
     if st_api_version st = ApiV2 then ModPut cf k [DELETE_FLAG] else ModDelete cf k)"

definition raw_put ::
  "target_storage \<Rightarrow> raw_env \<Rightarrow> request_ctx \<Rightarrow> string \<Rightarrow> bytes \<Rightarrow> bytes \<Rightarrow> u64 \<Rightarrow> refusal + storage_write" where
  "raw_put st ra ctx cf k value ttl =
    rbind (refuse_if_protected st) (\<lambda>_.
    rbind (map_err ByReturn (check_api_version (st_api_version st) (cx_api_version ctx) KRawPut [k])) (\<lambda>_.
    rbind (check_key_size [k] (st_max_key_size st)) (\<lambda>_.
    rbind (map_err ByReturn (check_ttl (st_api_version st) ttl)) (\<lambda>_.
    rbind (map_err ByReturn (rawkv_cf cf (st_api_version st))) (\<lambda>cf.
      sched_raw_command ra (raw_write_task st ra (\<lambda>ts. [put_modify st ra cf ts ((k, value), ttl)])))))))"

definition raw_batch_put ::
  "target_storage \<Rightarrow> raw_env \<Rightarrow> request_ctx \<Rightarrow> string \<Rightarrow> (bytes \<times> bytes) list \<Rightarrow> u64 list \<Rightarrow> refusal + storage_write" where
  "raw_batch_put st ra ctx cf pairs ttls =
    rbind (refuse_if_protected st) (\<lambda>_.
    rbind (map_err ByReturn (check_api_version (st_api_version st) (cx_api_version ctx) KRawBatchPut
      (map fst pairs))) (\<lambda>_.
    rbind (map_err ByReturn (rawkv_cf cf (st_api_version st))) (\<lambda>cf.
    rbind (check_key_size (map fst pairs) (st_max_key_size st)) (\<lambda>_.
    rbind (map_err ByReturn (check_ttl_valid (st_api_version st) (length pairs) ttls)) (\<lambda>_.
      sched_raw_command ra (raw_write_task st ra (raw_batch_put_requests_to_modifies st ra cf pairs ttls)))))))"

definition raw_delete ::
  "target_storage \<Rightarrow> raw_env \<Rightarrow> request_ctx \<Rightarrow> string \<Rightarrow> bytes \<Rightarrow> refusal + storage_write" where
  "raw_delete st ra ctx cf k =
    rbind (refuse_if_protected st) (\<lambda>_.
    rbind (map_err ByReturn (check_api_version (st_api_version st) (cx_api_version ctx) KRawDelete [k])) (\<lambda>_.
    rbind (check_key_size [k] (st_max_key_size st)) (\<lambda>_.
    rbind (map_err ByReturn (rawkv_cf cf (st_api_version st))) (\<lambda>cf.
      sched_raw_command ra (raw_write_task st ra (\<lambda>ts. [raw_delete_request_to_modify st cf ts k]))))))"

definition raw_delete_range ::
  "target_storage \<Rightarrow> raw_env \<Rightarrow> request_ctx \<Rightarrow> string \<Rightarrow> bytes \<Rightarrow> bytes \<Rightarrow> refusal + storage_write" where
  "raw_delete_range st ra ctx cf start_key end_key =
    rbind (refuse_if_protected st) (\<lambda>_.
    rbind (check_key_size [start_key, end_key] (st_max_key_size st)) (\<lambda>_.
    rbind (map_err ByReturn (check_api_version_ranges (st_api_version st) (cx_api_version ctx) KRawDeleteRange
      start_key end_key)) (\<lambda>_.
    rbind (map_err ByReturn (rawkv_cf cf (st_api_version st))) (\<lambda>cf.
      sched_raw_command ra
        (if \<not> ra_in_time ra then Inl (ByCallback DeadlineExceeded)
         else Inr (WriteModifies None [ModDeleteRange cf (fmt_encode_raw_key (st_api_version st) start_key None)
                     (fmt_encode_raw_key (st_api_version st) end_key None) False]))))))"

definition raw_batch_delete ::
  "target_storage \<Rightarrow> raw_env \<Rightarrow> request_ctx \<Rightarrow> string \<Rightarrow> bytes list \<Rightarrow> refusal + storage_write" where
  "raw_batch_delete st ra ctx cf keys =
    rbind (refuse_if_protected st) (\<lambda>_.
    rbind (map_err ByReturn (check_api_version (st_api_version st) (cx_api_version ctx) KRawBatchDelete keys)) (\<lambda>_.
    rbind (map_err ByReturn (rawkv_cf cf (st_api_version st))) (\<lambda>cf.
    rbind (check_key_size keys (st_max_key_size st)) (\<lambda>_.
      sched_raw_command ra (raw_write_task st ra (\<lambda>ts. map (raw_delete_request_to_modify st cf ts) keys))))))"

definition raw_compare_and_swap_atomic ::
  "target_storage \<Rightarrow> raw_env \<Rightarrow> request_ctx \<Rightarrow> string \<Rightarrow> bytes \<Rightarrow> bytes option \<Rightarrow> bytes \<Rightarrow> u64
    \<Rightarrow> refusal + storage_write" where
  "raw_compare_and_swap_atomic st ra ctx cf k previous_value value ttl =
    rbind (map_err ByReturn (check_api_version (st_api_version st) (cx_api_version ctx) KRawCompareAndSwap [k])) (\<lambda>_.
    rbind (map_err ByReturn (rawkv_cf cf (st_api_version st))) (\<lambda>cf.
    rbind (map_err ByReturn (check_ttl (st_api_version st) ttl)) (\<lambda>_.
      sched_raw_command ra (Inr (RunRawCompareAndSwap cf (fmt_encode_raw_key (st_api_version st) k None)
        previous_value value ttl)))))"

definition raw_batch_put_atomic ::
  "target_storage \<Rightarrow> raw_env \<Rightarrow> request_ctx \<Rightarrow> string \<Rightarrow> (bytes \<times> bytes) list \<Rightarrow> u64 list \<Rightarrow> refusal + storage_write" where
  "raw_batch_put_atomic st ra ctx cf pairs ttls =
    rbind (refuse_if_protected st) (\<lambda>_.
    rbind (map_err ByReturn (check_api_version (st_api_version st) (cx_api_version ctx) KRawAtomicStore
      (map fst pairs))) (\<lambda>_.
    rbind (map_err ByReturn (rawkv_cf cf (st_api_version st))) (\<lambda>cf.
    rbind (map_err ByReturn (check_ttl_valid (st_api_version st) (length pairs) ttls)) (\<lambda>_.
      sched_raw_command ra (Inr (RunRawAtomicStore cf
        (raw_batch_put_requests_to_modifies st ra cf pairs ttls None)))))))"

definition raw_batch_delete_atomic ::
  "target_storage \<Rightarrow> raw_env \<Rightarrow> request_ctx \<Rightarrow> string \<Rightarrow> bytes list \<Rightarrow> refusal + storage_write" where
  "raw_batch_delete_atomic st ra ctx cf keys =
    rbind (refuse_if_protected st) (\<lambda>_.
    rbind (map_err ByReturn (check_api_version (st_api_version st) (cx_api_version ctx) KRawAtomicStore keys)) (\<lambda>_.
    rbind (map_err ByReturn (rawkv_cf cf (st_api_version st))) (\<lambda>cf.
      sched_raw_command ra (Inr (RunRawAtomicStore cf (map (raw_delete_request_to_modify st cf None) keys))))))"

text \<open>The handler of a batch put (\<open>src/server/service/kv.rs\<close>): one lifetime stands for all pairs.\<close>

definition request_ttls :: "nat \<Rightarrow> u64 list \<Rightarrow> u64 list" where
  "request_ttls pairs_len ttls =
    (case ttls of [] \<Rightarrow> replicate pairs_len 0 | [ttl] \<Rightarrow> replicate pairs_len ttl | _ \<Rightarrow> ttls)"

definition future_raw_batch_put ::
  "target_storage \<Rightarrow> raw_env \<Rightarrow> request_ctx \<Rightarrow> string \<Rightarrow> (bytes \<times> bytes) list \<Rightarrow> u64 list \<Rightarrow> bool
    \<Rightarrow> refusal + storage_write" where
  "future_raw_batch_put st ra ctx cf pairs ttls for_cas =
    (let ttls = request_ttls (length pairs) ttls in
     if for_cas then raw_batch_put_atomic st ra ctx cf pairs ttls
     else raw_batch_put st ra ctx cf pairs ttls)"

section \<open>Requests\<close>

datatype write_request =
    TxnRequest txn_command
  | DeleteRangeRequest key key bool
  | RawPut string bytes bytes u64
  | RawBatchPut string "(bytes \<times> bytes) list" "u64 list"
  | RawDelete string bytes
  | RawDeleteRange string bytes bytes
  | RawBatchDelete string "bytes list"
  | RawCompareAndSwap string bytes "bytes option" bytes u64
  | RawBatchPutAtomic string "(bytes \<times> bytes) list" "u64 list"
  | RawBatchDeleteAtomic string "bytes list"

fun handle_write :: "target_storage \<Rightarrow> raw_env \<Rightarrow> request_ctx \<Rightarrow> write_request \<Rightarrow> refusal + storage_write" where
  "handle_write st ra ctx (TxnRequest cmd) = sched_txn_command st ctx cmd"
| "handle_write st ra ctx (DeleteRangeRequest a b n) = delete_range_txn st ra ctx a b n"
| "handle_write st ra ctx (RawPut cf k v ttl) = raw_put st ra ctx cf k v ttl"
| "handle_write st ra ctx (RawBatchPut cf pairs ttls) = raw_batch_put st ra ctx cf pairs ttls"
| "handle_write st ra ctx (RawDelete cf k) = raw_delete st ra ctx cf k"
| "handle_write st ra ctx (RawDeleteRange cf a b) = raw_delete_range st ra ctx cf a b"
| "handle_write st ra ctx (RawBatchDelete cf keys) = raw_batch_delete st ra ctx cf keys"
| "handle_write st ra ctx (RawCompareAndSwap cf k prev v ttl) = raw_compare_and_swap_atomic st ra ctx cf k prev v ttl"
| "handle_write st ra ctx (RawBatchPutAtomic cf pairs ttls) = raw_batch_put_atomic st ra ctx cf pairs ttls"
| "handle_write st ra ctx (RawBatchDeleteAtomic cf keys) = raw_batch_delete_atomic st ra ctx cf keys"

text \<open>The requests the protection lets through.\<close>

fun exempt :: "request_ctx \<Rightarrow> write_request \<Rightarrow> bool" where
  "exempt ctx (TxnRequest cmd) =
    (checked_keys cmd = None \<or> cx_request_source ctx = [] \<or> starts_with (cx_request_source ctx) ''internal_'')"
| "exempt ctx (DeleteRangeRequest a b n) = True"
| "exempt ctx (RawCompareAndSwap cf k prev v ttl) = True"
| "exempt ctx _ = False"

lemmas raw_ops = raw_put_def raw_batch_put_def raw_delete_def raw_delete_range_def raw_batch_delete_def
  raw_batch_put_atomic_def raw_batch_delete_atomic_def

lemma protected_request:
  assumes "st_write_protected st"
  shows "handle_write st ra ctx req =
    (if exempt ctx req then handle_write (set_write_protection False st) ra ctx req
     else Inl (ByCallback ReplicationMode))"
proof (cases req)
  case (TxnRequest cmd)
  then show ?thesis
    using assms by (auto simp: sched_txn_command_def set_write_protection_def Let_def split: option.split)
qed (use assms in \<open>simp_all add: raw_ops refuse_if_protected_def set_write_protection_def delete_range_txn_def
    raw_compare_and_swap_atomic_def\<close>)

lemma task_protected:
  assumes "ta_write_guard t0 \<or> ta_state t0 = Idle"
    and "ta_state (run_tasks inputs t0) \<in> {Subscribing, Paused, CuttingOver}"
  shows "ta_write_guard (run_tasks inputs t0)"
proof -
  have "guard_inv t0" using assms(1) by (auto simp: guard_inv_def)
  then have "guard_inv (run_tasks inputs t0)" by (rule run_tasks_guard)
  then show ?thesis using assms(2) by (auto simp: guard_inv_def)
qed

text \<open>C9: While a replication runs, no write of a user enters the target.  For a task that starts protected or idle
  and a storage that shares its flag, a write request is admitted in the subscribing, paused and
  cutting-over states only when it is exempt, that is a transactional command of the database itself or one
  that takes no lock, a deletion of a range, or an atomic compare-and-swap; every other request is
  refused through its callback, and an exempt one is treated as without protection.\<close>

theorem replication_refuses_writes:
  assumes "ta_write_guard t0 \<or> ta_state t0 = Idle" "t = run_tasks inputs t0"
    and "ta_state t \<in> {Subscribing, Paused, CuttingOver}" "st_write_protected st = ta_write_guard t"
  shows "handle_write st ra ctx req =
    (if exempt ctx req then handle_write (set_write_protection False st) ra ctx req
     else Inl (ByCallback ReplicationMode))"
proof (rule protected_request)
  show "st_write_protected st" using task_protected [OF assms(1)] assms(2-4) by simp
qed

definition example_storage :: target_storage where
  "example_storage = \<lparr>st_api_version = ApiV1, st_max_key_size = 100, st_write_protected = True\<rparr>"

definition example_raw_env :: raw_env where
  "example_raw_env = \<lparr>ra_spawn_ok = True, ra_in_time = True, ra_max_ts_synced = Inr True, ra_ts_provider = None,
     ra_now = 7, ra_write_error = None\<rparr>"

definition example_ctx :: request_ctx where
  "example_ctx = \<lparr>cx_api_version = ApiV1, cx_request_source = ''Insert''\<rparr>"

theorem replication_refuses_writes_witness:
  "handle_write example_storage example_raw_env example_ctx (TxnRequest (Prewrite [[1]])) = Inl (ByCallback ReplicationMode)
    \<and> handle_write example_storage example_raw_env example_ctx (RawPut [] [1] [2] 0) = Inl (ByCallback ReplicationMode)
    \<and> handle_write example_storage example_raw_env example_ctx (RawCompareAndSwap [] [1] None [2] 0)
        = Inr (RunRawCompareAndSwap ''default'' [1] None [2] 0)"
proof -
  let ?t = "run_tasks [Command (example_task_env DoneSignalled) (CreateReplication ''pd:2379'' ''t'')]
    (task_new 0 (config_default 1) None None False None ())"
  have idle: "ta_write_guard (task_new 0 (config_default 1) None None False None ()) \<or>
      ta_state (task_new 0 (config_default 1) None None False None ()) = Idle"
    by (simp add: task_new_def load_persisted_state_def config_default_def)
  have state: "ta_state ?t \<in> {Subscribing, Paused, CuttingOver}"
    using example_task_fields(1) by (simp add: run_tasks_def example_task_def)
  have guard: "st_write_protected example_storage = ta_write_guard ?t"
    using task_protected [OF idle state] by (simp add: example_storage_def)
  show ?thesis
    unfolding replication_refuses_writes [OF idle refl state guard]
    by (simp add: example_ctx_def starts_with_def example_storage_def set_write_protection_def
        raw_compare_and_swap_atomic_def check_api_version_def required_mode_def rawkv_cf_def check_ttl_def
        sched_raw_command_def example_raw_env_def)
qed

section \<open>What a raw put stores\<close>

definition readable_put :: "target_storage \<Rightarrow> raw_env \<Rightarrow> timestamp option \<Rightarrow> modify \<Rightarrow> (bytes \<times> bytes) \<times> u64 \<Rightarrow> bool" where
  "readable_put st ra ts m kvt = (case (m, kvt) of
     (ModPut cf k' v', (k, v), ttl) \<Rightarrow>
        fmt_decode_raw_key (st_api_version st) k' (fmt_keeps_ts (st_api_version st) ts \<noteq> None)
          = Inr (k, fmt_keeps_ts (st_api_version st) ts)
        \<and> fmt_decode_raw_value (st_api_version st) v'
          = Inr \<lparr>rv_user_value = v, rv_expire_ts = ttl_to_expire_ts (ra_now ra) ttl, rv_is_delete = False\<rparr>
   | _ \<Rightarrow> False)"

lemma saturating_add_nonzero: "ttl \<noteq> 0 \<Longrightarrow> saturating_add_u64 ttl now \<noteq> 0"
proof
  assume ttl: "ttl \<noteq> 0" and zero: "saturating_add_u64 ttl now = 0"
  then have "unat ttl + unat now < 2 ^ 64" by (auto simp: saturating_add_u64_def split: if_splits)
  then have "unat (ttl + now) = unat ttl + unat now" by (simp add: unat_add_lem [symmetric])
  with zero \<open>unat ttl + unat now < 2 ^ 64\<close> have "unat ttl = 0" by (simp add: saturating_add_u64_def)
  with ttl show False by (simp add: unat_eq_0)
qed

lemma put_modify_readable:
  assumes "is_ttl_enabled (st_api_version st) \<or> ttl = 0"
  shows "readable_put st ra ts (put_modify st ra cf ts ((k, v), ttl)) ((k, v), ttl)"
proof -
  have "fmt_represents (st_api_version st)
      \<lparr>rv_user_value = v, rv_expire_ts = ttl_to_expire_ts (ra_now ra) ttl, rv_is_delete = False\<rparr>"
    using assms saturating_add_nonzero [of ttl]
    by (cases "st_api_version st") (auto simp: is_ttl_enabled_def ttl_to_expire_ts_def)
  then show ?thesis
    using fmt_value_round_trip fmt_key_round_trip by (simp add: readable_put_def put_modify_def)
qed

lemma raw_batch_put_modifies:
  assumes "raw_batch_put st ra ctx cf pairs ttls = Inr w"
  obtains cf' g ts where "w = WriteModifies g (raw_batch_put_requests_to_modifies st ra cf' pairs ttls ts)"
    "get_causal_ts ra 1 = Inr ts" "check_ttl_valid (st_api_version st) (length pairs) ttls = Inr ()"
  using assms
  by (auto simp: raw_batch_put_def rbind_Inr_iff map_err_Inr_iff sched_raw_command_def raw_write_task_def
      split: if_splits)

text \<open>C39: A batch of raw pairs that is admitted is written so that it can be read.  Decoding the key and the value of
  each modification, in the format of the storage, gives the user's key, the causal timestamp where
  the format keeps one, the user's value and the expiry computed from the lifetime; one lifetime in
  the request stands for all pairs.  Every pair is written, except that a storage without lifetimes accepts
  a request with fewer of them than pairs, and then the pairs without one are dropped.\<close>

theorem raw_batch_put_readable:
  assumes "future_raw_batch_put st ra ctx cf pairs ttls False = Inr (WriteModifies guard ms)"
  shows "\<exists>ts. get_causal_ts ra 1 = Inr ts
    \<and> list_all2 (readable_put st ra ts) ms (zip pairs (request_ttls (length pairs) ttls))
    \<and> length ms = (if is_ttl_enabled (st_api_version st) \<or> length ttls \<le> 1 then length pairs
        else min (length pairs) (length ttls))"
proof -
  let ?ttls = "request_ttls (length pairs) ttls"
  obtain cf' ts where ms: "ms = map (put_modify st ra cf' ts) (zip pairs ?ttls)"
    and ts: "get_causal_ts ra 1 = Inr ts"
    and valid: "check_ttl_valid (st_api_version st) (length pairs) ?ttls = Inr ()"
    using assms raw_batch_put_modifies [of st ra ctx cf pairs ?ttls "WriteModifies guard ms"]
    by (simp add: future_raw_batch_put_def raw_batch_put_requests_to_modifies_def Let_def) metis
  have "readable_put st ra ts (put_modify st ra cf' ts kvt) kvt" if "kvt \<in> set (zip pairs ?ttls)" for kvt
  proof -
    obtain k v ttl where kvt: "kvt = ((k, v), ttl)" by (metis prod.exhaust)
    have "ttl \<in> set ?ttls" using that kvt by (auto dest: set_zip_rightD)
    then have "is_ttl_enabled (st_api_version st) \<or> ttl = 0"
      using valid by (auto simp: check_ttl_valid_def list_ex_iff split: if_splits)
    then show ?thesis unfolding kvt by (rule put_modify_readable)
  qed
  then have "list_all2 (readable_put st ra ts) ms (zip pairs ?ttls)"
    by (auto simp: ms list_all2_map1 list_all2_same)
  moreover have "length ms = (if is_ttl_enabled (st_api_version st) \<or> length ttls \<le> 1 then length pairs
      else min (length pairs) (length ttls))"
    using valid by (auto simp: ms check_ttl_valid_def request_ttls_def split: if_splits list.splits)
  ultimately show ?thesis using ts by blast
qed

theorem raw_batch_put_readable_witness:
  "\<exists>ms. future_raw_batch_put (set_write_protection False example_storage) example_raw_env example_ctx []
      [([1], [2]), ([3], [4]), ([5], [6])] [0, 0] False = Inr (WriteModifies None ms) \<and> length ms = 2"
proof -
  let ?st = "set_write_protection False example_storage"
  obtain ms where ms: "future_raw_batch_put ?st example_raw_env example_ctx []
      [([1], [2]), ([3], [4]), ([5], [6])] [0, 0] False = Inr (WriteModifies None ms)"
    by (simp add: future_raw_batch_put_def request_ttls_def raw_batch_put_def refuse_if_protected_def
        set_write_protection_def example_storage_def example_ctx_def check_api_version_def required_mode_def
        rawkv_cf_def check_key_size_def check_ttl_valid_def is_ttl_enabled_def sched_raw_command_def
        example_raw_env_def raw_write_task_def check_causal_ts_flushed_def get_raw_key_guard_def get_causal_ts_def)
  then show ?thesis
    using raw_batch_put_readable [OF ms]
    by (auto simp: set_write_protection_def example_storage_def is_ttl_enabled_def)
qed

end
